(* ===== verification/Prelude.thy ===== *)
theory Prelude
  imports Main "HOL-Library.Word" "HOL-Library.AList" "HOL-Library.Char_ord"
    "HOL-Library.List_Lexorder" "HOL-Library.Sublist"
begin

unbundle bit_operations_syntax

text \<open>
  The prelude of the development: what the load balancer uses of Rust's language and
  standard library, and the generic lemmas every component shares.

  \<^item> Machine integers: \<open>u32\<close>, \<open>u64\<close> and \<open>usize\<close> as words, and the saturating operations.
  \<^item> Strings: a Rust \<^verbatim>\<open>str\<close> is a sequence of UTF-8 bytes, so it is a \<^typ>\<open>string\<close> whose
    characters are the bytes and whose length is \<^verbatim>\<open>str::len\<close>. The methods that work on
    Unicode characters (\<^verbatim>\<open>trim\<close>, \<^verbatim>\<open>split_whitespace\<close>, \<^verbatim>\<open>chars().any(..)\<close>) go through
    \<open>str_chars\<close>, the string cut into its UTF-8 encoded characters.
  \<^item> \<^verbatim>\<open>HashMap\<close>: an association list with distinct keys, whose order stands for the
    (unspecified) iteration order; the locale \<open>hash_map\<close> states the contract and is
    interpreted on the list operations.
  \<^item> The invariant rule of a step relation, as a locale.
\<close>

named_theorems str_simps "evaluation rules of the string library"
named_theorems result_iff "when a fallible operation returns a given value"

section \<open>Machine integers\<close>

type_synonym byte = "8 word"
type_synonym bytes = "8 word list"
type_synonym u32 = "32 word"
type_synonym u64 = "64 word"
type_synonym usize = "64 word"

definition saturating_sub :: "'a::len word \<Rightarrow> 'a word \<Rightarrow> 'a word" where
  "saturating_sub a b = (if b \<le> a then a - b else 0)"

definition saturating_add :: "'a::len word \<Rightarrow> 'a word \<Rightarrow> 'a word" where
  "saturating_add a b = (if unat a + unat b < 2 ^ LENGTH('a) then a + b else - 1)"

lemma unat_saturating_sub: "unat (saturating_sub a b) = unat a - unat b"
  by (auto simp: saturating_sub_def unat_sub word_le_nat_alt)

lemma unat_saturating_add:
  fixes a :: "'a::len word"
  shows "unat (saturating_add a b) = min (unat a + unat b) (2 ^ LENGTH('a) - 1)"
  by (auto simp: saturating_add_def unat_word_ariths min_def unsigned_minus_1_eq_mask mask_eq_exp_minus_1)

section \<open>Strings\<close>

definition as_bytes :: "string \<Rightarrow> bytes" where
  "as_bytes s = map of_char s"

definition of_bytes :: "bytes \<Rightarrow> string" where
  "of_bytes bs = map (\<lambda>b. char_of (unat b)) bs"

lemma unat_of_char [simp]: "unat (of_char c :: byte) = of_char c"
proof -
  have "(of_char c :: byte) = of_nat (of_char c)" by (simp add: of_nat_of_char)
  then show ?thesis
    by (simp only: unat_of_nat) simp
qed

lemma of_bytes_as_bytes [simp]: "of_bytes (as_bytes s) = s"
  by (simp add: of_bytes_def as_bytes_def comp_def)

lemma as_bytes_of_bytes [simp]: "as_bytes (of_bytes bs) = bs"
proof -
  have "(of_char (char_of (unat b)) :: byte) = b" for b :: byte
    using unsigned_less [of b, where 'a = nat] by (simp add: word_unat_eq_iff)
  then show ?thesis
    by (simp add: of_bytes_def as_bytes_def comp_def)
qed

lemma length_as_bytes [simp]: "length (as_bytes s) = length s"
  by (simp add: as_bytes_def)

text \<open>The code of a byte, as a natural number.\<close>

abbreviation code_of :: "char \<Rightarrow> nat" where
  "code_of c \<equiv> of_char c"

definition to_ascii_lowercase :: "string \<Rightarrow> string" where
  "to_ascii_lowercase s =
     map (\<lambda>c. if 65 \<le> code_of c \<and> code_of c \<le> 90 then char_of (code_of c + 32) else c) s"

definition eq_ignore_ascii_case :: "string \<Rightarrow> string \<Rightarrow> bool" where
  "eq_ignore_ascii_case a b \<longleftrightarrow> to_ascii_lowercase a = to_ascii_lowercase b"

subsection \<open>UTF-8\<close>

text \<open>
  How many bytes a UTF-8 character has, by its first byte (0: no character starts so), and
  the range its second byte must lie in: overlong forms, surrogates and code points above
  U+10FFFF are excluded there.
\<close>

definition utf8_len :: "char \<Rightarrow> nat" where
  "utf8_len a =
     (if code_of a < 128 then 1
      else if 194 \<le> code_of a \<and> code_of a \<le> 223 then 2
      else if 224 \<le> code_of a \<and> code_of a \<le> 239 then 3
      else if 240 \<le> code_of a \<and> code_of a \<le> 244 then 4 else 0)"

definition utf8_second :: "char \<Rightarrow> char \<Rightarrow> bool" where
  "utf8_second a b \<longleftrightarrow>
     (if code_of a = 224 then 160 else if code_of a = 240 then 144 else 128) \<le> code_of b \<and>
     code_of b \<le> (if code_of a = 237 then 159 else if code_of a = 244 then 143 else 191)"

definition utf8_cont :: "char \<Rightarrow> bool" where
  "utf8_cont c \<longleftrightarrow> 128 \<le> code_of c \<and> code_of c \<le> 191"

text \<open>
  The next chunk of a byte string: whether it is a character, and how many bytes it takes.
  A malformed chunk is the longest prefix that could have begun a character.
\<close>

fun utf8_step :: "string \<Rightarrow> bool \<times> nat" where
  "utf8_step [] = (False, 0)"
| "utf8_step (a # s) =
     (let n = utf8_len a in
      if n = 0 then (False, 1) else if n = 1 then (True, 1)
      else case s of [] \<Rightarrow> (False, 1) | b # s \<Rightarrow>
        if \<not> utf8_second a b then (False, 1) else if n = 2 then (True, 2)
        else case s of [] \<Rightarrow> (False, 2) | c # s \<Rightarrow>
          if \<not> utf8_cont c then (False, 2) else if n = 3 then (True, 3)
          else case s of [] \<Rightarrow> (False, 3) | d # s \<Rightarrow>
            if \<not> utf8_cont d then (False, 3) else (True, 4))"

lemma utf8_step_pos: "s \<noteq> [] \<Longrightarrow> 0 < snd (utf8_step s)"
  by (cases s) (auto simp: Let_def split: list.splits)

lemma utf8_step_le: "snd (utf8_step s) \<le> length s"
  by (cases s) (auto simp: Let_def split: list.splits)

function str_chunks :: "string \<Rightarrow> (bool \<times> string) list" where
  "str_chunks s =
     (if s = [] then []
      else (fst (utf8_step s), take (snd (utf8_step s)) s) #
        str_chunks (drop (snd (utf8_step s)) s))"
  by pat_completeness auto
termination
  by (relation "measure length") (auto intro: diff_less dest: utf8_step_pos)

declare str_chunks.simps [simp del]

lemma str_chunks_Nil [simp]: "str_chunks [] = []"
  by (simp add: str_chunks.simps)

lemma str_chunks_nonempty:
  "s \<noteq> [] \<Longrightarrow> str_chunks s =
     (fst (utf8_step s), take (snd (utf8_step s)) s) # str_chunks (drop (snd (utf8_step s)) s)"
  by (subst str_chunks.simps) simp

lemma concat_str_chunks [simp]: "concat (map snd (str_chunks s)) = s"
proof (induction s rule: str_chunks.induct)
  case (1 s)
  then show ?case
    by (cases "s = []") (simp_all add: str_chunks_nonempty)
qed

definition valid_utf8 :: "string \<Rightarrow> bool" where
  "valid_utf8 s \<longleftrightarrow> list_all fst (str_chunks s)"

text \<open>\<^verbatim>\<open>String::from_utf8_lossy\<close>: every malformed chunk becomes U+FFFD.\<close>

definition replacement_char :: string where
  "replacement_char = [CHR 0xEF, CHR 0xBF, CHR 0xBD]"

definition from_utf8_lossy :: "bytes \<Rightarrow> string" where
  "from_utf8_lossy bs =
     concat (map (\<lambda>(ok, c). if ok then c else replacement_char) (str_chunks (of_bytes bs)))"

text \<open>The characters of a string, each as its UTF-8 bytes.\<close>

definition str_chars :: "string \<Rightarrow> string list" where
  "str_chars s = map snd (str_chunks s)"

definition is_ascii :: "string \<Rightarrow> bool" where
  "is_ascii s \<longleftrightarrow> list_all (\<lambda>c. code_of c < 128) s"

text \<open>
  \<^verbatim>\<open>char::is_whitespace\<close> (Unicode White_Space) and \<^verbatim>\<open>char::is_control\<close> (category Cc), on a
  character given by its UTF-8 bytes.
\<close>

definition is_whitespace :: "string \<Rightarrow> bool" where
  "is_whitespace c \<longleftrightarrow>
     c \<in> set [[CHR 0x09], [CHR 0x0A], [CHR 0x0B], [CHR 0x0C], [CHR 0x0D], [CHR 0x20],
       [CHR 0xC2, CHR 0x85], [CHR 0xC2, CHR 0xA0], [CHR 0xE1, CHR 0x9A, CHR 0x80],
       [CHR 0xE2, CHR 0x80, CHR 0x80], [CHR 0xE2, CHR 0x80, CHR 0x81],
       [CHR 0xE2, CHR 0x80, CHR 0x82], [CHR 0xE2, CHR 0x80, CHR 0x83],
       [CHR 0xE2, CHR 0x80, CHR 0x84], [CHR 0xE2, CHR 0x80, CHR 0x85],
       [CHR 0xE2, CHR 0x80, CHR 0x86], [CHR 0xE2, CHR 0x80, CHR 0x87],
       [CHR 0xE2, CHR 0x80, CHR 0x88], [CHR 0xE2, CHR 0x80, CHR 0x89],
       [CHR 0xE2, CHR 0x80, CHR 0x8A], [CHR 0xE2, CHR 0x80, CHR 0xA8],
       [CHR 0xE2, CHR 0x80, CHR 0xA9], [CHR 0xE2, CHR 0x80, CHR 0xAF],
       [CHR 0xE2, CHR 0x81, CHR 0x9F], [CHR 0xE3, CHR 0x80, CHR 0x80]]"

fun is_control :: "string \<Rightarrow> bool" where
  "is_control [a] \<longleftrightarrow> code_of a < 32 \<or> code_of a = 127"
| "is_control [a, b] \<longleftrightarrow> code_of a = 194 \<and> 128 \<le> code_of b \<and> code_of b \<le> 159"
| "is_control _ \<longleftrightarrow> False"

definition trim_start :: "string \<Rightarrow> string" where
  "trim_start s = concat (dropWhile is_whitespace (str_chars s))"

definition trim_end :: "string \<Rightarrow> string" where
  "trim_end s = concat (rev (dropWhile is_whitespace (rev (str_chars s))))"

definition trim :: "string \<Rightarrow> string" where
  "trim s =
     concat (rev (dropWhile is_whitespace (rev (dropWhile is_whitespace (str_chars s)))))"

text \<open>\<^verbatim>\<open>str::split_whitespace\<close>: the maximal runs of characters that are not whitespace.\<close>

fun ws_words :: "string \<Rightarrow> string list \<Rightarrow> string list" where
  "ws_words acc [] = (if acc = [] then [] else [acc])"
| "ws_words acc (c # cs) =
     (if is_whitespace c then (if acc = [] then [] else [acc]) @ ws_words [] cs
      else ws_words (acc @ c) cs)"

definition split_whitespace :: "string \<Rightarrow> string list" where
  "split_whitespace s = ws_words [] (str_chars s)"

text \<open>\<^verbatim>\<open>splitn(2, char::is_whitespace)\<close>: the first part and, if there is a split, the rest.\<close>

definition splitn2_whitespace :: "string \<Rightarrow> string \<times> string option" where
  "splitn2_whitespace s =
     (let cs = str_chars s; h = takeWhile (\<lambda>c. \<not> is_whitespace c) cs
      in (concat h, case drop (length h) cs of [] \<Rightarrow> None | _ # r \<Rightarrow> Some (concat r)))"

subsection \<open>Splitting, prefixes and suffixes at an ASCII character\<close>

fun split_on :: "char \<Rightarrow> string \<Rightarrow> string list" where
  "split_on d [] = [[]]"
| "split_on d (c # s) =
     (if c = d then [] # split_on d s
      else case split_on d s of [] \<Rightarrow> [[c]] | w # ws \<Rightarrow> (c # w) # ws)"

definition split_once :: "char \<Rightarrow> string \<Rightarrow> (string \<times> string) option" where
  "split_once d s =
     (let h = takeWhile (\<lambda>c. c \<noteq> d) s
      in case drop (length h) s of [] \<Rightarrow> None | _ # r \<Rightarrow> Some (h, r))"

definition trim_end_matches :: "char \<Rightarrow> string \<Rightarrow> string" where
  "trim_end_matches d s = rev (dropWhile (\<lambda>c. c = d) (rev s))"

definition trim_matches :: "char \<Rightarrow> string \<Rightarrow> string" where
  "trim_matches d s = trim_end_matches d (dropWhile (\<lambda>c. c = d) s)"

definition starts_with :: "string \<Rightarrow> string \<Rightarrow> bool" where
  "starts_with s p \<longleftrightarrow> take (length p) s = p"

definition strip_prefix :: "string \<Rightarrow> string \<Rightarrow> string option" where
  "strip_prefix s p = (if take (length p) s = p then Some (drop (length p) s) else None)"

definition strip_suffix :: "string \<Rightarrow> string \<Rightarrow> string option" where
  "strip_suffix s p =
     (if length p \<le> length s \<and> drop (length s - length p) s = p
      then Some (take (length s - length p) s) else None)"

text \<open>\<^verbatim>\<open>Iterator::find_map\<close> and \<^verbatim>\<open>filter_map\<close>.\<close>

fun find_map :: "('a \<Rightarrow> 'b option) \<Rightarrow> 'a list \<Rightarrow> 'b option" where
  "find_map f [] = None"
| "find_map f (x # xs) = (case f x of Some y \<Rightarrow> Some y | None \<Rightarrow> find_map f xs)"

subsection \<open>Digits and numbers\<close>

text \<open>\<^verbatim>\<open>char::to_digit(16)\<close> and \<^verbatim>\<open>char::from_digit(_, 16)\<close>.\<close>

definition to_digit16 :: "char \<Rightarrow> nat option" where
  "to_digit16 c =
     (if 48 \<le> code_of c \<and> code_of c \<le> 57 then Some (code_of c - 48)
      else if 97 \<le> code_of c \<and> code_of c \<le> 102 then Some (code_of c - 87)
      else if 65 \<le> code_of c \<and> code_of c \<le> 70 then Some (code_of c - 55) else None)"

definition from_digit16 :: "nat \<Rightarrow> char" where
  "from_digit16 n = char_of (if n < 10 then 48 + n else 87 + n)"

text \<open>
  \<^verbatim>\<open>str::parse\<close> of an unsigned integer: an optional plus sign and at least one decimal
  digit; an error when the value does not fit.
\<close>

fun digits_value :: "nat \<Rightarrow> string \<Rightarrow> nat option" where
  "digits_value acc [] = Some acc"
| "digits_value acc (c # s) =
     (if 48 \<le> code_of c \<and> code_of c \<le> 57 then digits_value (10 * acc + (code_of c - 48)) s
      else None)"

definition parse_unsigned :: "nat \<Rightarrow> string \<Rightarrow> nat option" where
  "parse_unsigned bits s =
     (let ds = (case s of c # r \<Rightarrow> if c = CHR ''+'' then r else s | [] \<Rightarrow> [])
      in if ds = [] then None
         else case digits_value 0 ds of
           Some n \<Rightarrow> if n < 2 ^ bits then Some n else None
         | None \<Rightarrow> None)"

text \<open>Lower-case hexadecimal, two digits per byte (\<^verbatim>\<open>{:02x}\<close>).\<close>

definition hex_digits :: "byte \<Rightarrow> string" where
  "hex_digits b = [from_digit16 (unat b div 16), from_digit16 (unat b mod 16)]"

definition format_hex :: "bytes \<Rightarrow> string" where
  "format_hex bs = concat (map hex_digits bs)"

section \<open>Lemmas on strings\<close>

lemma utf8_step_ascii: "code_of c < 128 \<Longrightarrow> utf8_step (c # s) = (True, 1)"
  by (simp add: utf8_len_def)

lemma str_chunks_ascii_Cons [str_simps]:
  "code_of c < 128 \<Longrightarrow> str_chunks (c # s) = (True, [c]) # str_chunks s"
  by (simp add: str_chunks_nonempty utf8_step_ascii del: utf8_step.simps)

lemma str_chars_Nil [simp]: "str_chars [] = []"
  by (simp add: str_chars_def)

lemma str_chars_ascii_Cons [str_simps]:
  "code_of c < 128 \<Longrightarrow> str_chars (c # s) = [c] # str_chars s"
  by (simp add: str_chars_def str_chunks_ascii_Cons)

lemma str_chars_ascii: "is_ascii s \<Longrightarrow> str_chars s = map (\<lambda>c. [c]) s"
  by (induction s) (auto simp: is_ascii_def str_chars_ascii_Cons)

lemma concat_str_chars [simp]: "concat (str_chars s) = s"
  by (simp add: str_chars_def)

lemma valid_utf8_Nil [simp]: "valid_utf8 []"
  by (simp add: valid_utf8_def)

lemma is_ascii_valid_utf8: "is_ascii s \<Longrightarrow> valid_utf8 s"
  by (induction s) (auto simp: is_ascii_def valid_utf8_def str_chunks_ascii_Cons)

text \<open>A well-formed character is cut off whatever follows it.\<close>

lemma four_bytes_cases:
  obtains "s = []" | a where "s = [a]" | a b where "s = [a, b]" | a b c where "s = [a, b, c]"
    | a b c d r where "s = a # b # c # d # r"
  by (metis neq_Nil_conv)

lemma utf8_step_append:
  assumes "fst (utf8_step s)" and "snd (utf8_step s) = length s"
  shows "utf8_step (s @ r) = utf8_step s"
  by (rule four_bytes_cases [of s]; insert assms; simp add: Let_def split: if_split_asm)

lemma utf8_step_take:
  assumes "fst (utf8_step s)"
  shows "utf8_step (take (snd (utf8_step s)) s) = utf8_step s"
  by (rule four_bytes_cases [of s]; insert assms; simp add: Let_def split: if_split_asm)

lemma str_chunks_append_valid:
  assumes "fst (utf8_step c)" and "snd (utf8_step c) = length c"
  shows "str_chunks (c @ r) = (True, c) # str_chunks r"
proof -
  have "c \<noteq> []" using assms(1) by auto
  then show ?thesis
    using assms utf8_step_append [OF assms, of r]
    by (simp add: str_chunks_nonempty del: utf8_step.simps)
qed

lemma str_chunks_valid_chunk:
  "(True, c) \<in> set (str_chunks s) \<Longrightarrow> fst (utf8_step c) \<and> snd (utf8_step c) = length c"
proof (induction s rule: str_chunks.induct)
  case (1 s)
  then show ?case
    using utf8_step_take [of s] utf8_step_le [of s]
    by (cases "s = []") (auto simp: str_chunks_nonempty min_def simp del: utf8_step.simps)
qed

lemma utf8_step_replacement:
  "utf8_step replacement_char = (True, 3)"
  by (simp add: replacement_char_def utf8_len_def utf8_second_def utf8_cont_def)

lemma valid_utf8_lossy: "valid_utf8 (from_utf8_lossy bs)"
proof -
  have "list_all fst (str_chunks (concat (map (\<lambda>(ok, c). if ok then c else replacement_char) cs)))"
    if "set cs \<subseteq> set (str_chunks s)" for cs s
    using that
  proof (induction cs)
    case (Cons p cs)
    obtain ok c where p: "p = (ok, c)" by fastforce
    have "length replacement_char = 3" by (simp add: replacement_char_def)
    with Cons p show ?case
      using str_chunks_valid_chunk [of c s] utf8_step_replacement
      by (cases ok) (auto simp: str_chunks_append_valid)
  qed simp
  from this [OF subset_refl] show ?thesis
    by (simp add: from_utf8_lossy_def valid_utf8_def)
qed

lemma from_utf8_lossy_valid: "valid_utf8 s \<Longrightarrow> from_utf8_lossy (as_bytes s) = s"
proof -
  assume "valid_utf8 s"
  then have "map (\<lambda>(ok, c). if ok then c else replacement_char) (str_chunks s)
      = map snd (str_chunks s)"
    by (intro map_cong) (auto simp: valid_utf8_def list_all_iff)
  then have "from_utf8_lossy (as_bytes s) = concat (map snd (str_chunks s))"
    by (simp only: from_utf8_lossy_def of_bytes_as_bytes)
  then show ?thesis by simp
qed

lemma split_on_not_Nil [simp]: "split_on d s \<noteq> []"
  by (cases s) (auto split: list.splits)

lemma split_on_no_delim: "w \<in> set (split_on d s) \<Longrightarrow> d \<notin> set w"
  by (induction s arbitrary: w) (auto split: list.splits if_splits)

lemma split_on_free: "d \<notin> set s \<Longrightarrow> split_on d s = [s]"
  by (induction s) auto

lemma split_on_append: "d \<notin> set s \<Longrightarrow> split_on d (s @ d # r) = s # split_on d r"
  by (induction s) auto

lemma find_map_Some:
  "find_map f xs = Some y \<Longrightarrow> \<exists>x \<in> set xs. f x = Some y"
  by (induction xs) (auto split: option.splits)

lemma find_map_None [simp]: "find_map f xs = None \<longleftrightarrow> (\<forall>x \<in> set xs. f x = None)"
  by (induction xs) (auto split: option.splits)

lemma to_digit16_from_digit16 [simp]: "n < 16 \<Longrightarrow> to_digit16 (from_digit16 n) = Some n"
  by (auto simp: to_digit16_def from_digit16_def)

lemma to_digit16_less: "to_digit16 c = Some n \<Longrightarrow> n < 16"
  by (auto simp: to_digit16_def split: if_splits)

lemma parse_unsigned_bound: "parse_unsigned bits s = Some n \<Longrightarrow> n < 2 ^ bits"
  by (auto simp: parse_unsigned_def Let_def split: if_splits option.splits)

lemma starts_with_iff: "starts_with s p \<longleftrightarrow> (\<exists>r. s = p @ r)"
  by (metis append_eq_conv_conj append_take_drop_id starts_with_def)

lemma strip_prefix_Some [result_iff]: "strip_prefix s p = Some r \<longleftrightarrow> s = p @ r"
  by (auto simp: strip_prefix_def) (metis append_take_drop_id)

lemma strip_suffix_Some [result_iff]: "strip_suffix s p = Some r \<longleftrightarrow> s = r @ p"
  by (auto simp: strip_suffix_def) (metis append_take_drop_id)

lemma format_hex_inj: "format_hex a = format_hex b \<longleftrightarrow> a = b"
proof
  show "format_hex a = format_hex b \<Longrightarrow> a = b"
  proof (induction a arbitrary: b)
    case Nil
    then show ?case by (cases b) (auto simp: format_hex_def hex_digits_def)
  next
    case (Cons n a)
    then obtain m b' where b: "b = m # b'"
      by (cases b) (auto simp: format_hex_def hex_digits_def)
    have lt: "unat n div 16 < 16" "unat n mod 16 < 16" "unat m div 16 < 16" "unat m mod 16 < 16"
      using unsigned_less [of n, where 'a = nat] unsigned_less [of m, where 'a = nat] by auto
    have "hex_digits n = hex_digits m" "format_hex a = format_hex b'"
      using Cons.prems by (auto simp: b format_hex_def hex_digits_def)
    then have "unat n div 16 = unat m div 16" "unat n mod 16 = unat m mod 16"
      using lt by (auto simp: hex_digits_def dest: arg_cong [of _ _ to_digit16])
    then have "n = m" by (metis div_mult_mod_eq word_unat_eq_iff)
    then show ?case using Cons.IH [OF \<open>format_hex a = format_hex b'\<close>] by (simp add: b)
  qed
qed simp

section \<open>HashMap\<close>

text \<open>
  The contract of \<^verbatim>\<open>std::collections::HashMap\<close>: a client sees the map through \<open>get\<close>, the
  keys and the number of entries.
\<close>

locale hash_map =
  fixes get :: "'m \<Rightarrow> 'k \<Rightarrow> 'v option"
    and insert_at :: "'k \<Rightarrow> 'v \<Rightarrow> 'm \<Rightarrow> 'm"
    and remove_at :: "'k \<Rightarrow> 'm \<Rightarrow> 'm"
    and size_of :: "'m \<Rightarrow> nat"
    and invar :: "'m \<Rightarrow> bool"
  assumes get_insert: "get (insert_at k v m) k' = (if k' = k then Some v else get m k')"
    and get_remove: "get (remove_at k m) k' = (if k' = k then None else get m k')"
    and invar_insert: "invar m \<Longrightarrow> invar (insert_at k v m)"
    and invar_remove: "invar m \<Longrightarrow> invar (remove_at k m)"
    and size_dom: "invar m \<Longrightarrow> size_of m = card (dom (get m)) \<and> finite (dom (get m))"
begin

lemma dom_insert_at: "dom (get (insert_at k v m)) = insert k (dom (get m))"
  by (auto simp: dom_def get_insert)

lemma dom_remove_at: "dom (get (remove_at k m)) = dom (get m) - {k}"
  by (auto simp: dom_def get_remove)

lemma size_insert_at:
  "invar m \<Longrightarrow> size_of (insert_at k v m) = (if get m k = None then Suc (size_of m) else size_of m)"
  using size_dom [of m] size_dom [OF invar_insert, of m k v]
  by (auto simp: dom_insert_at card_insert_if domIff)

lemma size_remove_at:
  "invar m \<Longrightarrow> size_of (remove_at k m) = (if get m k = None then size_of m else size_of m - 1)"
  using size_dom [of m] size_dom [OF invar_remove, of m k]
  by (auto simp: dom_remove_at card_Diff_singleton_if domIff)

end

text \<open>
  The implementation of the model: association lists with distinct keys. The order of the
  list plays the part of the iteration order, so a fact proved for every such list holds
  for every iteration order.
\<close>

type_synonym ('k, 'v) hmap = "('k \<times> 'v) list"

definition hinvar :: "('k, 'v) hmap \<Rightarrow> bool" where
  "hinvar m \<longleftrightarrow> distinct (map fst m)"

abbreviation hget :: "('k, 'v) hmap \<Rightarrow> 'k \<Rightarrow> 'v option" where
  "hget \<equiv> map_of"

definition hinsert :: "'k \<Rightarrow> 'v \<Rightarrow> ('k, 'v) hmap \<Rightarrow> ('k, 'v) hmap" where
  "hinsert k v m = AList.update k v m"

definition hremove :: "'k \<Rightarrow> ('k, 'v) hmap \<Rightarrow> ('k, 'v) hmap" where
  "hremove k m = AList.delete k m"

text \<open>\<^verbatim>\<open>HashMap::retain\<close>.\<close>

definition hretain :: "('k \<Rightarrow> 'v \<Rightarrow> bool) \<Rightarrow> ('k, 'v) hmap \<Rightarrow> ('k, 'v) hmap" where
  "hretain P m = filter (\<lambda>(k, v). P k v) m"

lemma card_dom_hget: "hinvar m \<Longrightarrow> card (dom (hget m)) = length m"
  by (simp add: hinvar_def dom_map_of_conv_image_fst image_set [symmetric] distinct_card
      del: image_set) (metis distinct_card length_map list.set_map)

interpretation hm: hash_map hget hinsert hremove length hinvar
proof
  fix k k' :: 'k and v :: 'v and m :: "('k, 'v) hmap"
  show "hget (hinsert k v m) k' = (if k' = k then Some v else hget m k')"
    by (simp add: hinsert_def update_conv')
  show "hget (hremove k m) k' = (if k' = k then None else hget m k')"
    by (simp add: hremove_def delete_conv')
  show "hinvar (hinsert k v m)" if "hinvar m"
    using that by (simp add: hinsert_def hinvar_def distinct_update)
  show "hinvar (hremove k m)" if "hinvar m"
    using that by (simp add: hremove_def hinvar_def distinct_delete)
  show "length m = card (dom (hget m)) \<and> finite (dom (hget m))" if "hinvar m"
    using that by (simp add: card_dom_hget finite_dom_map_of)
qed

lemmas hmap_simps = hm.get_insert hm.get_remove hm.invar_insert hm.invar_remove
  hm.size_insert_at hm.size_remove_at

lemma hinvar_Nil [simp]: "hinvar []"
  by (simp add: hinvar_def)

lemma hinvar_hretain: "hinvar m \<Longrightarrow> hinvar (hretain P m)"
  by (induction m) (auto simp: hinvar_def hretain_def)

lemma hget_hretain:
  "hinvar m \<Longrightarrow> hget (hretain P m) k =
     (case hget m k of Some v \<Rightarrow> if P k v then Some v else None | None \<Rightarrow> None)"
  by (induction m)
    (auto simp: hinvar_def hretain_def split: option.splits dest: map_of_SomeD, force)

lemma hget_mem: "hinvar m \<Longrightarrow> hget m k = Some v \<longleftrightarrow> (k, v) \<in> set m"
  by (simp add: hinvar_def)

section \<open>Bounded caches\<close>

text \<open>
  The contract of the two decision caches: storing an entry makes it the key's entry, may drop
  others but never changes one, and keeps the number of entries within the bound.
\<close>

locale bounded_cache =
  fixes get :: "'c \<Rightarrow> 'k \<Rightarrow> 'v option"
    and put :: "'k \<Rightarrow> 'v \<Rightarrow> 'c \<Rightarrow> 'c"
    and size_of :: "'c \<Rightarrow> nat"
    and bound :: "'c \<Rightarrow> nat"
    and invar :: "'c \<Rightarrow> bool"
  assumes put_get: "invar c \<Longrightarrow> get (put k v c) k = Some v"
    and put_other: "invar c \<Longrightarrow> k' \<noteq> k \<Longrightarrow> get (put k v c) k' = get c k' \<or> get (put k v c) k' = None"
    and put_invar: "invar c \<Longrightarrow> invar (put k v c)"
    and put_bound: "bound (put k v c) = bound c"
    and invar_size: "invar c \<Longrightarrow> size_of c \<le> bound c"
begin

lemma puts_invar:
  "invar c \<Longrightarrow> invar (foldl (\<lambda>c (k, v). put k v c) c kvs) \<and>
     size_of (foldl (\<lambda>c (k, v). put k v c) c kvs) \<le> bound c"
proof (induction kvs arbitrary: c)
  case (Cons kv kvs)
  obtain k v where kv: "kv = (k, v)" by fastforce
  show ?case
    using Cons.IH [OF put_invar [OF Cons.prems, of k v]] by (simp add: kv put_bound)
qed (simp add: invar_size)

lemma put_source: "invar c \<Longrightarrow> get (put k v c) k' = Some w \<Longrightarrow> k' = k \<and> w = v \<or> get c k' = Some w"
  using put_get [of c k v] put_other [of c k' k v] by (cases "k' = k") auto

end

section \<open>Step relations\<close>

text \<open>
  The reachable states of a step relation, and the rule that lifts an invariant from the
  initial states and the single steps to all of them.
\<close>

inductive reachable :: "('s \<Rightarrow> bool) \<Rightarrow> ('s \<Rightarrow> 's \<Rightarrow> bool) \<Rightarrow> 's \<Rightarrow> bool"
  for init step where
  reach_init: "init s \<Longrightarrow> reachable init step s"
| reach_step: "reachable init step s \<Longrightarrow> step s t \<Longrightarrow> reachable init step t"

locale inductive_invariant =
  fixes init :: "'s \<Rightarrow> bool" and step :: "'s \<Rightarrow> 's \<Rightarrow> bool" and inv :: "'s \<Rightarrow> bool"
  assumes inv_init: "init s \<Longrightarrow> inv s"
    and inv_step: "inv s \<Longrightarrow> step s t \<Longrightarrow> inv t"
begin

lemma reachable_inv: "reachable init step s \<Longrightarrow> inv s"
  by (induction rule: reachable.induct) (auto intro: inv_init inv_step)

end

end
