(* ===== verification/Http.thy ===== *)
theory Http
  imports Prelude
begin

text \<open>
  The data the load balancer takes from the HTTP, URL and JSON libraries it is built on
  (axum/http, reqwest, serde_json), and the externals record. The types are the libraries'
  documented data; none of their algorithms is modelled. What the code calls there (URL and
  URI parsing, JSON parsing and printing, SHA-256, the shared \<^verbatim>\<open>fiducia-routing\<close> and
  \<^verbatim>\<open>fiducia-interfaces\<close> crates) is a field of the record \<open>externals\<close>, which the definitions
  that use it take as their first argument.
\<close>

section \<open>Methods, header maps, URIs\<close>

datatype http_method = GET | HEAD | OPTIONS | POST | PUT | PATCH | DELETE | CONNECT | TRACE
  | Extension string

fun method_str :: "http_method \<Rightarrow> string" where
  "method_str GET = ''GET''"
| "method_str HEAD = ''HEAD''"
| "method_str OPTIONS = ''OPTIONS''"
| "method_str POST = ''POST''"
| "method_str PUT = ''PUT''"
| "method_str PATCH = ''PATCH''"
| "method_str DELETE = ''DELETE''"
| "method_str CONNECT = ''CONNECT''"
| "method_str TRACE = ''TRACE''"
| "method_str (Extension s) = s"

text \<open>
  A \<^verbatim>\<open>HeaderMap\<close>: header names (lower case, as the library keeps them) with their values, in
  order; a name may occur several times. A value is a byte string; \<open>header_to_str\<close> is
  \<^verbatim>\<open>HeaderValue::to_str\<close>, which accepts visible ASCII and the tab.
\<close>

type_synonym header_map = "(string \<times> string) list"

definition header_get :: "header_map \<Rightarrow> string \<Rightarrow> string option" where
  "header_get h name = map_of h name"

definition header_get_all :: "header_map \<Rightarrow> string \<Rightarrow> string list" where
  "header_get_all h name = map snd (filter (\<lambda>(n, _). n = name) h)"

definition header_insert :: "string \<Rightarrow> string \<Rightarrow> header_map \<Rightarrow> header_map" where
  "header_insert name v h = filter (\<lambda>(n, _). n \<noteq> name) h @ [(name, v)]"

definition header_append :: "string \<Rightarrow> string \<Rightarrow> header_map \<Rightarrow> header_map" where
  "header_append name v h = h @ [(name, v)]"

definition header_to_str :: "string \<Rightarrow> string option" where
  "header_to_str v =
     (if list_all (\<lambda>c. 32 \<le> code_of c \<and> code_of c < 127 \<or> code_of c = 9) v then Some v else None)"

lemma header_get_insert:
  "header_get (header_insert n v h) m = (if m = n then Some v else header_get h m)"
  by (induction h) (auto simp: header_get_def header_insert_def)

lemma header_get_append:
  "header_get (header_append n v h) m =
     (case header_get h m of None \<Rightarrow> if m = n then Some v else None | Some w \<Rightarrow> Some w)"
  by (induction h) (auto simp: header_get_def header_append_def split: option.splits)

lemma header_get_in: "header_get h n = Some v \<Longrightarrow> (n, v) \<in> set h"
  by (simp add: header_get_def map_of_SomeD)

text \<open>
  A \<^verbatim>\<open>Uri\<close>: scheme and authority when it is absolute, and the path with its query (absent in
  authority form only).
\<close>

record uri =
  uri_scheme :: "string option"
  uri_authority :: "string option"
  uri_pq :: "(string \<times> string option) option"

definition uri_path :: "uri \<Rightarrow> string" where
  "uri_path u = (case uri_pq u of Some (p, _) \<Rightarrow> p | None \<Rightarrow> [])"

definition uri_query :: "uri \<Rightarrow> string option" where
  "uri_query u = (case uri_pq u of Some (_, q) \<Rightarrow> q | None \<Rightarrow> None)"

definition uri_path_and_query :: "uri \<Rightarrow> string option" where
  "uri_path_and_query u =
     (case uri_pq u of None \<Rightarrow> None
      | Some (p, None) \<Rightarrow> Some p
      | Some (p, Some q) \<Rightarrow> Some (p @ ''?'' @ q))"

text \<open>The origin-form URI of a request for a path and an optional query.\<close>

definition origin_uri :: "string \<Rightarrow> string option \<Rightarrow> uri" where
  "origin_uri p q = \<lparr>uri_scheme = None, uri_authority = None, uri_pq = Some (p, q)\<rparr>"

lemma origin_uri_simps [simp]:
  "uri_path (origin_uri p q) = p" "uri_query (origin_uri p q) = q"
  by (simp_all add: origin_uri_def uri_path_def uri_query_def)

text \<open>A parsed \<^verbatim>\<open>reqwest::Url\<close>, with its serialisation.\<close>

record url =
  url_scheme :: string
  url_host :: "string option"
  url_username :: string
  url_password :: "string option"
  url_path :: string
  url_query :: "string option"
  url_fragment :: "string option"
  url_str :: string

section \<open>JSON values\<close>

text \<open>
  \<^verbatim>\<open>serde_json::Value\<close>. A number is either an unsigned 64-bit integer or another number,
  kept as its text; an object's keys are distinct.
\<close>

datatype json = JNull | JBool bool | JUint u64 | JNumber string | JString string
  | JArray "json list" | JObject "(string \<times> json) list"

fun jget :: "string \<Rightarrow> json \<Rightarrow> json option" where
  "jget f (JObject fs) = map_of fs f"
| "jget f _ = None"

fun as_str :: "json \<Rightarrow> string option" where
  "as_str (JString s) = Some s"
| "as_str _ = None"

fun as_bool :: "json \<Rightarrow> bool option" where
  "as_bool (JBool b) = Some b"
| "as_bool _ = None"

fun as_u64 :: "json \<Rightarrow> u64 option" where
  "as_u64 (JUint n) = Some n"
| "as_u64 _ = None"

section \<open>Responses\<close>

text \<open>
  A response body is buffered bytes, a JSON value the handler returned (\<^verbatim>\<open>Json(..)\<close>), or an
  event stream that is passed through: its chunks, \<^const>\<open>None\<close> where the upstream fails.
\<close>

datatype body = BodyBytes bytes | BodyJson json | BodyStream "bytes option list"

record response =
  resp_status :: nat
  resp_headers :: header_map
  resp_body :: body

definition json_response :: "nat \<Rightarrow> json \<Rightarrow> response" where
  "json_response st j =
     \<lparr>resp_status = st, resp_headers = [(''content-type'', ''application/json'')],
      resp_body = BodyJson j\<rparr>"

text \<open>The body \<^verbatim>\<open>{"error": .., "detail": ..}\<close> most error responses have.\<close>

definition error_response :: "nat \<Rightarrow> string \<Rightarrow> string \<Rightarrow> response" where
  "error_response st err detail =
     json_response st (JObject [(''error'', JString err), (''detail'', JString detail)])"

definition is_success :: "nat \<Rightarrow> bool" where
  "is_success st \<longleftrightarrow> 200 \<le> st \<and> st < 300"

definition is_server_error :: "nat \<Rightarrow> bool" where
  "is_server_error st \<longleftrightarrow> 500 \<le> st \<and> st < 600"

lemma error_response_status [simp]: "resp_status (error_response st e d) = st"
  by (simp add: error_response_def json_response_def)

lemma json_response_status [simp]: "resp_status (json_response st j) = st"
  by (simp add: json_response_def)

section \<open>Externals\<close>

text \<open>
  \<^verbatim>\<open>fiducia_interfaces::ProposeError\<close>, as far as the load balancer reads it.
\<close>

datatype propose_error_reason = ReasonNotLeader | ReasonUnavailable

record propose_error =
  pe_reason :: propose_error_reason
  pe_leader :: "string option"

record externals =
  x_shard_for :: "string \<Rightarrow> u32 \<Rightarrow> u32"
  x_org_scoped_key :: "string \<Rightarrow> string \<Rightarrow> string"
  x_lock_key :: string
  x_service_key :: string
  x_url_parse :: "string \<Rightarrow> url option"
  x_uri_parse :: "string \<Rightarrow> uri option"
  x_json_parse :: "bytes \<Rightarrow> json option"
  x_json_print :: "json \<Rightarrow> bytes"
  x_propose_error :: "json \<Rightarrow> propose_error option"
  x_sha256 :: "bytes \<Rightarrow> bytes"

section \<open>A concrete instance, for the witnesses\<close>

text \<open>
  Simple functions of the right shape, at which the witness theorems evaluate the model:
  URLs of the form scheme, host, path; a hash that counts; the scoping format that
  \<^verbatim>\<open>routing.rs\<close> documents.
\<close>

definition sample_url :: "string \<Rightarrow> string \<Rightarrow> url option" where
  "sample_url scheme rest =
     (let h = takeWhile (\<lambda>c. c \<noteq> CHR ''/'') rest; p = dropWhile (\<lambda>c. c \<noteq> CHR ''/'') rest;
          p = (if p = [] then ''/'' else p)
      in if h = [] \<or> CHR ''@'' \<in> set h \<or> CHR ''?'' \<in> set rest \<or> CHR ''#'' \<in> set rest then None
         else Some \<lparr>url_scheme = scheme, url_host = Some h, url_username = [], url_password = None,
           url_path = p, url_query = None, url_fragment = None, url_str = scheme @ ''://'' @ h @ p\<rparr>)"

definition sample_url_parse :: "string \<Rightarrow> url option" where
  "sample_url_parse s =
     (if starts_with s ''http://'' then sample_url ''http'' (drop 7 s)
      else if starts_with s ''https://'' then sample_url ''https'' (drop 8 s) else None)"

definition sample_externals :: externals where
  "sample_externals =
     \<lparr>x_shard_for = (\<lambda>key n. of_nat (length key) mod n),
      x_org_scoped_key = (\<lambda>org key. CHR 0x01 # org @ CHR 0x01 # key),
      x_lock_key = ''lock-coordination'', x_service_key = ''service-discovery'',
      x_url_parse = sample_url_parse, x_uri_parse = (\<lambda>_. None),
      x_json_parse = (\<lambda>_. None), x_json_print = (\<lambda>_. []), x_propose_error = (\<lambda>_. None),
      x_sha256 = (\<lambda>bs. bs)\<rparr>"

end
