(* ===== verification/Routing.thy ===== *)
theory Routing
  imports Http
begin

text \<open>
  \<^verbatim>\<open>src/src/routing.rs\<close>: from a request to its routing key. The path segments, the query
  and JSON-body parameters, percent decoding in its form and its path variant, and the two
  extraction functions with the caller's organisation scope. The hash (\<^verbatim>\<open>shard_for\<close>), the
  scoping function and the two coordinator keys belong to the shared \<^verbatim>\<open>fiducia-routing\<close>
  crate and are externals.
\<close>

section \<open>Definitions\<close>

text \<open>The non-empty segments of the path, after trimming slashes at both ends.\<close>

definition path_segs :: "uri \<Rightarrow> string list" where
  "path_segs u = filter (\<lambda>s. s \<noteq> []) (split_on CHR ''/'' (trim_matches CHR ''/'' (uri_path u)))"

text \<open>A slice pattern \<^verbatim>\<open>[p1, .., pn, ..]\<close>: the segments start with the given ones.\<close>

definition segs_start :: "string list \<Rightarrow> string list \<Rightarrow> bool" where
  "segs_start segs ps \<longleftrightarrow> take (length ps) segs = ps"

fun percent_decode_bytes :: "bool \<Rightarrow> string \<Rightarrow> string" where
  "percent_decode_bytes plus_as_space [] = []"
| "percent_decode_bytes plus_as_space (b # bs) =
     (if b = CHR ''+'' \<and> plus_as_space then CHR '' '' # percent_decode_bytes plus_as_space bs
      else if b = CHR ''%'' \<and> 2 \<le> length bs then
        (case (to_digit16 (bs ! 0), to_digit16 (bs ! 1)) of
           (Some h, Some l) \<Rightarrow> char_of (h * 16 + l) # percent_decode_bytes plus_as_space (drop 2 bs)
         | _ \<Rightarrow> b # percent_decode_bytes plus_as_space bs)
      else b # percent_decode_bytes plus_as_space bs)"

definition percent_decode :: "string \<Rightarrow> bool \<Rightarrow> string" where
  "percent_decode s plus_as_space =
     from_utf8_lossy (as_bytes (percent_decode_bytes plus_as_space s))"

definition percent_decode_query :: "string \<Rightarrow> string" where
  "percent_decode_query s = percent_decode s True"

definition percent_decode_path :: "string \<Rightarrow> string" where
  "percent_decode_path s = percent_decode s False"

definition query_param :: "uri \<Rightarrow> string \<Rightarrow> string option" where
  "query_param u name =
     (case uri_query u of None \<Rightarrow> None
      | Some q \<Rightarrow> find_map (\<lambda>pair. case split_once CHR ''='' pair of
            None \<Rightarrow> None
          | Some (k, v) \<Rightarrow> if k = name then Some (percent_decode_query v) else None)
          (split_on CHR ''&'' q))"

definition json_body_field :: "externals \<Rightarrow> bytes \<Rightarrow> string \<Rightarrow> string option" where
  "json_body_field x body field =
     Option.bind (x_json_parse x body) (\<lambda>v. Option.bind (jget field v) as_str)"

definition scoped :: "externals \<Rightarrow> string option \<Rightarrow> string \<Rightarrow> string" where
  "scoped x org key = (case org of Some o' \<Rightarrow> x_org_scoped_key x o' key | None \<Rightarrow> key)"

text \<open>The families whose inspection carries \<^verbatim>\<open>?name=\<close> and whose writes carry \<^verbatim>\<open>name\<close>.\<close>

definition name_keyed :: "string list" where
  "name_keyed = [''barriers'', ''tasks'', ''effects'', ''handoffs'', ''decisions'', ''budgets'',
     ''claims'']"

definition routing_key :: "externals \<Rightarrow> uri \<Rightarrow> string option \<Rightarrow> string option" where
  "routing_key x u org =
     (let segs = path_segs u in
      if segs = [''v1'', ''kv''] then map_option (scoped x org) (query_param u ''key'')
      else if segs_start segs [''v1'', ''locks''] \<or> segs_start segs [''v1'', ''semaphores'']
        then Some (x_lock_key x)
      else if segs = [''v1'', ''idempotency'']
        then map_option (scoped x org) (query_param u ''key'')
      else if (segs_start segs [''v1'', ''rate-limit''] \<or> segs_start segs [''v1'', ''ratelimit''])
          \<and> 4 \<le> length segs
        then Some (scoped x org (percent_decode_path (segs ! 3)))
      else if segs_start segs [''v1'', ''cron'', ''schedules''] \<and> 4 \<le> length segs
        then Some (scoped x org (percent_decode_path (segs ! 3)))
      else if segs_start segs [''v1'', ''elections''] \<and> 3 \<le> length segs
        then Some (scoped x org (percent_decode_path (segs ! 2)))
      else if segs_start segs [''v1'', ''services''] then Some (x_service_key x)
      else if segs = [''v1'', ''counters'']
        then map_option (scoped x org) (query_param u ''key'')
      else if length segs = 2 \<and> segs ! 0 = ''v1'' \<and> segs ! 1 \<in> set name_keyed
        then map_option (scoped x org) (query_param u ''name'')
      else None)"

definition routing_key_with_body ::
    "externals \<Rightarrow> uri \<Rightarrow> bytes \<Rightarrow> string option \<Rightarrow> string option" where
  "routing_key_with_body x u body org =
     (case routing_key x u org of Some k \<Rightarrow> Some k
      | None \<Rightarrow>
        (let segs = path_segs u in
         if segs = [''v1'', ''idempotency'', ''claim''] \<or> segs = [''v1'', ''idempotency'', ''complete'']
           then map_option (scoped x org) (json_body_field x body ''key'')
         else if segs_start segs [''v1'', ''counters''] \<and> length segs = 3
           then map_option (scoped x org) (json_body_field x body ''key'')
         else if length segs = 3 \<and> segs ! 0 = ''v1'' \<and> segs ! 1 \<in> set name_keyed
           then map_option (scoped x org) (json_body_field x body ''name'')
         else None))"

definition shard_for_request :: "externals \<Rightarrow> uri \<Rightarrow> u32 \<Rightarrow> u32 option" where
  "shard_for_request x u shard_count =
     map_option (\<lambda>key. x_shard_for x key shard_count) (routing_key x u None)"

text \<open>
  Reference definitions for the statements below: the RFC 3986 percent encoding of a byte
  string (every byte outside the unreserved set is escaped), and the requests that go to a
  coordinator shard.
\<close>

definition unreserved :: "char \<Rightarrow> bool" where
  "unreserved c \<longleftrightarrow>
     65 \<le> code_of c \<and> code_of c \<le> 90 \<or> 97 \<le> code_of c \<and> code_of c \<le> 122 \<or>
     48 \<le> code_of c \<and> code_of c \<le> 57 \<or> c \<in> set ''-._~''"

fun percent_encode :: "string \<Rightarrow> string" where
  "percent_encode [] = []"
| "percent_encode (c # s) =
     (if unreserved c then c # percent_encode s
      else CHR ''%'' # from_digit16 (code_of c div 16) # from_digit16 (code_of c mod 16)
        # percent_encode s)"

definition coordinated :: "uri \<Rightarrow> bool" where
  "coordinated u \<longleftrightarrow>
     segs_start (path_segs u) [''v1'', ''locks''] \<or>
     segs_start (path_segs u) [''v1'', ''semaphores''] \<or>
     segs_start (path_segs u) [''v1'', ''services'']"

section \<open>Segments\<close>

lemma split_on_dropWhile:
  "filter (\<lambda>s. s \<noteq> []) (split_on d (dropWhile (\<lambda>c. c = d) s)) = filter (\<lambda>s. s \<noteq> []) (split_on d s)"
  by (induction s) auto

lemma split_on_snoc_delim: "split_on d (s @ [d]) = split_on d s @ [[]]"
  by (induction s) (auto split: list.splits)

lemma split_on_trim_end:
  "filter (\<lambda>s. s \<noteq> []) (split_on d (trim_end_matches d s)) = filter (\<lambda>s. s \<noteq> []) (split_on d s)"
proof (induction s rule: rev_induct)
  case (snoc c s)
  then show ?case by (cases "c = d") (simp_all add: trim_end_matches_def split_on_snoc_delim)
qed (simp add: trim_end_matches_def)

text \<open>Trimming the slashes does not matter once the empty segments are dropped.\<close>

lemma path_segs_eq:
  "path_segs u = filter (\<lambda>s. s \<noteq> []) (split_on CHR ''/'' (uri_path u))"
  by (simp add: path_segs_def trim_matches_def split_on_trim_end split_on_dropWhile)

lemma path_segs_origin [simp]:
  "path_segs (origin_uri p q) = filter (\<lambda>s. s \<noteq> []) (split_on CHR ''/'' p)"
  by (simp add: path_segs_eq)

section \<open>Percent decoding\<close>

lemma unreserved_not_special: "unreserved c \<Longrightarrow> c \<noteq> CHR ''+'' \<and> c \<noteq> CHR ''%''"
  by (auto simp: unreserved_def)

lemma nibbles_of_char: "char_of (code_of c div 16 * 16 + code_of c mod 16) = c"
  by (simp only: div_mult_mod_eq char_of_char)

lemma from_digit16_to_digit16:
  "to_digit16 (from_digit16 (code_of c div 16)) = Some (code_of c div 16)"
  "to_digit16 (from_digit16 (code_of c mod 16)) = Some (code_of c mod 16)"
  using nat_of_char_less_256 [of c] by (simp_all add: less_mult_imp_div_less)

lemma percent_decode_bytes_encode: "percent_decode_bytes p (percent_encode s) = s"
proof (induction s)
  case (Cons c s)
  then show ?case
    using unreserved_not_special [of c]
    by (simp add: from_digit16_to_digit16 nibbles_of_char)
qed simp

lemma percent_decode_no_escape:
  "CHR ''%'' \<notin> set s \<Longrightarrow> percent_decode_bytes False s = s"
  by (induction s) auto

lemma percent_decode_modes_agree:
  "CHR ''+'' \<notin> set s \<Longrightarrow> percent_decode_bytes True s = percent_decode_bytes False s"
proof (induction s rule: length_induct)
  case (1 s)
  show ?case
  proof (cases s)
    case (Cons b bs)
    have "percent_decode_bytes True bs = percent_decode_bytes False bs"
      using 1 Cons by auto
    moreover have "length (drop 2 bs) < length s" and "CHR ''+'' \<notin> set (drop 2 bs)"
      using 1(2) Cons by (auto dest: in_set_dropD)
    then have "percent_decode_bytes True (drop 2 bs) = percent_decode_bytes False (drop 2 bs)"
      using 1(1) by blast
    ultimately show ?thesis
      using Cons 1(2) by (auto split: option.splits)
  qed simp
qed

lemma percent_encode_chars:
  "c \<in> set (percent_encode s) \<Longrightarrow> unreserved c \<or> c = CHR ''%''"
proof (induction s)
  case (Cons a s)
  have "unreserved (from_digit16 n)" if "n < 16" for n
    using that by (auto simp: unreserved_def from_digit16_def)
  with Cons show ?case
    using nat_of_char_less_256 [of a] by (auto split: if_splits simp: less_mult_imp_div_less)
qed simp

lemma percent_encode_free:
  "\<not> unreserved d \<Longrightarrow> d \<noteq> CHR ''%'' \<Longrightarrow> d \<notin> set (percent_encode s)"
  using percent_encode_chars by blast

lemma percent_encode_delims [simp]:
  "CHR ''/'' \<notin> set (percent_encode s)" "CHR ''&'' \<notin> set (percent_encode s)"
  "CHR ''='' \<notin> set (percent_encode s)"
  by (simp_all add: percent_encode_free unreserved_def)

lemma percent_encode_Nil_iff [simp]: "percent_encode s = [] \<longleftrightarrow> s = []"
  by (cases s) auto

lemma percent_decode_encode: "valid_utf8 s \<Longrightarrow> percent_decode (percent_encode s) p = s"
  by (simp add: percent_decode_def percent_decode_bytes_encode from_utf8_lossy_valid)

section \<open>Parameters\<close>

lemma split_once_at: "d \<notin> set k \<Longrightarrow> split_once d (k @ d # v) = Some (k, v)"
proof -
  assume "d \<notin> set k"
  then have "takeWhile (\<lambda>c. c \<noteq> d) (k @ d # v) = k"
    by (induction k) auto
  then show ?thesis by (simp add: split_once_def Let_def)
qed

text \<open>A parameter that is the whole query.\<close>

lemma query_param_encoded:
  assumes "valid_utf8 k" and "CHR ''='' \<notin> set name" and "CHR ''&'' \<notin> set name"
  shows "query_param (origin_uri p (Some (name @ CHR ''='' # percent_encode k))) name = Some k"
  using assms
  by (simp add: query_param_def split_on_free split_once_at percent_decode_query_def
      percent_decode_encode)

lemma split_on_Cons_delim: "split_on d (d # s) = [] # split_on d s"
  by simp

lemma coordinated_cases:
  "coordinated u \<longleftrightarrow> (\<exists>rest. path_segs u = ''v1'' # ''locks'' # rest \<or>
     path_segs u = ''v1'' # ''semaphores'' # rest \<or> path_segs u = ''v1'' # ''services'' # rest)"
  by (rule four_bytes_cases [of "path_segs u"]) (auto simp: coordinated_def segs_start_def)

lemma routing_key_coordinated:
  "coordinated u \<Longrightarrow> routing_key x u org =
     Some (if segs_start (path_segs u) [''v1'', ''services''] then x_service_key x else x_lock_key x)"
  unfolding coordinated_cases
  by (elim exE disjE) (simp_all add: routing_key_def Let_def segs_start_def)

lemma scoped_Some [simp]: "scoped x (Some org) = x_org_scoped_key x org"
  by (simp add: fun_eq_iff scoped_def)

lemma scoped_None [simp]: "scoped x None = (\<lambda>key. key)"
  by (simp add: fun_eq_iff scoped_def)

lemma map_option_if: "map_option f (if b then p else q) = (if b then map_option f p else map_option f q)"
  by simp

lemma routing_key_scoping:
  "\<not> coordinated u \<Longrightarrow>
     routing_key x u (Some org) = map_option (x_org_scoped_key x org) (routing_key x u None)"
  unfolding routing_key_def Let_def coordinated_def
  by (simp add: map_option_if option.map_ident cong: if_cong split del: if_split)

lemma coordinated_with_body:
  "coordinated u \<Longrightarrow> routing_key_with_body x u body org =
     Some (if segs_start (path_segs u) [''v1'', ''services''] then x_service_key x else x_lock_key x)"
  by (simp add: routing_key_with_body_def routing_key_coordinated)

text \<open>The key of a path-addressed request whose name is one encoded segment.\<close>

lemma path_segs_election:
  assumes "name \<noteq> []"
  shows "path_segs (origin_uri (''/v1/elections/'' @ percent_encode name @ ''/campaign'') q) =
    [''v1'', ''elections'', percent_encode name, ''campaign'']"
  using assms by (simp add: split_on_append)

text \<open>The routing key of each addressed family, by the shape of the path.\<close>

lemma routing_key_kv:
  "path_segs u = [''v1'', ''kv''] \<Longrightarrow>
     routing_key_with_body x u b org = map_option (scoped x org) (query_param u ''key'')"
  by (cases "query_param u ''key''")
    (simp_all add: routing_key_with_body_def routing_key_def Let_def segs_start_def)

lemma routing_key_idempotency:
  "path_segs u = [''v1'', ''idempotency''] \<Longrightarrow>
     routing_key_with_body x u b org = map_option (scoped x org) (query_param u ''key'')"
  by (cases "query_param u ''key''")
    (simp_all add: routing_key_with_body_def routing_key_def Let_def segs_start_def)

lemma routing_key_idempotency_write:
  "path_segs u = [''v1'', ''idempotency'', op] \<Longrightarrow>
     routing_key_with_body x u b org =
       (if op = ''claim'' \<or> op = ''complete''
        then map_option (scoped x org) (json_body_field x b ''key'') else None)"
  by (simp add: routing_key_with_body_def routing_key_def Let_def segs_start_def name_keyed_def)

lemma routing_key_election:
  "path_segs u = ''v1'' # ''elections'' # name # rest \<Longrightarrow>
     routing_key_with_body x u b org = Some (scoped x org (percent_decode_path name))"
  by (simp add: routing_key_with_body_def routing_key_def Let_def segs_start_def)

section \<open>Properties\<close>

text \<open>
  C31: percent decoding, in the form variant of query values and in the path variant, undoes
  percent encoding of any string: the load balancer reads back exactly the key the client
  encoded, so it hashes the key the node hashes.
\<close>

theorem percent_decode_roundtrip:
  assumes "valid_utf8 s"
  shows "percent_decode_query (percent_encode s) = s \<and> percent_decode_path (percent_encode s) = s"
  using assms by (simp add: percent_decode_query_def percent_decode_path_def percent_decode_encode)

theorem percent_decode_roundtrip_witness:
  "percent_decode_query (percent_encode ''a+b/c'') = ''a+b/c'' \<and>
   percent_decode_path (percent_encode ''a+b/c'') = ''a+b/c''"
  by (rule percent_decode_roundtrip) (simp add: is_ascii_valid_utf8 is_ascii_def)

text \<open>
  C33: the organisation scope enters the routing key in one way only. For a request that is
  not coordinated, the key under an organisation is the scoped form of the key without one,
  whether it comes from the URI or from the JSON body; coordinated requests (locks,
  semaphores, services) have a key that ignores the organisation.
\<close>

theorem routing_key_org_scope:
  "routing_key_with_body x u body (Some org) =
     (if coordinated u then routing_key_with_body x u body None
      else map_option (x_org_scoped_key x org) (routing_key_with_body x u body None))"
proof (cases "coordinated u")
  case True
  then show ?thesis by (simp add: routing_key_with_body_def routing_key_coordinated)
next
  case False
  then show ?thesis
    by (cases "routing_key x u None")
      (simp_all add: routing_key_with_body_def routing_key_scoping Let_def map_option_if
        option.map_ident cong: if_cong split del: if_split)
qed

text \<open>
  Requests on locks and semaphores always have the lock coordination key, requests on
  services the registry key, whatever the caller's organisation, the query and the body:
  every composite lock meets the single-key locks it may conflict with on one shard.
\<close>

lemma coordinated_routing_key:
  assumes "path_segs u = ''v1'' # family # rest"
    and "family \<in> {''locks'', ''semaphores'', ''services''}"
  shows "routing_key_with_body x u body org =
    Some (if family = ''services'' then x_service_key x else x_lock_key x)"
proof -
  from assms have "coordinated u" by (auto simp: coordinated_def segs_start_def)
  then show ?thesis using assms(1) by (simp add: coordinated_with_body segs_start_def)
qed

text \<open>
  Two organisations never share a routing key, unless the request is coordinated: where
  the shared crate's scoping function separates the two organisations, the keys of any one
  request under them differ.
\<close>

lemma routing_key_org_isolation:
  assumes "\<not> coordinated u"
    and "routing_key_with_body x u body (Some org1) = Some k1"
    and "routing_key_with_body x u body (Some org2) = Some k2"
    and "\<And>a b. x_org_scoped_key x org1 a \<noteq> x_org_scoped_key x org2 b"
  shows "k1 \<noteq> k2"
  using assms by (auto simp: routing_key_org_scope)

text \<open>
  C34: the three spellings of a key agree. A key in the query (of the key-value and of the
  idempotency routes), the same key as an encoded path segment and the same key in the JSON
  body have one routing key under every organisation, the scoped key itself.
\<close>

theorem routing_key_spellings_agree:
  assumes "valid_utf8 k" and "k \<noteq> []" and "json_body_field x body ''key'' = Some k"
  shows "routing_key_with_body x (origin_uri ''/v1/kv'' (Some (''key='' @ percent_encode k))) b org =
       Some (scoped x org k) \<and>
     routing_key_with_body x (origin_uri ''/v1/idempotency'' (Some (''key='' @ percent_encode k))) b org =
       Some (scoped x org k) \<and>
     routing_key_with_body x (origin_uri ''/v1/idempotency/claim'' None) body org =
       Some (scoped x org k) \<and>
     routing_key_with_body x
       (origin_uri (''/v1/elections/'' @ percent_encode k @ ''/campaign'') None) b org =
       Some (scoped x org k)"
proof -
  have q: "query_param (origin_uri p (Some (''key='' @ percent_encode k))) ''key'' = Some k" for p
    using query_param_encoded [OF assms(1), of "''key''" p] by simp
  have e: "path_segs (origin_uri (''/v1/elections/'' @ percent_encode k @ ''/campaign'') None) =
      [''v1'', ''elections'', percent_encode k, ''campaign'']"
    by (rule path_segs_election [OF assms(2)])
  have p: "percent_decode_path (percent_encode k) = k"
    by (simp add: percent_decode_path_def percent_decode_encode [OF assms(1)])
  have "path_segs (origin_uri ''/v1/kv'' q) = [''v1'', ''kv'']"
    and "path_segs (origin_uri ''/v1/idempotency'' q) = [''v1'', ''idempotency'']"
    and "path_segs (origin_uri ''/v1/idempotency/claim'' q) = [''v1'', ''idempotency'', ''claim'']" for q
    by simp_all
  then show ?thesis
    by (simp only: routing_key_kv routing_key_idempotency routing_key_idempotency_write q assms(3)
        routing_key_election [OF e] p option.map simp_thms if_True)
qed

text \<open>The sample JSON parser of the witnesses: every body is one object with a key.\<close>

theorem routing_key_spellings_agree_witness:
  "routing_key_with_body (sample_externals\<lparr>x_json_parse := \<lambda>_. Some (JObject [(''key'', JString ''a b'')])\<rparr>)
     (origin_uri ''/v1/idempotency/claim'' None) [] (Some ''o'') = Some (CHR 0x01 # ''o'' @ CHR 0x01 # ''a b'')"
  using routing_key_spellings_agree [of "''a b''"
      "sample_externals\<lparr>x_json_parse := \<lambda>_. Some (JObject [(''key'', JString ''a b'')])\<rparr>" "[]" "[]"
      "Some ''o''"]
  by (simp add: json_body_field_def is_ascii_valid_utf8 is_ascii_def sample_externals_def
      del: path_segs_origin)

text \<open>
  The internal release call of the idempotency protocol, \<open>POST /v1/idempotency/abandon\<close>,
  has no routing key, although its JSON body names the key as \<open>claim\<close> and \<open>complete\<close> do:
  it is sent to any node and not to the leader of the key's shard.
\<close>

lemma abandon_has_no_routing_key:
  "routing_key_with_body x (origin_uri ''/v1/idempotency/abandon'' None) body org = None"
proof -
  have "path_segs (origin_uri ''/v1/idempotency/abandon'' None) = [''v1'', ''idempotency'', ''abandon'']"
    by simp
  from routing_key_idempotency_write [OF this] show ?thesis by simp
qed

end
