(* ===== verification/Route_Table.thy ===== *)
theory Route_Table
  imports Http "HOL-Library.Multiset"
begin

text \<open>
  \<^verbatim>\<open>src/src/table.rs\<close>: the shard-to-leader cache. The record \<open>route_table\<close> is the struct
  \<^verbatim>\<open>RouteTable\<close> with its \<^verbatim>\<open>Inner\<close>; each method is a function of the table as it is when the
  lock is taken, and returns the table as it is when the lock is released. An \<^verbatim>\<open>Instant\<close> is a
  natural number, the reading of the monotonic clock, passed to the operations that call
  \<^verbatim>\<open>Instant::now\<close>. The HTTP exchange of \<^verbatim>\<open>refresh_from_brain\<close> is its two answers.
\<close>

section \<open>State\<close>

type_synonym shard_id = u32
type_synonym instant = nat

record node_metadata =
  nm_cloud_provider :: string
  nm_region :: string
  nm_cluster_id :: string

record route_table =
  rt_shard_count :: u32
  rt_nodes :: "string list"
  rt_node_metadata :: "(string, node_metadata) hmap"
  rt_leaders :: "(shard_id, string) hmap"
  rt_leader_hints :: "(shard_id, instant) hmap"
  rt_region_requests :: "(string, u64) hmap"
  rt_cursor :: usize

record brain_node =
  bn_node_id :: string
  bn_address :: string
  bn_health :: string
  bn_cloud_provider :: "string option"
  bn_region :: "string option"
  bn_cluster_id :: "string option"

record brain_shard =
  bs_shard_id :: shard_id
  bs_replicas :: "string list"
  bs_preferred_leader :: "string option"

section \<open>Operations\<close>

definition normalize_node_url :: "externals \<Rightarrow> string \<Rightarrow> string option" where
  "normalize_node_url x address =
     (let address = trim address in
      if address = [] then None
      else let candidate =
          (if starts_with address ''http://'' \<or> starts_with address ''https://'' then address
           else ''http://'' @ address)
        in case x_url_parse x candidate of None \<Rightarrow> None
        | Some parsed \<Rightarrow>
            if url_scheme parsed \<notin> {''http'', ''https''} \<or> url_host parsed = None
              \<or> url_username parsed \<noteq> [] \<or> url_password parsed \<noteq> None
              \<or> url_query parsed \<noteq> None \<or> url_fragment parsed \<noteq> None
              \<or> url_path parsed \<noteq> ''/''
            then None
            else Some (trim_end_matches CHR ''/'' (url_str parsed)))"

text \<open>The seed list, normalised; invalid nodes and repetitions are dropped.\<close>

fun seed_nodes :: "externals \<Rightarrow> string list \<Rightarrow> string list \<Rightarrow> string list" where
  "seed_nodes x seen [] = []"
| "seed_nodes x seen (node # ns) =
     (case normalize_node_url x node of
        None \<Rightarrow> seed_nodes x seen ns
      | Some u \<Rightarrow> if u \<in> set seen then seed_nodes x seen ns
          else u # seed_nodes x (u # seen) ns)"

definition round_robin_leaders :: "u32 \<Rightarrow> string list \<Rightarrow> (shard_id, string) hmap" where
  "round_robin_leaders n nodes =
     foldl (\<lambda>m s. hinsert (of_nat s) (nodes ! (s mod length nodes)) m) [] [0 ..< unat n]"

definition table_new :: "externals \<Rightarrow> u32 \<Rightarrow> string list \<Rightarrow> route_table" where
  "table_new x n seeds =
     (let nodes = seed_nodes x [] seeds in
      \<lparr>rt_shard_count = n, rt_nodes = nodes, rt_node_metadata = [],
       rt_leaders = (if nodes = [] then [] else round_robin_leaders n nodes),
       rt_leader_hints = [], rt_region_requests = [], rt_cursor = 0\<rparr>)"

definition is_hydrated :: "route_table \<Rightarrow> bool" where
  "is_hydrated t \<longleftrightarrow> rt_leaders t \<noteq> []"

definition leader_for :: "route_table \<Rightarrow> shard_id \<Rightarrow> string option" where
  "leader_for t s = hget (rt_leaders t) s"

text \<open>\<^verbatim>\<open>nodes.iter().find_map(..)\<close>: the known node with the given normal form.\<close>

definition known_node :: "externals \<Rightarrow> route_table \<Rightarrow> string \<Rightarrow> string option" where
  "known_node x t normalized =
     find_map (\<lambda>node. if normalize_node_url x node = Some normalized then Some node else None)
       (rt_nodes t)"

definition accept_leader_hint ::
    "externals \<Rightarrow> instant \<Rightarrow> shard_id \<Rightarrow> string \<Rightarrow> route_table \<Rightarrow> string option \<times> route_table" where
  "accept_leader_hint x now s node_url t =
     (case normalize_node_url x node_url of None \<Rightarrow> (None, t)
      | Some normalized \<Rightarrow>
          (case known_node x t normalized of None \<Rightarrow> (None, t)
           | Some known \<Rightarrow> (Some known,
               t\<lparr>rt_leaders := hinsert s known (rt_leaders t),
                 rt_leader_hints := hinsert s now (rt_leader_hints t)\<rparr>)))"

definition validate_node_hint :: "externals \<Rightarrow> string \<Rightarrow> route_table \<Rightarrow> string option" where
  "validate_node_hint x node_url t =
     (case normalize_node_url x node_url of None \<Rightarrow> None
      | Some normalized \<Rightarrow> known_node x t normalized)"

definition record_region_request :: "string \<Rightarrow> route_table \<Rightarrow> route_table" where
  "record_region_request node_url t =
     (let region = (case hget (rt_node_metadata t) node_url of
            Some m \<Rightarrow> if nm_region m = [] then ''unknown'' else nm_region m
          | None \<Rightarrow> ''unknown'');
          n = (case hget (rt_region_requests t) region of Some n \<Rightarrow> n | None \<Rightarrow> 0)
      in t\<lparr>rt_region_requests := hinsert region (n + 1) (rt_region_requests t)\<rparr>)"

fun any_node_loop :: "nat \<Rightarrow> string set \<Rightarrow> route_table \<Rightarrow> string option \<times> route_table" where
  "any_node_loop 0 excluded t = (None, t)"
| "any_node_loop (Suc k) excluded t =
     (let i = unat (rt_cursor t) mod length (rt_nodes t);
          t' = t\<lparr>rt_cursor := rt_cursor t + 1\<rparr>
      in if rt_nodes t ! i \<notin> excluded then (Some (rt_nodes t ! i), t')
         else any_node_loop k excluded t')"

definition any_node_excluding :: "string set \<Rightarrow> route_table \<Rightarrow> string option \<times> route_table" where
  "any_node_excluding excluded t =
     (if rt_nodes t = [] then (None, t)
      else any_node_loop (length (rt_nodes t)) excluded t)"

definition any_node :: "route_table \<Rightarrow> string option \<times> route_table" where
  "any_node t = any_node_excluding {} t"

text \<open>\<^verbatim>\<open>snapshot\<close>: the debug view, its maps listed in key order.\<close>

definition table_snapshot :: "route_table \<Rightarrow> json" where
  "table_snapshot t = JObject
     [(''shard_count'', JUint (ucast (rt_shard_count t))),
      (''nodes'', JArray (map JString (rt_nodes t))),
      (''node_metadata'', JArray (map (\<lambda>(u, m). JObject
         [(''url'', JString u), (''cloud_provider'', JString (nm_cloud_provider m)),
          (''region'', JString (nm_region m)), (''cluster_id'', JString (nm_cluster_id m))])
         (sort_key fst (rt_node_metadata t)))),
      (''leaders'', JArray (map (\<lambda>(s, n). JObject
         [(''shard'', JUint (ucast s)), (''leader'', JString n)])
         (sort_key fst (rt_leaders t)))),
      (''metrics'', JObject [(''region_requests'', JArray (map (\<lambda>(r, c). JObject
         [(''region'', JString r), (''requests'', JUint c)])
         (sort_key fst (rt_region_requests t))))])]"

subsection \<open>The brain refresh\<close>

text \<open>
  The first loop of \<^verbatim>\<open>apply_brain_snapshot_at\<close>: the healthy members by ID, and their metadata
  by URL. \<^const>\<open>None\<close> is the early return that rejects the snapshot.
\<close>

fun collect_nodes :: "externals \<Rightarrow> (string, string) hmap \<Rightarrow> (string, node_metadata) hmap \<Rightarrow>
    brain_node list \<Rightarrow> ((string, string) hmap \<times> (string, node_metadata) hmap) option" where
  "collect_nodes x ids meta [] = Some (ids, meta)"
| "collect_nodes x ids meta (node # ns) =
     (if \<not> eq_ignore_ascii_case (bn_health node) ''healthy'' then collect_nodes x ids meta ns
      else let node_id = trim (bn_node_id node) in
        if node_id = [] then None
        else case normalize_node_url x (bn_address node) of
          None \<Rightarrow> collect_nodes x ids meta ns
        | Some u \<Rightarrow>
            if hget ids node_id \<noteq> None then None
            else if hget meta u \<noteq> None then None
            else collect_nodes x (hinsert node_id u ids)
              (hinsert u \<lparr>nm_cloud_provider = (case bn_cloud_provider node of Some s \<Rightarrow> s | None \<Rightarrow> []),
                 nm_region = (case bn_region node of Some s \<Rightarrow> s | None \<Rightarrow> []),
                 nm_cluster_id = (case bn_cluster_id node of Some s \<Rightarrow> s | None \<Rightarrow> [])\<rparr> meta) ns)"

text \<open>The leader a placement names: the preferred one, else the first replica that is a member.\<close>

definition shard_target :: "(string, string) hmap \<Rightarrow> brain_shard \<Rightarrow> string option" where
  "shard_target ids sh =
     (case Option.bind (bs_preferred_leader sh) (hget ids) of Some u \<Rightarrow> Some u
      | None \<Rightarrow> find_map (hget ids) (bs_replicas sh))"

fun collect_leaders :: "u32 \<Rightarrow> (string, string) hmap \<Rightarrow> (shard_id, string) hmap \<Rightarrow>
    brain_shard list \<Rightarrow> (shard_id, string) hmap option" where
  "collect_leaders n ids leaders [] = Some leaders"
| "collect_leaders n ids leaders (sh # shs) =
     (if n \<le> bs_shard_id sh then None
      else case shard_target ids sh of
        None \<Rightarrow> None
      | Some u \<Rightarrow>
          if hget leaders (bs_shard_id sh) \<noteq> None then None
          else collect_leaders n ids (hinsert (bs_shard_id sh) u leaders) shs)"

text \<open>Redirect-learned leaders that are newer than the snapshot and still members are kept.\<close>

definition keep_hints :: "string list \<Rightarrow> (shard_id, string) hmap \<Rightarrow> (shard_id, instant) hmap \<Rightarrow>
    (shard_id, string) hmap \<Rightarrow> (shard_id, string) hmap" where
  "keep_hints nodes current hints leaders =
     foldl (\<lambda>m (s, hinted). case hget current s of
         Some c \<Rightarrow> if c \<in> set nodes then hinsert s c m else m
       | None \<Rightarrow> m) leaders hints"

definition apply_brain_snapshot_at :: "externals \<Rightarrow> brain_node list \<Rightarrow> brain_shard list \<Rightarrow>
    instant \<Rightarrow> route_table \<Rightarrow> nat \<times> route_table" where
  "apply_brain_snapshot_at x ns shards fetched_at t =
     (case collect_nodes x [] [] ns of None \<Rightarrow> (0, t)
      | Some (ids, meta) \<Rightarrow>
          if ids = [] then (0, t)
          else case collect_leaders (rt_shard_count t) ids [] shards of None \<Rightarrow> (0, t)
          | Some leaders \<Rightarrow>
              if length leaders \<noteq> unat (rt_shard_count t) then (0, t)
              else let nodes = sort (map snd ids);
                       applied = length leaders;
                       hints = hretain (\<lambda>_ learned_at. fetched_at \<le> learned_at) (rt_leader_hints t);
                       leaders' = keep_hints nodes (rt_leaders t) hints leaders
                in (applied, t\<lparr>rt_nodes := nodes, rt_node_metadata := meta,
                      rt_leaders := leaders', rt_leader_hints := hints\<rparr>))"

text \<open>An answer of the control plane: a failed exchange, an unparsable body, or the value.\<close>

datatype 'a fetched = FetchFailed | ParseFailed | Fetched 'a

definition refresh_from_brain :: "externals \<Rightarrow> instant \<Rightarrow> brain_node list fetched \<Rightarrow>
    brain_shard list fetched \<Rightarrow> route_table \<Rightarrow> route_table" where
  "refresh_from_brain x fetched_at nodes_answer placement_answer t =
     (case nodes_answer of
        FetchFailed \<Rightarrow> t
      | ParseFailed \<Rightarrow> t
      | Fetched ns \<Rightarrow>
          (case placement_answer of
             FetchFailed \<Rightarrow> t
           | ParseFailed \<Rightarrow> t
           | Fetched shards \<Rightarrow> snd (apply_brain_snapshot_at x ns shards fetched_at t)))"

definition duration_from_secs_value :: "string option \<Rightarrow> u64 \<Rightarrow> u64" where
  "duration_from_secs_value value default_secs =
     (case Option.bind value (\<lambda>raw. parse_unsigned 64 (trim raw)) of
        Some secs \<Rightarrow> if 0 < secs then of_nat secs else default_secs
      | None \<Rightarrow> default_secs)"

section \<open>Specification of a snapshot\<close>

text \<open>
  What a snapshot says, free of the order of the loops: the routable members, whether every
  healthy node has an ID, and when the snapshot may replace the table.
\<close>

definition healthy :: "brain_node \<Rightarrow> bool" where
  "healthy node \<longleftrightarrow> eq_ignore_ascii_case (bn_health node) ''healthy''"

definition member_of :: "externals \<Rightarrow> brain_node \<Rightarrow> (string \<times> string) option" where
  "member_of x node =
     (if healthy node
      then map_option (\<lambda>u. (trim (bn_node_id node), u)) (normalize_node_url x (bn_address node))
      else None)"

definition members :: "externals \<Rightarrow> brain_node list \<Rightarrow> (string \<times> string) list" where
  "members x ns = List.map_filter (member_of x) ns"

definition snapshot_ok :: "externals \<Rightarrow> u32 \<Rightarrow> brain_node list \<Rightarrow> brain_shard list \<Rightarrow> bool" where
  "snapshot_ok x n ns shards \<longleftrightarrow>
     (\<forall>node \<in> set ns. healthy node \<longrightarrow> trim (bn_node_id node) \<noteq> []) \<and>
     distinct (map fst (members x ns)) \<and> distinct (map snd (members x ns)) \<and>
     members x ns \<noteq> [] \<and>
     (\<forall>sh \<in> set shards. bs_shard_id sh < n \<and> shard_target (members x ns) sh \<noteq> None) \<and>
     distinct (map bs_shard_id shards) \<and> length shards = unat n"

text \<open>The leader an accepted snapshot names for a shard.\<close>

definition placed_leader :: "externals \<Rightarrow> brain_node list \<Rightarrow> brain_shard list \<Rightarrow> shard_id \<Rightarrow> string option" where
  "placed_leader x ns shards s =
     Option.bind (find (\<lambda>sh. bs_shard_id sh = s) shards) (shard_target (members x ns))"

section \<open>Lemmas on the operations\<close>

lemma normalize_node_url_origin:
  assumes "normalize_node_url x a = Some u"
  obtains p c where "x_url_parse x c = Some p" "url_scheme p \<in> {''http'', ''https''}"
    "url_host p \<noteq> None" "url_username p = []" "url_password p = None" "url_query p = None"
    "url_fragment p = None" "url_path p = ''/''" "u = trim_end_matches CHR ''/'' (url_str p)"
  using assms by (auto simp: normalize_node_url_def Let_def split: if_splits option.splits)

lemma known_node_Some:
  "known_node x t u = Some k \<Longrightarrow> k \<in> set (rt_nodes t) \<and> normalize_node_url x k = Some u"
  by (auto simp: known_node_def dest!: find_map_Some split: if_splits)

lemma validate_node_hint_member: "validate_node_hint x h t = Some k \<Longrightarrow> k \<in> set (rt_nodes t)"
  by (auto simp: validate_node_hint_def dest: known_node_Some split: option.splits)

lemma accept_leader_hint_eq:
  "accept_leader_hint x now s h t =
     (case validate_node_hint x h t of None \<Rightarrow> (None, t)
      | Some k \<Rightarrow> (Some k, t\<lparr>rt_leaders := hinsert s k (rt_leaders t),
          rt_leader_hints := hinsert s now (rt_leader_hints t)\<rparr>))"
  by (simp add: accept_leader_hint_def validate_node_hint_def split: option.split)

lemma seed_nodes_props:
  "distinct (seed_nodes x seen ns) \<and> set (seed_nodes x seen ns) \<inter> set seen = {} \<and>
   (\<forall>u \<in> set (seed_nodes x seen ns). \<exists>a \<in> set ns. normalize_node_url x a = Some u)"
  by (induction x seen ns rule: seed_nodes.induct) (auto split: option.split)

lemma round_robin_prefix:
  fixes n :: u32
  assumes "k \<le> unat n"
  shows "hinvar (foldl (\<lambda>m s. hinsert (of_nat s :: u32) (f s) m) [] [0 ..< k]) \<and>
    hget (foldl (\<lambda>m s. hinsert (of_nat s :: u32) (f s) m) [] [0 ..< k]) s =
      (if unat s < k then Some (f (unat s)) else None)"
  using assms
proof (induction k)
  case (Suc k)
  have "k < 2 ^ LENGTH(32)" using Suc.prems unsigned_less [of n, where 'a = nat] by linarith
  then have u: "unat (of_nat k :: u32) = k" by (simp add: unat_of_nat)
  then have "(of_nat k :: u32) = s \<longleftrightarrow> k = unat s"
    by (metis word_unat_eq_iff)
  with Suc u show ?case by (auto simp: hmap_simps)
qed simp

lemma round_robin_leaders:
  "hinvar (round_robin_leaders n nodes)"
  "hget (round_robin_leaders n nodes) s =
     (if s < n then Some (nodes ! (unat s mod length nodes)) else None)"
  using round_robin_prefix [of "unat n" n "\<lambda>s. nodes ! (s mod length nodes)" s]
  by (simp_all add: round_robin_leaders_def word_less_nat_alt)

lemma hinsert_fresh: "k \<notin> fst ` set m \<Longrightarrow> hinsert k v m = m @ [(k, v)]"
  by (induction m) (auto simp: hinsert_def)

lemma hget_None: "hget m k = None \<longleftrightarrow> k \<notin> fst ` set m"
  by (simp add: map_of_eq_None_iff)

lemma keep_hints_get:
  "hget (keep_hints nodes cur hints l) s =
     (if s \<in> dom (hget hints) \<and> (\<exists>c \<in> set nodes. hget cur s = Some c) then hget cur s else hget l s)"
  unfolding keep_hints_def
  by (induction hints arbitrary: l) (auto simp: hmap_simps split: option.split)

lemma keep_hints_hinvar: "hinvar l \<Longrightarrow> hinvar (keep_hints nodes cur hints l)"
  unfolding keep_hints_def
  by (induction hints arbitrary: l) (auto simp: hmap_simps split: option.split)

text \<open>The two loops of the snapshot, characterised by its members and its placements.\<close>

abbreviation metadata_of :: "brain_node \<Rightarrow> node_metadata" where
  "metadata_of node \<equiv>
     \<lparr>nm_cloud_provider = (case bn_cloud_provider node of Some s \<Rightarrow> s | None \<Rightarrow> []),
      nm_region = (case bn_region node of Some s \<Rightarrow> s | None \<Rightarrow> []),
      nm_cluster_id = (case bn_cluster_id node of Some s \<Rightarrow> s | None \<Rightarrow> [])\<rparr>"

lemma members_Nil [simp]: "members x [] = []"
  by (simp add: members_def map_filter_def)

lemma members_Cons [simp]:
  "members x (node # ns) = (case member_of x node of None \<Rightarrow> members x ns | Some m \<Rightarrow> m # members x ns)"
  by (simp add: members_def map_filter_def split: option.split)

definition member_meta :: "externals \<Rightarrow> brain_node list \<Rightarrow> (string \<times> node_metadata) list" where
  "member_meta x ns =
     List.map_filter (\<lambda>node. map_option (\<lambda>m. (snd m, metadata_of node)) (member_of x node)) ns"

lemma member_meta_simps [simp]:
  "member_meta x [] = []"
  "member_meta x (node # ns) =
     (case member_of x node of None \<Rightarrow> member_meta x ns
      | Some m \<Rightarrow> (snd m, metadata_of node) # member_meta x ns)"
  by (simp_all add: member_meta_def map_filter_def split: option.split)

lemma fst_member_meta [simp]: "map fst (member_meta x ns) = map snd (members x ns)"
  by (induction ns) (auto split: option.split)

lemma collect_nodes_eq:
  "collect_nodes x ids meta ns =
     (if (\<forall>node \<in> set ns. healthy node \<longrightarrow> trim (bn_node_id node) \<noteq> []) \<and>
         distinct (map fst (members x ns)) \<and> distinct (map snd (members x ns)) \<and>
         fst ` set (members x ns) \<inter> fst ` set ids = {} \<and>
         snd ` set (members x ns) \<inter> fst ` set meta = {}
      then Some (ids @ members x ns, meta @ member_meta x ns) else None)"
proof (induction x ids meta ns rule: collect_nodes.induct)
  case (2 x ids meta node ns)
  show ?case
  proof (cases "healthy node \<and> trim (bn_node_id node) \<noteq> []")
    case False
    then show ?thesis
      using 2(1) by (auto simp: healthy_def member_of_def)
  next
    case True
    show ?thesis
    proof (cases "normalize_node_url x (bn_address node)")
      case None
      then show ?thesis using True 2(2) by (simp add: healthy_def member_of_def)
    next
      case (Some u)
      let ?id = "trim (bn_node_id node)"
      from True Some have m: "member_of x node = Some (?id, u)"
        by (simp add: healthy_def member_of_def)
      have h: "eq_ignore_ascii_case (bn_health node) ''healthy''" "?id \<noteq> []"
        using True by (simp_all add: healthy_def)
      show ?thesis
      proof (cases "?id \<in> fst ` set ids \<or> u \<in> fst ` set meta")
        case True
        then show ?thesis using h Some m by (auto simp: Let_def hget_None)
      next
        case False
        then have "collect_nodes x (ids @ [(?id, u)]) (meta @ [(u, metadata_of node)]) ns =
          (if (\<forall>node \<in> set ns. healthy node \<longrightarrow> trim (bn_node_id node) \<noteq> []) \<and>
             distinct (map fst (members x ns)) \<and> distinct (map snd (members x ns)) \<and>
             fst ` set (members x ns) \<inter> insert ?id (fst ` set ids) = {} \<and>
             snd ` set (members x ns) \<inter> insert u (fst ` set meta) = {}
           then Some (ids @ (?id, u) # members x ns, meta @ (u, metadata_of node) # member_meta x ns)
           else None)"
          using 2(3) [OF _ refl _ Some] h by (simp add: hget_None hinsert_fresh)
        then show ?thesis using h Some m False by (auto simp: Let_def hget_None hinsert_fresh)
      qed
    qed
  qed
qed simp

lemma collect_leaders_eq:
  "collect_leaders n ids leaders shs =
     (if (\<forall>sh \<in> set shs. bs_shard_id sh < n \<and> shard_target ids sh \<noteq> None) \<and>
         distinct (map bs_shard_id shs) \<and> bs_shard_id ` set shs \<inter> fst ` set leaders = {}
      then Some (leaders @ map (\<lambda>sh. (bs_shard_id sh, the (shard_target ids sh))) shs) else None)"
proof (induction n ids leaders shs rule: collect_leaders.induct)
  case (2 n ids leaders sh shs)
  show ?case
  proof (cases "bs_shard_id sh < n \<and> shard_target ids sh \<noteq> None \<and> bs_shard_id sh \<notin> fst ` set leaders")
    case False
    then show ?thesis by (auto simp: hget_None split: option.split)
  next
    case True
    then obtain u where u: "shard_target ids sh = Some u" by auto
    from True u show ?thesis
      using 2 [OF _ u] by (auto simp: hget_None hinsert_fresh not_le)
  qed
qed simp

lemma shard_target_member: "shard_target ids sh = Some u \<Longrightarrow> u \<in> snd ` set ids"
  by (auto simp: shard_target_def bind_eq_Some_conv dest!: find_map_Some map_of_SomeD
      split: option.splits intro: rev_image_eqI)

lemma placed_leader_eq:
  "distinct (map bs_shard_id shs) \<Longrightarrow> \<forall>sh \<in> set shs. shard_target (members x ns) sh \<noteq> None \<Longrightarrow>
   map_of (map (\<lambda>sh. (bs_shard_id sh, the (shard_target (members x ns) sh))) shs) s =
     placed_leader x ns shs s"
  by (induction shs) (auto simp: placed_leader_def)

lemma all_shards_covered:
  fixes n :: u32
  assumes "distinct xs" "\<forall>s \<in> set xs. s < n" "length xs = unat n"
  shows "set xs = {s. s < n}"
proof (rule card_subset_eq)
  show "set xs \<subseteq> {s. s < n}" using assms by auto
  have "k \<in> unat ` {s. s < n}" if "k < unat n" for k
  proof
    have "k < 2 ^ LENGTH(32)" using that unsigned_less [of n, where 'a = nat] by linarith
    then show "k = unat (of_nat k :: u32)" by (simp add: unat_of_nat)
    with that show "(of_nat k :: u32) \<in> {s. s < n}" by (simp add: word_less_nat_alt)
  qed
  then have "unat ` {s. s < n} = {..< unat n}"
    by (auto simp: word_less_nat_alt)
  moreover have "inj_on (unat :: u32 \<Rightarrow> nat) {s. s < n}"
    by (simp add: inj_on_def word_unat_eq_iff)
  ultimately have "card {s. s < n} = unat n" by (metis card_image card_lessThan)
  then show "card (set xs) = card {s. s < n}" using assms by (simp add: distinct_card)
qed (simp)

lemma apply_brain_snapshot_eq:
  "apply_brain_snapshot_at x ns shards fetched_at t =
     (if snapshot_ok x (rt_shard_count t) ns shards
      then let nodes = sort (map snd (members x ns));
               hints = hretain (\<lambda>_ learned_at. fetched_at \<le> learned_at) (rt_leader_hints t)
           in (unat (rt_shard_count t), t\<lparr>rt_nodes := nodes, rt_node_metadata := member_meta x ns,
             rt_leaders := keep_hints nodes (rt_leaders t) hints
               (map (\<lambda>sh. (bs_shard_id sh, the (shard_target (members x ns) sh))) shards),
             rt_leader_hints := hints\<rparr>)
      else (0, t))"
  unfolding apply_brain_snapshot_at_def collect_nodes_eq collect_leaders_eq snapshot_ok_def
  by (auto simp: Let_def)

text \<open>
  What an accepted snapshot leaves: sorted membership, and per shard the placed leader
  unless a redirect learned since the fetch names a current member.
\<close>

lemma apply_accepted:
  assumes "snapshot_ok x (rt_shard_count t) ns shards" "hinvar (rt_leader_hints t)"
    and "apply_brain_snapshot_at x ns shards fetched_at t = (applied, t')"
  shows "applied = unat (rt_shard_count t)" "rt_shard_count t' = rt_shard_count t"
    "rt_nodes t' = sort (map snd (members x ns))" "rt_node_metadata t' = member_meta x ns"
    "rt_region_requests t' = rt_region_requests t" "rt_cursor t' = rt_cursor t"
    "rt_leader_hints t' = hretain (\<lambda>_ learned_at. fetched_at \<le> learned_at) (rt_leader_hints t)"
    "hinvar (rt_leaders t')"
    "leader_for t' s =
       (if (\<exists>at c. hget (rt_leader_hints t) s = Some at \<and> fetched_at \<le> at \<and>
            leader_for t s = Some c \<and> c \<in> snd ` set (members x ns))
        then leader_for t s else placed_leader x ns shards s)"
proof -
  have d: "distinct (map bs_shard_id shards)"
    and tgt: "\<forall>sh \<in> set shards. shard_target (members x ns) sh \<noteq> None"
    using assms(1) by (auto simp: snapshot_ok_def)
  have h: "hinvar (map (\<lambda>sh. (bs_shard_id sh, the (shard_target (members x ns) sh))) shards)"
    using d by (simp add: hinvar_def comp_def)
  have t': "t' = t\<lparr>rt_nodes := sort (map snd (members x ns)), rt_node_metadata := member_meta x ns,
     rt_leaders := keep_hints (sort (map snd (members x ns))) (rt_leaders t)
       (hretain (\<lambda>_ learned_at. fetched_at \<le> learned_at) (rt_leader_hints t))
       (map (\<lambda>sh. (bs_shard_id sh, the (shard_target (members x ns) sh))) shards),
     rt_leader_hints := hretain (\<lambda>_ learned_at. fetched_at \<le> learned_at) (rt_leader_hints t)\<rparr>"
    using assms(1,3) by (simp add: apply_brain_snapshot_eq Let_def)
  show "applied = unat (rt_shard_count t)"
    using assms(1,3) by (simp add: apply_brain_snapshot_eq Let_def)
  show "hinvar (rt_leaders t')" by (simp add: t' keep_hints_hinvar h)
  show "leader_for t' s =
       (if (\<exists>at c. hget (rt_leader_hints t) s = Some at \<and> fetched_at \<le> at \<and>
            leader_for t s = Some c \<and> c \<in> snd ` set (members x ns))
        then leader_for t s else placed_leader x ns shards s)"
    by (auto simp: t' leader_for_def keep_hints_get placed_leader_eq [OF d tgt] domIff
        hget_hretain [OF assms(2)] split: option.splits if_splits)
qed (use assms in \<open>auto simp: apply_brain_snapshot_eq Let_def\<close>)

lemma placed_leader_member: "placed_leader x ns shards s = Some u \<Longrightarrow> u \<in> snd ` set (members x ns)"
  by (auto simp: placed_leader_def bind_eq_Some_conv dest: shard_target_member)

lemma placed_leader_total:
  assumes "snapshot_ok x n ns shards"
  shows "placed_leader x ns shards s \<noteq> None \<longleftrightarrow> s < n"
proof -
  have "set (map bs_shard_id shards) = {s. s < n}"
    using assms by (intro all_shards_covered) (auto simp: snapshot_ok_def)
  moreover have "find (\<lambda>sh. bs_shard_id sh = s) shards \<noteq> None \<longleftrightarrow> s \<in> set (map bs_shard_id shards)"
    by (auto simp: find_None_iff)
  moreover have "shard_target (members x ns) sh \<noteq> None"
    if "find (\<lambda>sh. bs_shard_id sh = s) shards = Some sh" for sh
    using that assms by (auto simp: snapshot_ok_def find_Some_iff)
  ultimately show ?thesis
    by (cases "find (\<lambda>sh. bs_shard_id sh = s) shards") (auto simp: placed_leader_def)
qed

lemma members_normalized:
  "u \<in> snd ` set (members x ns) \<Longrightarrow> \<exists>a. normalize_node_url x a = Some u"
  by (induction ns) (auto simp: member_of_def split: option.splits if_splits)

subsection \<open>The round-robin cursor\<close>

lemma any_node_loop_frame:
  "any_node_loop k excl t = (r, t') \<Longrightarrow> t' = t\<lparr>rt_cursor := rt_cursor t'\<rparr> \<and>
   (\<forall>u. r = Some u \<longrightarrow> rt_nodes t \<noteq> [] \<longrightarrow> u \<in> set (rt_nodes t) \<and> u \<notin> excl)"
  by (induction k excl t rule: any_node_loop.induct) (auto simp: Let_def split: if_splits)

lemma unat_cursor_succ: "unat (c :: usize) + 1 < 2 ^ 64 \<Longrightarrow> unat (c + 1) = unat c + 1"
  by (simp add: unat_word_ariths)

lemma any_node_loop_None:
  assumes "unat (rt_cursor t) + k \<le> 2 ^ 64"
  shows "fst (any_node_loop k excl t) = None \<longleftrightarrow>
    (\<forall>i < k. rt_nodes t ! ((unat (rt_cursor t) + i) mod length (rt_nodes t)) \<in> excl)"
  using assms
proof (induction k excl t rule: any_node_loop.induct)
  case (2 k excl t)
  show ?case
  proof (cases "k = 0")
    case False
    then have c: "unat (rt_cursor t + 1) = unat (rt_cursor t) + 1"
      using 2(2) by (intro unat_cursor_succ) simp
    have "(\<forall>i < Suc k. P i) \<longleftrightarrow> P 0 \<and> (\<forall>i < k. P (Suc i))" for P
      by (simp add: All_less_Suc2)
    then show ?thesis
      using 2 c by (auto simp: Let_def)
  qed (simp add: Let_def)
qed simp

lemma mod_window:
  assumes "0 < (n :: nat)"
  shows "(\<lambda>i. (c + i) mod n) ` {..< n} = {..< n}"
proof -
  have "j \<in> (\<lambda>i. (c + i) mod n) ` {..< n}" if "j < n" for j
  proof
    have le: "c mod n \<le> j + n" using assms mod_less_divisor [of n c] by linarith
    have "(c + (j + n - c mod n) mod n) mod n = (c mod n + (j + n - c mod n)) mod n"
      by (metis mod_add_eq mod_mod_trivial)
    also have "c mod n + (j + n - c mod n) = j + n" using le by simp
    finally have "(c + (j + n - c mod n) mod n) mod n = j" using that by simp
    then show "j = (c + (j + n - c mod n) mod n) mod n" by simp
    show "(j + n - c mod n) mod n \<in> {..< n}" using assms by simp
  qed
  with assms show ?thesis by auto
qed

section \<open>The table as a state machine\<close>

text \<open>
  The invariant: the maps are well formed, the membership is free of repetitions and made of
  normalised URLs, every leader is a member and every shard below the count has one (once
  there is a membership), hints and metadata only for known shards and nodes.
\<close>

definition table_inv :: "externals \<Rightarrow> route_table \<Rightarrow> bool" where
  "table_inv x t \<longleftrightarrow>
     hinvar (rt_leaders t) \<and> hinvar (rt_leader_hints t) \<and> hinvar (rt_region_requests t) \<and>
     distinct (rt_nodes t) \<and> (\<forall>u \<in> set (rt_nodes t). \<exists>a. normalize_node_url x a = Some u) \<and>
     (\<forall>s u. leader_for t s = Some u \<longrightarrow> s < rt_shard_count t \<and> u \<in> set (rt_nodes t)) \<and>
     (rt_nodes t \<noteq> [] \<longrightarrow> (\<forall>s < rt_shard_count t. leader_for t s \<noteq> None)) \<and>
     (\<forall>s. hget (rt_leader_hints t) s \<noteq> None \<longrightarrow> leader_for t s \<noteq> None) \<and>
     dom (hget (rt_node_metadata t)) \<subseteq> set (rt_nodes t)"

text \<open>
  The steps other requests and the refresh task take, each atomic under the lock. A hint is
  only taken for the shard of a request, which is below the count.
\<close>

inductive table_step :: "externals \<Rightarrow> route_table \<Rightarrow> route_table \<Rightarrow> bool" for x where
  step_hint: "s < rt_shard_count t \<Longrightarrow> table_step x t (snd (accept_leader_hint x now s h t))"
| step_region: "table_step x t (record_region_request u t)"
| step_any_node: "table_step x t (snd (any_node_excluding excl t))"
| step_refresh: "table_step x t (refresh_from_brain x fetched_at nodes placement t)"

inductive_cases table_step_cases: "table_step x t t'"

definition table_init :: "externals \<Rightarrow> route_table \<Rightarrow> bool" where
  "table_init x t \<longleftrightarrow> (\<exists>n seeds. t = table_new x n seeds)"

lemma table_inv_new: "table_inv x (table_new x n seeds)"
  using seed_nodes_props [of x "[]" seeds]
  by (auto simp: table_inv_def table_new_def Let_def leader_for_def round_robin_leaders
      split: if_splits)

lemma table_inv_hint:
  assumes "table_inv x t" "s < rt_shard_count t"
  shows "table_inv x (snd (accept_leader_hint x now s h t))"
proof (cases "validate_node_hint x h t")
  case None
  then show ?thesis using assms(1) by (simp add: accept_leader_hint_eq)
next
  case (Some k)
  then have "k \<in> set (rt_nodes t)" by (rule validate_node_hint_member)
  with Some assms show ?thesis
    by (auto simp: accept_leader_hint_eq table_inv_def leader_for_def hmap_simps domIff)
qed

lemma table_inv_region: "table_inv x t \<Longrightarrow> table_inv x (record_region_request u t)"
  by (simp add: table_inv_def record_region_request_def Let_def leader_for_def hmap_simps)

lemma any_node_excluding_frame:
  assumes "any_node_excluding excl t = (r, t')"
  shows "t' = t\<lparr>rt_cursor := rt_cursor t'\<rparr>"
    "r = Some u \<Longrightarrow> u \<in> set (rt_nodes t) \<and> u \<notin> excl"
  using assms any_node_loop_frame [of "length (rt_nodes t)" excl t r t']
  by (auto simp: any_node_excluding_def split: if_splits)

lemma table_inv_cursor: "table_inv x (t\<lparr>rt_cursor := c\<rparr>) = table_inv x t"
  by (simp add: table_inv_def leader_for_def)

lemma table_inv_any_node: "table_inv x t \<Longrightarrow> table_inv x (snd (any_node_excluding excl t))"
  by (metis any_node_excluding_frame(1) prod.collapse table_inv_cursor)

lemma table_inv_apply:
  assumes "table_inv x t"
  shows "table_inv x (snd (apply_brain_snapshot_at x ns shards fetched_at t))"
proof (cases "snapshot_ok x (rt_shard_count t) ns shards")
  case False
  then show ?thesis using assms by (simp add: apply_brain_snapshot_eq)
next
  case True
  obtain applied t' where t': "apply_brain_snapshot_at x ns shards fetched_at t = (applied, t')"
    by fastforce
  have hh: "hinvar (rt_leader_hints t)" using assms by (simp add: table_inv_def)
  note eqs = apply_accepted [OF True hh t']
  have lead: "\<And>s u. leader_for t s = Some u \<Longrightarrow> s < rt_shard_count t" 
    using assms by (auto simp: table_inv_def)
  have total: "leader_for t' s \<noteq> None \<longleftrightarrow> s < rt_shard_count t" for s
    using placed_leader_total [OF True, of s] lead [of s] by (auto simp: eqs)
  have mem: "leader_for t' s = Some u \<Longrightarrow> u \<in> set (rt_nodes t')" for s u
    by (auto simp: eqs dest: placed_leader_member split: if_splits)
  have "distinct (map snd (members x ns))" using True by (simp add: snapshot_ok_def)
  moreover have "leader_for t' s \<noteq> None" if "hget (rt_leader_hints t') s \<noteq> None" for s
  proof -
    have "hget (rt_leader_hints t) s \<noteq> None"
      using that by (auto simp: eqs(7) hget_hretain [OF hh] split: option.splits if_splits)
    then have "leader_for t s \<noteq> None" using assms by (simp add: table_inv_def)
    then show ?thesis using lead [of s] total [of s] by auto
  qed
  ultimately have "table_inv x t'"
    unfolding table_inv_def using total mem assms
    by (auto simp: eqs(2-8) hinvar_hretain table_inv_def members_normalized dom_map_of_conv_image_fst
        simp flip: set_map simp del: set_map)
  then show ?thesis by (simp add: t')
qed

lemma table_inv_refresh:
  "table_inv x t \<Longrightarrow> table_inv x (refresh_from_brain x fetched_at nodes placement t)"
  by (auto simp: refresh_from_brain_def table_inv_apply split: fetched.split)

lemma table_inv_step: "table_inv x t \<Longrightarrow> table_step x t t' \<Longrightarrow> table_inv x t'"
  by (auto elim!: table_step_cases
      intro: table_inv_hint table_inv_region table_inv_any_node table_inv_refresh)

interpretation tbl: inductive_invariant "table_init x" "table_step x" "table_inv x" for x
  by unfold_locales (auto simp: table_init_def intro: table_inv_new table_inv_step)

section \<open>Properties\<close>

text \<open>
  C16: an invariant of every reachable table. After any sequence of hints, refreshes,
  round-robin picks and counter updates from \<^verbatim>\<open>RouteTable::new\<close>, the membership has no
  repetition, every leader the table can answer is a member of the membership, and a hydrated
  table (the one \<^verbatim>\<open>/readyz\<close> reports ready) has a leader for every shard below the count.
\<close>

theorem reachable_table_routes:
  assumes "reachable (table_init x) (table_step x) t"
  shows "distinct (rt_nodes t) \<and>
    (\<forall>s u. leader_for t s = Some u \<longrightarrow> u \<in> set (rt_nodes t) \<and> s < rt_shard_count t) \<and>
    (is_hydrated t \<longrightarrow> (\<forall>s < rt_shard_count t. \<exists>u \<in> set (rt_nodes t). leader_for t s = Some u))"
proof -
  have inv: "table_inv x t" using assms by (rule tbl.reachable_inv)
  moreover have "rt_nodes t \<noteq> []" if h: "is_hydrated t"
  proof -
    from h obtain s u l where "rt_leaders t = (s, u) # l"
      by (cases "rt_leaders t") (auto simp: is_hydrated_def)
    then have "leader_for t s = Some u" by (simp add: leader_for_def)
    with inv show ?thesis by (auto simp: table_inv_def)
  qed
  ultimately show ?thesis unfolding table_inv_def by (metis option.exhaust)
qed

text \<open>
  C15: \<^verbatim>\<open>apply_brain_snapshot_at\<close> against its specification. A snapshot that is not acceptable
  (an empty or repeated healthy ID, a repeated URL, no routable member, a shard out of range,
  repeated, missing or without a routable replica) changes nothing and applies 0. An acceptable
  one installs exactly the routable members, sorted, and gives every shard its placed leader,
  except where a redirect learned since the fetch names a node that is still a member.
\<close>

theorem snapshot_refines_spec:
  assumes "table_inv x t"
  shows "let (applied, t') = apply_brain_snapshot_at x ns shards fetched_at t in
    if snapshot_ok x (rt_shard_count t) ns shards then
      applied = unat (rt_shard_count t) \<and>
      rt_nodes t' = sort (map snd (members x ns)) \<and>
      (\<forall>s. leader_for t' s =
        (case (hget (rt_leader_hints t) s, leader_for t s) of
           (Some at, Some c) \<Rightarrow>
             if fetched_at \<le> at \<and> c \<in> snd ` set (members x ns) then Some c
             else placed_leader x ns shards s
         | _ \<Rightarrow> placed_leader x ns shards s))
    else applied = 0 \<and> t' = t"
proof (cases "snapshot_ok x (rt_shard_count t) ns shards")
  case True
  obtain applied t' where t': "apply_brain_snapshot_at x ns shards fetched_at t = (applied, t')"
    by fastforce
  have hh: "hinvar (rt_leader_hints t)" using assms by (simp add: table_inv_def)
  show ?thesis
    using True apply_accepted(1-3,9) [OF True hh t'] by (auto simp: t' split: option.split)
qed (simp add: apply_brain_snapshot_eq)

text \<open>
  C32: a redirect hint can only ever name the membership. \<^verbatim>\<open>accept_leader_hint\<close> accepts a hint
  exactly when its normal form is the normal form of a known node; it then returns that node,
  makes it the leader of that one shard and leaves the others and the membership alone. Any
  other hint leaves the table as it is.
\<close>

theorem accept_leader_hint_spec:
  "let (r, t') = accept_leader_hint x now s h t in
    (r \<noteq> None \<longleftrightarrow> (\<exists>u. normalize_node_url x h = Some u \<and>
        Some u \<in> normalize_node_url x ` set (rt_nodes t))) \<and>
    (case r of None \<Rightarrow> t' = t
     | Some k \<Rightarrow> k \<in> set (rt_nodes t) \<and> normalize_node_url x k = normalize_node_url x h \<and>
         rt_nodes t' = rt_nodes t \<and>
         leader_for t' = (leader_for t)(s := Some k) \<and>
         hget (rt_leader_hints t') = (hget (rt_leader_hints t))(s := Some now))"
proof -
  have "known_node x t u \<noteq> None \<longleftrightarrow> Some u \<in> normalize_node_url x ` set (rt_nodes t)" for u
    unfolding known_node_def
    by (cases "find_map (\<lambda>node. if normalize_node_url x node = Some u then Some node else None)
        (rt_nodes t)")
      (auto simp: find_map_None dest!: find_map_Some split: if_splits
        intro: rev_image_eqI)
  note known = this
  show ?thesis
  proof (cases "normalize_node_url x h")
    case (Some u)
    then show ?thesis
      using known [of u]
      by (cases "known_node x t u")
        (auto simp: accept_leader_hint_def leader_for_def hmap_simps fun_eq_iff
          dest: known_node_Some)
  qed (simp add: accept_leader_hint_def)
qed

text \<open>
  C37: what a node URL can be. The base URL of a member, whatever the control plane or a
  configuration line said, is an http or https origin: it has a host, no user name, password,
  query, fragment or path, so the trusted-hop secret is never sent along a URL with any.
\<close>

theorem members_are_origins:
  assumes "reachable (table_init x) (table_step x) t" "u \<in> set (rt_nodes t)"
  shows "\<exists>c p. x_url_parse x c = Some p \<and> url_scheme p \<in> {''http'', ''https''} \<and>
    url_host p \<noteq> None \<and> url_username p = [] \<and> url_password p = None \<and> url_path p = ''/'' \<and>
    url_query p = None \<and> url_fragment p = None \<and> u = trim_end_matches CHR ''/'' (url_str p)"
proof -
  have "table_inv x t" using assms(1) by (rule tbl.reachable_inv)
  then obtain a where "normalize_node_url x a = Some u"
    using assms(2) by (auto simp: table_inv_def)
  then show ?thesis by (rule normalize_node_url_origin) blast
qed

text \<open>Several picks for keyless requests in a row.\<close>

fun any_nodes :: "nat \<Rightarrow> route_table \<Rightarrow> string option list \<times> route_table" where
  "any_nodes 0 t = ([], t)"
| "any_nodes (Suc k) t =
     (let (r, t') = any_node t; (rs, t'') = any_nodes k t' in (r # rs, t''))"

lemma any_node_pick:
  "rt_nodes t \<noteq> [] \<Longrightarrow> any_node t =
     (Some (rt_nodes t ! (unat (rt_cursor t) mod length (rt_nodes t))),
      t\<lparr>rt_cursor := rt_cursor t + 1\<rparr>)"
  by (cases "rt_nodes t") (auto simp: any_node_def any_node_excluding_def Let_def)

lemma any_nodes_picks:
  assumes "unat (rt_cursor t) + k \<le> 2 ^ 64" "rt_nodes t \<noteq> []"
  shows "fst (any_nodes k t) =
    map (\<lambda>i. Some (rt_nodes t ! ((unat (rt_cursor t) + i) mod length (rt_nodes t)))) [0 ..< k]"
  using assms
proof (induction k arbitrary: t)
  case (Suc k)
  show ?case
  proof (cases "k = 0")
    case False
    then have c: "unat (rt_cursor t + 1) = unat (rt_cursor t) + 1"
      using Suc.prems by (intro unat_cursor_succ) simp
    show ?thesis
      using Suc.prems Suc.IH [of "t\<lparr>rt_cursor := rt_cursor t + 1\<rparr>"] c
      by (simp add: any_node_pick case_prod_beta upt_conv_Cons map_Suc_upt [symmetric] comp_def
          del: upt_Suc)
  qed (simp add: any_node_pick Suc.prems)
qed simp

lemma mod_window_perm:
  assumes "0 < (n :: nat)"
  shows "mset (map (\<lambda>i. (c + i) mod n) [0 ..< n]) = mset [0 ..< n]"
proof -
  have "inj_on (\<lambda>i. (c + i) mod n) {..< n}"
    by (rule eq_card_imp_inj_on) (simp_all only: finite_lessThan mod_window [OF assms])
  then have "distinct (map (\<lambda>i. (c + i) mod n) [0 ..< n])"
    by (simp add: distinct_map atLeast0LessThan)
  moreover have "set (map (\<lambda>i. (c + i) mod n) [0 ..< n]) = set [0 ..< n]"
    using mod_window [OF assms, of c] by (simp add: atLeast0LessThan)
  ultimately show ?thesis by (metis distinct_upt set_eq_iff_mset_eq_distinct)
qed

lemma rotation_mset:
  assumes "xs \<noteq> []"
  shows "mset (map (\<lambda>i. f (xs ! ((c + i) mod length xs))) [0 ..< length xs]) = image_mset f (mset xs)"
proof -
  have "mset (map (\<lambda>i. f (xs ! ((c + i) mod length xs))) [0 ..< length xs]) =
      image_mset (\<lambda>j. f (xs ! j)) (mset (map (\<lambda>i. (c + i) mod length xs) [0 ..< length xs]))"
    by (simp only: mset_map [symmetric] map_map comp_def)
  also have "\<dots> = image_mset (\<lambda>j. f (xs ! j)) (mset [0 ..< length xs])"
    using assms by (subst mod_window_perm) simp_all
  also have "\<dots> = image_mset f (mset (map ((!) xs) [0 ..< length xs]))"
    by (simp only: mset_map [symmetric] map_map comp_def)
  finally show ?thesis by (simp only: map_nth)
qed

text \<open>
  C38: round robin is fair. From any cursor that does not wrap, as many picks as there are
  nodes return every node, each exactly once.
\<close>

theorem round_robin_fair:
  assumes "rt_nodes t \<noteq> []" "unat (rt_cursor t) + length (rt_nodes t) \<le> 2 ^ 64"
  shows "mset (fst (any_nodes (length (rt_nodes t)) t)) = image_mset Some (mset (rt_nodes t))"
  unfolding any_nodes_picks [OF assms(2,1)] using assms(1) by (rule rotation_mset)

text \<open>
  A retry never goes back to a node it has tried. \<^verbatim>\<open>any_node_excluding\<close> returns only
  members that are not excluded, changes nothing but the cursor and, while the cursor does not
  wrap, returns one whenever there is one.
\<close>

lemma any_node_excluding_spec:
  assumes "unat (rt_cursor t) + length (rt_nodes t) \<le> 2 ^ 64"
  shows "let (r, t') = any_node_excluding excl t in
    (r = None \<longleftrightarrow> set (rt_nodes t) \<subseteq> excl) \<and>
    (\<forall>u. r = Some u \<longrightarrow> u \<in> set (rt_nodes t) - excl) \<and> t' = t\<lparr>rt_cursor := rt_cursor t'\<rparr>"
proof -
  obtain r t' where rt: "any_node_excluding excl t = (r, t')" by fastforce
  have "r = None \<longleftrightarrow> set (rt_nodes t) \<subseteq> excl"
  proof (cases "rt_nodes t = []")
    case False
    let ?n = "length (rt_nodes t)"
    have "r = None \<longleftrightarrow> (\<forall>j \<in> (\<lambda>i. (unat (rt_cursor t) + i) mod ?n) ` {..< ?n}. rt_nodes t ! j \<in> excl)"
      using any_node_loop_None [OF assms, of excl] rt False
      by (auto simp: any_node_excluding_def)
    also have "\<dots> \<longleftrightarrow> set (rt_nodes t) \<subseteq> excl"
      using False by (subst mod_window) (auto simp: in_set_conv_nth subset_iff)
    finally show ?thesis .
  qed (use rt in \<open>simp add: any_node_excluding_def\<close>)
  then show ?thesis using any_node_excluding_frame [OF rt] by (auto simp: rt)
qed

text \<open>
  A redirect is not undone by a snapshot older than it. If a hint for a shard is accepted
  after the refresh was sent, applying the snapshot keeps the hinted node as the leader as
  long as the snapshot has it as a member; a snapshot requested after the hint replaces it by
  the placed leader.
\<close>

lemma hint_outlives_older_snapshot:
  assumes "table_inv x t" "s < rt_shard_count t"
    and "accept_leader_hint x now s h t = (Some k, t')"
    and "snapshot_ok x (rt_shard_count t) ns shards"
  shows "leader_for (snd (apply_brain_snapshot_at x ns shards fetched_at t')) s =
    (if fetched_at \<le> now \<and> k \<in> snd ` set (members x ns) then Some k
     else placed_leader x ns shards s)"
proof -
  have t': "t' = t\<lparr>rt_leaders := hinsert s k (rt_leaders t),
      rt_leader_hints := hinsert s now (rt_leader_hints t)\<rparr>"
    using assms(3) by (auto simp: accept_leader_hint_eq split: option.splits)
  have "table_inv x t'" using table_inv_hint [OF assms(1,2), of now h] assms(3) by simp
  then have hh: "hinvar (rt_leader_hints t')" by (simp add: table_inv_def)
  obtain applied t'' where t'': "apply_brain_snapshot_at x ns shards fetched_at t' = (applied, t'')"
    by fastforce
  have ok: "snapshot_ok x (rt_shard_count t') ns shards" using assms(4) by (simp add: t')
  have "hget (rt_leader_hints t') s = Some now" "leader_for t' s = Some k"
    by (simp_all add: t' leader_for_def hmap_simps)
  then show ?thesis
    using apply_accepted(9) [OF ok hh t'', of s] by (auto simp: t'')
qed

section \<open>Witnesses\<close>

definition sample_table :: route_table where
  "sample_table = table_new sample_externals 2 [''a:1'', '' http://b/ '', ''a:1'', ''http://u@c'']"

lemma sample_table_eq:
  "sample_table =
     \<lparr>rt_shard_count = 2, rt_nodes = [''http://a:1'', ''http://b''], rt_node_metadata = [],
      rt_leaders = [(0, ''http://a:1''), (1, ''http://b'')], rt_leader_hints = [],
      rt_region_requests = [], rt_cursor = 0\<rparr>"
  by code_simp

lemma sample_table_reachable: "reachable (table_init sample_externals) (table_step sample_externals) sample_table"
  by (rule reach_init) (auto simp: table_init_def sample_table_def)

definition sample_node :: "string \<Rightarrow> string \<Rightarrow> brain_node" where
  "sample_node i a = \<lparr>bn_node_id = i, bn_address = a, bn_health = ''Healthy'',
     bn_cloud_provider = None, bn_region = Some ''eu'', bn_cluster_id = None\<rparr>"

definition sample_shard :: "shard_id \<Rightarrow> string \<Rightarrow> brain_shard" where
  "sample_shard s i = \<lparr>bs_shard_id = s, bs_replicas = [''n1'', ''n2''], bs_preferred_leader = Some i\<rparr>"

theorem reachable_table_routes_witness:
  "is_hydrated sample_table \<and>
   (\<exists>u \<in> set (rt_nodes sample_table). leader_for sample_table 1 = Some u)"
  using reachable_table_routes [OF sample_table_reachable] by (simp add: sample_table_eq is_hydrated_def)

theorem snapshot_refines_spec_witness:
  "leader_for (snd (apply_brain_snapshot_at sample_externals
      [sample_node ''n1'' ''a:1'', sample_node ''n2'' ''c'']
      [sample_shard 1 ''n1'', sample_shard 0 ''n2''] 5 sample_table)) 0 = Some ''http://c''"
proof -
  have inv: "table_inv sample_externals sample_table"
    unfolding sample_table_def by (rule table_inv_new)
  have "snapshot_ok sample_externals (rt_shard_count sample_table)
      [sample_node ''n1'' ''a:1'', sample_node ''n2'' ''c''] [sample_shard 1 ''n1'', sample_shard 0 ''n2'']"
    "placed_leader sample_externals [sample_node ''n1'' ''a:1'', sample_node ''n2'' ''c'']
      [sample_shard 1 ''n1'', sample_shard 0 ''n2''] 0 = Some ''http://c''"
    "hget (rt_leader_hints sample_table) 0 = None"
    by code_simp+
  then show ?thesis
    using snapshot_refines_spec [OF inv, of "[sample_node ''n1'' ''a:1'', sample_node ''n2'' ''c'']"
        "[sample_shard 1 ''n1'', sample_shard 0 ''n2'']" 5]
    by (simp add: case_prod_beta Let_def)
qed

theorem members_are_origins_witness:
  "''http://b'' \<in> set (rt_nodes sample_table) \<and>
   (\<exists>c p. x_url_parse sample_externals c = Some p \<and> url_path p = ''/'')"
  using members_are_origins [OF sample_table_reachable, of "''http://b''"]
  by (auto simp: sample_table_eq)

theorem round_robin_fair_witness:
  "mset (fst (any_nodes (Suc (Suc 0)) (sample_table\<lparr>rt_cursor := 7\<rparr>))) =
     {#Some ''http://a:1'', Some ''http://b''#}"
  using round_robin_fair [of "sample_table\<lparr>rt_cursor := 7\<rparr>"]
  by (simp add: sample_table_eq del: any_nodes.simps)

end
