(* ===== verification/Revocation.thy ===== *)
theory Revocation
  imports Http
begin

text \<open>
  \<^verbatim>\<open>src/src/revocation.rs\<close>: the fail-closed revocation gate. The decision cache
  (\<open>revocation_cache\<close>, one function per method, \<open>None\<close> for \<^verbatim>\<open>Err(())\<close>), the answer of the
  revocation authority, the gate for one caller (\<open>authorize\<close>), and the gate as a step relation
  in which any number of callers interleave at the points where the code takes a lock or
  awaits. Times are the Unix seconds the caller passes in, as \<^verbatim>\<open>u64\<close>.
\<close>

section \<open>State\<close>

record claims =
  cl_sub :: string
  cl_org_id :: string
  cl_scopes :: "string list"
  cl_iss :: string
  cl_aud :: string
  cl_iat :: u64
  cl_exp :: u64
  cl_jti :: string

datatype unavailable = ClockRegression | RefreshFailed | RefreshTimedOut

datatype authorization = Allowed | Revoked | Unavailable unavailable

datatype decision = Allow | Deny

datatype lookup = Fresh decision | Stale | Miss

record entry =
  en_decision :: decision
  en_observed_at :: u64

record revocation_cache =
  rc_entries :: "(string, entry) hmap"
  rc_high_water :: u64
  rc_budget :: u64
  rc_capacity :: usize

section \<open>The cache\<close>

definition cache_new :: "u64 \<Rightarrow> usize \<Rightarrow> revocation_cache" where
  "cache_new freshness_budget_secs capacity =
     \<lparr>rc_entries = [], rc_high_water = 0, rc_budget = max freshness_budget_secs 1,
      rc_capacity = max capacity 1\<rparr>"

definition advance :: "u64 \<Rightarrow> revocation_cache \<Rightarrow> revocation_cache option" where
  "advance now c = (if now < rc_high_water c then None else Some (c\<lparr>rc_high_water := now\<rparr>))"

definition lookup :: "string \<Rightarrow> u64 \<Rightarrow> revocation_cache \<Rightarrow> (lookup \<times> revocation_cache) option" where
  "lookup key now c =
     (case advance now c of None \<Rightarrow> None
      | Some c \<Rightarrow> Some
          (case hget (rc_entries c) key of
             Some e \<Rightarrow> if saturating_sub now (en_observed_at e) \<le> rc_budget c
               then Fresh (en_decision e) else Stale
           | None \<Rightarrow> Miss, c))"

definition record_refresh_start :: "u64 \<Rightarrow> revocation_cache \<Rightarrow> revocation_cache option" where
  "record_refresh_start now c = advance now c"

text \<open>\<^verbatim>\<open>iter().min_by_key(..)\<close>: the first entry with the least key.\<close>

fun min_by_key :: "('a \<Rightarrow> 'b::linorder) \<Rightarrow> 'a list \<Rightarrow> 'a option" where
  "min_by_key f [] = None"
| "min_by_key f (x # xs) =
     (case min_by_key f xs of None \<Rightarrow> Some x | Some y \<Rightarrow> Some (if f x \<le> f y then x else y))"

definition apply_decision :: "string \<Rightarrow> decision \<Rightarrow> u64 \<Rightarrow> revocation_cache \<Rightarrow>
    revocation_cache option" where
  "apply_decision key d now c =
     (case advance now c of None \<Rightarrow> None
      | Some c \<Rightarrow>
          (let c = (if hget (rc_entries c) key = None \<and>
                  unat (rc_capacity c) \<le> length (rc_entries c)
                then (case min_by_key (\<lambda>(_, e). en_observed_at e) (rc_entries c) of
                    Some (oldest, _) \<Rightarrow> c\<lparr>rc_entries := hremove oldest (rc_entries c)\<rparr>
                  | None \<Rightarrow> c)
                else c)
           in Some (c\<lparr>rc_entries := hinsert key \<lparr>en_decision = d, en_observed_at = now\<rparr> (rc_entries c)\<rparr>)))"

section \<open>The authority\<close>

datatype authority_error = Misconfigured | Transport | Status | Oversized | Malformed

datatype matched_target = TokenId | Subject

record wire_decision =
  wd_revoked :: bool
  wd_matched_target :: "matched_target option"
  wd_generation :: "u64 option"
  wd_expires_at :: "u64 option"

definition validate_wire_decision :: "wire_decision \<Rightarrow> u64 \<Rightarrow> authority_error + unit" where
  "validate_wire_decision d now =
     (if wd_revoked d then
        (if wd_matched_target d = None \<or> wd_generation d = None \<or>
            (case wd_expires_at d of None \<Rightarrow> True | Some e \<Rightarrow> e \<le> now)
         then Inl Malformed else Inr ())
      else if wd_matched_target d \<noteq> None \<or> wd_generation d \<noteq> None \<or> wd_expires_at d \<noteq> None
        then Inl Malformed
      else Inr ())"

definition max_response_bytes :: nat where
  "max_response_bytes = 16 * 1024"

text \<open>
  One check at the authority. \<open>send\<close> is the exchange with the control plane for the given
  secret and claims: a transport failure, or a status with a body that arrived or broke off;
  \<open>parse\<close> is the decoding of the answer that serde derives for \<^verbatim>\<open>CheckEnvelope\<close>.
\<close>

definition check_revocation ::
    "(string \<Rightarrow> claims \<Rightarrow> (nat \<times> bytes option) option) \<Rightarrow> (bytes \<Rightarrow> wire_decision option) \<Rightarrow>
     string option \<Rightarrow> claims \<Rightarrow> u64 \<Rightarrow> authority_error + bool" where
  "check_revocation send parse reader_secret cl now =
     (case reader_secret of None \<Rightarrow> Inl Misconfigured
      | Some secret \<Rightarrow>
          (case send secret cl of None \<Rightarrow> Inl Transport
           | Some (status, body) \<Rightarrow>
               if \<not> is_success status then Inl Status
               else case body of None \<Rightarrow> Inl Transport
               | Some body \<Rightarrow>
                   if max_response_bytes < length body then Inl Oversized
                   else case parse body of None \<Rightarrow> Inl Malformed
                   | Some d \<Rightarrow>
                       (case validate_wire_decision d now of Inl e \<Rightarrow> Inl e
                        | Inr _ \<Rightarrow> Inr (wd_revoked d))))"

section \<open>The gate for one caller\<close>

definition be_bytes :: "u64 \<Rightarrow> bytes" where
  "be_bytes n = map (\<lambda>i. ucast (drop_bit (56 - 8 * i) n)) [0 ..< 8]"

definition key_preimage :: "claims \<Rightarrow> bytes" where
  "key_preimage cl =
     concat (map (\<lambda>field. be_bytes (of_nat (length field)) @ as_bytes field)
       [cl_iss cl, cl_aud cl, cl_org_id cl, cl_sub cl, cl_jti cl])"

definition revocation_cache_key :: "externals \<Rightarrow> claims \<Rightarrow> string" where
  "revocation_cache_key x cl = format_hex (x_sha256 x (key_preimage cl))"

fun decision_to_authorization :: "decision \<Rightarrow> authorization" where
  "decision_to_authorization Allow = Allowed"
| "decision_to_authorization Deny = Revoked"

text \<open>The answer of the timed call: the deadline passed, or the authority's result.\<close>

datatype answer = TimedOut | Answered "authority_error + bool"

definition finish_refresh :: "string \<Rightarrow> u64 \<Rightarrow> answer \<Rightarrow> revocation_cache \<Rightarrow>
    authorization \<times> revocation_cache" where
  "finish_refresh key now a c =
     (case a of
        TimedOut \<Rightarrow> (Unavailable RefreshTimedOut, c)
      | Answered (Inl _) \<Rightarrow> (Unavailable RefreshFailed, c)
      | Answered (Inr revoked) \<Rightarrow>
          (let d = (if revoked then Deny else Allow) in
           case apply_decision key d now c of
             None \<Rightarrow> (Unavailable ClockRegression, c)
           | Some c' \<Rightarrow> (decision_to_authorization d, c')))"

definition refresh :: "answer \<Rightarrow> string \<Rightarrow> u64 \<Rightarrow> revocation_cache \<Rightarrow>
    authorization \<times> revocation_cache" where
  "refresh a key now c =
     (case record_refresh_start now c of
        None \<Rightarrow> (Unavailable ClockRegression, c)
      | Some c \<Rightarrow> finish_refresh key now a c)"

text \<open>
  A lookup as the gate uses it: the answer, if the lookup settles the request, and the cache.
\<close>

definition gate_lookup :: "string \<Rightarrow> u64 \<Rightarrow> revocation_cache \<Rightarrow>
    authorization option \<times> revocation_cache" where
  "gate_lookup key now c =
     (case lookup key now c of
        None \<Rightarrow> (Some (Unavailable ClockRegression), c)
      | Some (Fresh d, c) \<Rightarrow> (Some (decision_to_authorization d), c)
      | Some (Stale, c) \<Rightarrow> (None, c)
      | Some (Miss, c) \<Rightarrow> (None, c))"

text \<open>
  \<^verbatim>\<open>authorize\<close> with no other caller in between: the lookup, and under the key's lock the
  second lookup and the refresh.
\<close>

definition authorize :: "externals \<Rightarrow> claims \<Rightarrow> u64 \<Rightarrow> answer \<Rightarrow> revocation_cache \<Rightarrow>
    authorization \<times> revocation_cache" where
  "authorize x cl now a c =
     (let key = revocation_cache_key x cl in
      case gate_lookup key now c of
        (Some out, c) \<Rightarrow> (out, c)
      | (None, c) \<Rightarrow>
          (case gate_lookup key now c of
             (Some out, c) \<Rightarrow> (out, c)
           | (None, c) \<Rightarrow> refresh a key now c))"

section \<open>The gate with interleaved callers\<close>

text \<open>
  A caller runs from one acquisition of a mutex, or one \<^verbatim>\<open>await\<close>, to the next; other callers
  step in between. Its phase says where it is; from \<open>Waiting\<close> to \<open>Dropping\<close> it holds an
  \<^verbatim>\<open>Arc\<close> of the key's lock, given by the lock's identity. \<open>Locked\<close> to \<open>Calling\<close> hold the
  lock itself. \<open>Dropping\<close> is the moment between the two destructors at the end of
  \<^verbatim>\<open>release_key\<close>: the map's mutex is free, the \<^verbatim>\<open>Arc\<close> not yet dropped. \<open>g_answers\<close> is a
  history of what the authority said, which no operation reads.
\<close>

datatype phase = Looking | Acquiring | Waiting nat | Locked nat | Starting nat | Calling nat
  | Releasing nat authorization | Dropping nat authorization | Done authorization

record task =
  tk_claims :: claims
  tk_now :: u64
  tk_phase :: phase

record gate =
  g_cache :: revocation_cache
  g_locks :: "(string, nat) hmap"
  g_next :: nat
  g_tasks :: "(nat, task) hmap"
  g_answers :: "(string \<times> u64 \<times> decision) list"

definition gate_new :: "u64 \<Rightarrow> usize \<Rightarrow> gate" where
  "gate_new budget capacity =
     \<lparr>g_cache = cache_new budget capacity, g_locks = [], g_next = 0, g_tasks = [], g_answers = []\<rparr>"

fun phase_handle :: "phase \<Rightarrow> nat option" where
  "phase_handle (Waiting l) = Some l"
| "phase_handle (Locked l) = Some l"
| "phase_handle (Starting l) = Some l"
| "phase_handle (Calling l) = Some l"
| "phase_handle (Releasing l _) = Some l"
| "phase_handle (Dropping l _) = Some l"
| "phase_handle _ = None"

fun phase_guard :: "phase \<Rightarrow> nat option" where
  "phase_guard (Locked l) = Some l"
| "phase_guard (Starting l) = Some l"
| "phase_guard (Calling l) = Some l"
| "phase_guard _ = None"

definition strong_count :: "nat \<Rightarrow> gate \<Rightarrow> nat" where
  "strong_count l g =
     length (filter (\<lambda>(_, l'). l' = l) (g_locks g)) +
     length (filter (\<lambda>(_, t). phase_handle (tk_phase t) = Some l) (g_tasks g))"

definition acquire_key :: "string \<Rightarrow> gate \<Rightarrow> nat \<times> gate" where
  "acquire_key key g =
     (case hget (g_locks g) key of
        Some l \<Rightarrow> (l, g)
      | None \<Rightarrow> (g_next g, g\<lparr>g_locks := hinsert key (g_next g) (g_locks g), g_next := g_next g + 1\<rparr>))"

definition release_key :: "string \<Rightarrow> nat \<Rightarrow> gate \<Rightarrow> gate" where
  "release_key key l g =
     (if strong_count l g \<le> 2 then g\<lparr>g_locks := hremove key (g_locks g)\<rparr> else g)"

definition set_phase :: "nat \<Rightarrow> task \<Rightarrow> phase \<Rightarrow> gate \<Rightarrow> gate" where
  "set_phase i t p g = g\<lparr>g_tasks := hinsert i (t\<lparr>tk_phase := p\<rparr>) (g_tasks g)\<rparr>"

definition task_key :: "externals \<Rightarrow> task \<Rightarrow> string" where
  "task_key x t = revocation_cache_key x (tk_claims t)"

definition log_answer :: "string \<Rightarrow> u64 \<Rightarrow> answer \<Rightarrow> (string \<times> u64 \<times> decision) list \<Rightarrow>
    (string \<times> u64 \<times> decision) list" where
  "log_answer key now a h =
     (case a of Answered (Inr revoked) \<Rightarrow> (key, now, if revoked then Deny else Allow) # h | _ \<Rightarrow> h)"

inductive gate_step :: "externals \<Rightarrow> gate \<Rightarrow> gate \<Rightarrow> bool" for x where
  gs_call: "hget (g_tasks g) i = None \<Longrightarrow>
    gate_step x g (g\<lparr>g_tasks :=
      hinsert i \<lparr>tk_claims = cl, tk_now = now, tk_phase = Looking\<rparr> (g_tasks g)\<rparr>)"
| gs_look: "hget (g_tasks g) i = Some t \<Longrightarrow> tk_phase t = Looking \<Longrightarrow>
    gate_lookup (task_key x t) (tk_now t) (g_cache g) = (out, c) \<Longrightarrow>
    gate_step x g (set_phase i t (case out of Some a \<Rightarrow> Done a | None \<Rightarrow> Acquiring) (g\<lparr>g_cache := c\<rparr>))"
| gs_acquire: "hget (g_tasks g) i = Some t \<Longrightarrow> tk_phase t = Acquiring \<Longrightarrow>
    acquire_key (task_key x t) g = (l, g') \<Longrightarrow> gate_step x g (set_phase i t (Waiting l) g')"
| gs_lock: "hget (g_tasks g) i = Some t \<Longrightarrow> tk_phase t = Waiting l \<Longrightarrow>
    \<forall>(j, t') \<in> set (g_tasks g). phase_guard (tk_phase t') \<noteq> Some l \<Longrightarrow>
    gate_step x g (set_phase i t (Locked l) g)"
| gs_look_again: "hget (g_tasks g) i = Some t \<Longrightarrow> tk_phase t = Locked l \<Longrightarrow>
    gate_lookup (task_key x t) (tk_now t) (g_cache g) = (out, c) \<Longrightarrow>
    gate_step x g (set_phase i t (case out of Some a \<Rightarrow> Releasing l a | None \<Rightarrow> Starting l)
      (g\<lparr>g_cache := c\<rparr>))"
| gs_start: "hget (g_tasks g) i = Some t \<Longrightarrow> tk_phase t = Starting l \<Longrightarrow>
    gate_step x g (case record_refresh_start (tk_now t) (g_cache g) of
        None \<Rightarrow> set_phase i t (Releasing l (Unavailable ClockRegression)) g
      | Some c \<Rightarrow> set_phase i t (Calling l) (g\<lparr>g_cache := c\<rparr>))"
| gs_answer: "hget (g_tasks g) i = Some t \<Longrightarrow> tk_phase t = Calling l \<Longrightarrow>
    finish_refresh (task_key x t) (tk_now t) a (g_cache g) = (out, c) \<Longrightarrow>
    gate_step x g (set_phase i t (Releasing l out)
      (g\<lparr>g_cache := c, g_answers := log_answer (task_key x t) (tk_now t) a (g_answers g)\<rparr>))"
| gs_release: "hget (g_tasks g) i = Some t \<Longrightarrow> tk_phase t = Releasing l out \<Longrightarrow>
    gate_step x g (set_phase i t (Dropping l out) (release_key (task_key x t) l g))"
| gs_drop: "hget (g_tasks g) i = Some t \<Longrightarrow> tk_phase t = Dropping l out \<Longrightarrow>
    gate_step x g (set_phase i t (Done out) g)"
| gs_cancel: "hget (g_tasks g) i = Some t \<Longrightarrow> tk_phase t \<in> {Waiting l, Calling l} \<Longrightarrow>
    gate_step x g (g\<lparr>g_tasks := hremove i (g_tasks g)\<rparr>)"

inductive_cases gate_step_cases: "gate_step x g g'"

section \<open>Lemmas on the cache\<close>

definition cache_inv :: "revocation_cache \<Rightarrow> bool" where
  "cache_inv c \<longleftrightarrow>
     hinvar (rc_entries c) \<and> 0 < rc_capacity c \<and>
     length (rc_entries c) \<le> unat (rc_capacity c) \<and>
     (\<forall>k e. hget (rc_entries c) k = Some e \<longrightarrow> en_observed_at e \<le> rc_high_water c)"

lemma advance_Some [result_iff]:
  "advance now c = Some c' \<longleftrightarrow> rc_high_water c \<le> now \<and> c' = c\<lparr>rc_high_water := now\<rparr>"
  by (auto simp: advance_def)

lemma advance_None [result_iff]: "advance now c = None \<longleftrightarrow> now < rc_high_water c"
  by (auto simp: advance_def)

lemma cache_inv_new: "cache_inv (cache_new budget capacity)"
  by (auto simp: cache_inv_def cache_new_def word_less_nat_alt max_def word_le_nat_alt)

lemma cache_inv_advance: "cache_inv c \<Longrightarrow> advance now c = Some c' \<Longrightarrow> cache_inv c'"
  by (auto simp: cache_inv_def advance_Some dest!: spec intro: order.trans)

lemma min_by_key_None [simp]: "min_by_key f xs = None \<longleftrightarrow> xs = []"
  by (cases xs) (auto split: option.splits)

lemma min_by_key_Some:
  "min_by_key f xs = Some m \<Longrightarrow> m \<in> set xs \<and> (\<forall>y \<in> set xs. f m \<le> f y)"
  by (induction xs arbitrary: m) (auto split: option.splits if_splits)

lemma lookup_Some:
  assumes "lookup key now c = Some (l, c')"
  shows "rc_high_water c \<le> now" "c' = c\<lparr>rc_high_water := now\<rparr>"
    "l = Fresh d \<longleftrightarrow> (\<exists>e. hget (rc_entries c) key = Some e \<and> en_decision e = d \<and>
       unat now - unat (en_observed_at e) \<le> unat (rc_budget c))"
  using assms
  by (auto simp: lookup_def result_iff word_le_nat_alt unat_saturating_sub
      split: option.splits if_splits)

text \<open>The entry an insertion evicts: none while there is room or the key is present.\<close>

definition evicted :: "string \<Rightarrow> revocation_cache \<Rightarrow> string option" where
  "evicted key c =
     (if hget (rc_entries c) key = None \<and> unat (rc_capacity c) \<le> length (rc_entries c)
      then map_option fst (min_by_key (\<lambda>(_, e). en_observed_at e) (rc_entries c)) else None)"

lemma evicted_oldest:
  assumes "hinvar (rc_entries c)" "evicted key c = Some k"
  shows "hget (rc_entries c) key = None"
    "\<exists>e. hget (rc_entries c) k = Some e \<and>
       (\<forall>k' e'. hget (rc_entries c) k' = Some e' \<longrightarrow> en_observed_at e \<le> en_observed_at e')"
proof -
  obtain e where m: "min_by_key (\<lambda>(_, e). en_observed_at e) (rc_entries c) = Some (k, e)"
    using assms(2) by (auto simp: evicted_def split: if_splits)
  show "hget (rc_entries c) key = None" using assms(2) by (auto simp: evicted_def split: if_splits)
  show "\<exists>e. hget (rc_entries c) k = Some e \<and>
       (\<forall>k' e'. hget (rc_entries c) k' = Some e' \<longrightarrow> en_observed_at e \<le> en_observed_at e')"
    using min_by_key_Some [OF m] assms(1) by (intro exI [of _ e]) (auto simp: hget_mem)
qed

lemma apply_decision_eq:
  "apply_decision key d now c =
     (if now < rc_high_water c then None
      else Some (c\<lparr>rc_high_water := now,
        rc_entries := hinsert key \<lparr>en_decision = d, en_observed_at = now\<rparr>
          (case evicted key c of Some k \<Rightarrow> hremove k (rc_entries c) | None \<Rightarrow> rc_entries c)\<rparr>))"
  by (auto simp: apply_decision_def advance_def evicted_def Let_def split: option.split)

lemma evicted_length:
  assumes "hinvar (rc_entries c)" "0 < rc_capacity c" "length (rc_entries c) \<le> unat (rc_capacity c)"
  shows "length (hinsert key v (case evicted key c of Some k \<Rightarrow> hremove k (rc_entries c)
    | None \<Rightarrow> rc_entries c)) \<le> unat (rc_capacity c)"
proof (cases "evicted key c")
  case None
  then show ?thesis
    using assms by (auto simp: hmap_simps evicted_def word_less_nat_alt split: if_splits)
next
  case (Some k)
  then obtain e where "hget (rc_entries c) key = None" "hget (rc_entries c) k = Some e"
    using evicted_oldest [of c key k] assms by auto
  then show ?thesis
    using assms Some by (auto simp: hmap_simps word_less_nat_alt)
qed

lemma cache_inv_apply:
  assumes "cache_inv c" "apply_decision key d now c = Some c'"
  shows "cache_inv c'"
proof -
  have hw: "rc_high_water c \<le> now" using assms(2) by (auto simp: apply_decision_eq split: if_splits)
  have ent: "rc_entries c' = hinsert key \<lparr>en_decision = d, en_observed_at = now\<rparr>
      (case evicted key c of Some k \<Rightarrow> hremove k (rc_entries c) | None \<Rightarrow> rc_entries c)"
    and c': "rc_capacity c' = rc_capacity c" "rc_high_water c' = now"
    using assms(2) by (auto simp: apply_decision_eq split: if_splits)
  have "en_observed_at e \<le> now" if "hget (rc_entries c') k = Some e" for k e
    using that assms(1) hw
    by (auto simp: ent hmap_simps cache_inv_def split: option.splits if_splits
        intro: order.trans)
  then show ?thesis
    using assms(1) evicted_length [of c key]
    by (auto simp: cache_inv_def c' ent hmap_simps split: option.split)
qed

interpretation rc: bounded_cache "\<lambda>c. hget (rc_entries c)"
    "\<lambda>k e c. c\<lparr>rc_entries := hinsert k e
      (case evicted k c of Some k' \<Rightarrow> hremove k' (rc_entries c) | None \<Rightarrow> rc_entries c)\<rparr>"
    "\<lambda>c. length (rc_entries c)" "\<lambda>c. unat (rc_capacity c)"
    "\<lambda>c. hinvar (rc_entries c) \<and> 0 < rc_capacity c \<and> length (rc_entries c) \<le> unat (rc_capacity c)"
proof
  fix c :: revocation_cache and k k' :: string and e :: entry
  let ?m = "case evicted k c of Some k' \<Rightarrow> hremove k' (rc_entries c) | None \<Rightarrow> rc_entries c"
  let ?inv = "\<lambda>c. hinvar (rc_entries c) \<and> 0 < rc_capacity c \<and>
      length (rc_entries c) \<le> unat (rc_capacity c)"
  let ?c = "c\<lparr>rc_entries := hinsert k e ?m\<rparr>"
  show "hget (rc_entries ?c) k = Some e" by (simp add: hmap_simps)
  show "hget (rc_entries ?c) k' = hget (rc_entries c) k' \<or> hget (rc_entries ?c) k' = None"
    if "k' \<noteq> k" using that by (auto simp: hmap_simps split: option.split)
  show "?inv ?c" if "?inv c"
  proof -
    have "hinvar (hinsert k e ?m)" using that by (auto simp: hmap_simps split: option.split)
    with that evicted_length [of c k e] show ?thesis by simp
  qed
qed simp_all

lemma gate_lookup_eq:
  "gate_lookup key now c =
     (if now < rc_high_water c then (Some (Unavailable ClockRegression), c)
      else (case hget (rc_entries c) key of
          Some e \<Rightarrow> if unat now - unat (en_observed_at e) \<le> unat (rc_budget c)
            then Some (decision_to_authorization (en_decision e)) else None
        | None \<Rightarrow> None, c\<lparr>rc_high_water := now\<rparr>))"
  by (auto simp: gate_lookup_def lookup_def advance_def word_le_nat_alt unat_saturating_sub
      split: option.split)

lemma cache_inv_lookup: "cache_inv c \<Longrightarrow> gate_lookup key now c = (out, c') \<Longrightarrow> cache_inv c'"
  by (auto simp: gate_lookup_eq result_iff split: if_splits
      intro: cache_inv_advance [where now = now])

lemma cache_inv_finish: "cache_inv c \<Longrightarrow> finish_refresh key now a c = (out, c') \<Longrightarrow> cache_inv c'"
  by (auto simp: finish_refresh_def Let_def dest: cache_inv_apply
      split: answer.splits sum.splits option.splits)

section \<open>Invariants of the gate\<close>

fun phase_active :: "phase \<Rightarrow> nat option" where
  "phase_active (Dropping _ _) = None"
| "phase_active p = phase_handle p"

fun phase_outcome :: "phase \<Rightarrow> authorization option" where
  "phase_outcome (Releasing _ a) = Some a"
| "phase_outcome (Dropping _ a) = Some a"
| "phase_outcome (Done a) = Some a"
| "phase_outcome _ = None"

text \<open>
  The lock map: a lock belongs to one key, a caller that has yet to release holds the lock
  the map has for its key, and a lock has one holder.
\<close>

definition lock_inv :: "externals \<Rightarrow> gate \<Rightarrow> bool" where
  "lock_inv x g \<longleftrightarrow>
     hinvar (g_locks g) \<and> hinvar (g_tasks g) \<and>
     (\<forall>k l. hget (g_locks g) k = Some l \<longrightarrow> l < g_next g) \<and>
     (\<forall>i t l. hget (g_tasks g) i = Some t \<longrightarrow> phase_handle (tk_phase t) = Some l \<longrightarrow> l < g_next g) \<and>
     (\<forall>k k' l. hget (g_locks g) k = Some l \<longrightarrow> hget (g_locks g) k' = Some l \<longrightarrow> k = k') \<and>
     (\<forall>i t l. hget (g_tasks g) i = Some t \<longrightarrow> phase_active (tk_phase t) = Some l \<longrightarrow>
        hget (g_locks g) (task_key x t) = Some l) \<and>
     (\<forall>i j t t' l. hget (g_tasks g) i = Some t \<longrightarrow> hget (g_tasks g) j = Some t' \<longrightarrow>
        phase_guard (tk_phase t) = Some l \<longrightarrow> phase_guard (tk_phase t') = Some l \<longrightarrow> i = j)"

text \<open>An outcome backed by an answer of the authority that is within the freshness budget.\<close>

definition backed :: "(string \<times> u64 \<times> decision) list \<Rightarrow> u64 \<Rightarrow> string \<Rightarrow> u64 \<Rightarrow> authorization \<Rightarrow> bool" where
  "backed h budget key now out \<longleftrightarrow>
     (\<forall>d. out = decision_to_authorization d \<longrightarrow>
       (\<exists>at. (key, at, d) \<in> set h \<and> at \<le> now \<and> unat now - unat at \<le> unat budget))"

definition verdict_inv :: "externals \<Rightarrow> gate \<Rightarrow> bool" where
  "verdict_inv x g \<longleftrightarrow>
     cache_inv (g_cache g) \<and>
     (\<forall>k e. hget (rc_entries (g_cache g)) k = Some e \<longrightarrow>
        (k, en_observed_at e, en_decision e) \<in> set (g_answers g)) \<and>
     (\<forall>i t out. hget (g_tasks g) i = Some t \<longrightarrow> phase_outcome (tk_phase t) = Some out \<longrightarrow>
        backed (g_answers g) (rc_budget (g_cache g)) (task_key x t) (tk_now t) out)"

lemma phase_guard_active: "phase_guard p = Some l \<Longrightarrow> phase_active p = Some l"
  by (cases p) auto

lemma phase_active_handle: "phase_active p = Some l \<Longrightarrow> phase_handle p = Some l"
  by (cases p) auto

lemma task_key_phase [simp]: "task_key x (t\<lparr>tk_phase := p\<rparr>) = task_key x t"
  by (simp add: task_key_def)

lemma set_phase_simps [simp]:
  "g_cache (set_phase i t p g) = g_cache g" "g_locks (set_phase i t p g) = g_locks g"
  "g_next (set_phase i t p g) = g_next g" "g_answers (set_phase i t p g) = g_answers g"
  "hget (g_tasks (set_phase i t p g)) j =
     (if j = i then Some (t\<lparr>tk_phase := p\<rparr>) else hget (g_tasks g) j)"
  by (auto simp: set_phase_def hmap_simps)

lemma lock_invD:
  assumes "lock_inv x g"
  shows "hinvar (g_locks g)" "hinvar (g_tasks g)"
    "hget (g_locks g) k = Some l \<Longrightarrow> l < g_next g"
    "hget (g_tasks g) i = Some t \<Longrightarrow> phase_handle (tk_phase t) = Some l \<Longrightarrow> l < g_next g"
    "hget (g_locks g) k = Some l \<Longrightarrow> hget (g_locks g) k' = Some l \<Longrightarrow> k = k'"
    "hget (g_tasks g) i = Some t \<Longrightarrow> phase_active (tk_phase t) = Some l \<Longrightarrow>
      hget (g_locks g) (task_key x t) = Some l"
    "hget (g_tasks g) i = Some t \<Longrightarrow> hget (g_tasks g) j = Some t' \<Longrightarrow>
      phase_guard (tk_phase t) = Some l \<Longrightarrow> phase_guard (tk_phase t') = Some l \<Longrightarrow> i = j"
  using assms unfolding lock_inv_def by blast+

lemma lock_invI:
  assumes "hinvar (g_locks g)" "hinvar (g_tasks g)"
    "\<And>k l. hget (g_locks g) k = Some l \<Longrightarrow> l < g_next g"
    "\<And>i t l. hget (g_tasks g) i = Some t \<Longrightarrow> phase_handle (tk_phase t) = Some l \<Longrightarrow> l < g_next g"
    "\<And>k k' l. hget (g_locks g) k = Some l \<Longrightarrow> hget (g_locks g) k' = Some l \<Longrightarrow> k = k'"
    "\<And>i t l. hget (g_tasks g) i = Some t \<Longrightarrow> phase_active (tk_phase t) = Some l \<Longrightarrow>
      hget (g_locks g) (task_key x t) = Some l"
    "\<And>i j t t' l. hget (g_tasks g) i = Some t \<Longrightarrow> hget (g_tasks g) j = Some t' \<Longrightarrow>
      phase_guard (tk_phase t) = Some l \<Longrightarrow> phase_guard (tk_phase t') = Some l \<Longrightarrow> i = j"
  shows "lock_inv x g"
  unfolding lock_inv_def by (intro conjI allI impI) (use assms in \<open>assumption | blast\<close>)+

text \<open>A step that only moves one caller on, holding no lock or \<^verbatim>\<open>Arc\<close> it did not have.\<close>

lemma lock_inv_phase:
  assumes "lock_inv x g" "hget (g_tasks g) i = Some t"
    and "\<And>l. phase_handle p = Some l \<Longrightarrow> phase_handle (tk_phase t) = Some l"
    and "\<And>l. phase_active p = Some l \<Longrightarrow> phase_active (tk_phase t) = Some l"
    and "\<And>l j t'. phase_guard p = Some l \<Longrightarrow> phase_guard (tk_phase t) \<noteq> Some l \<Longrightarrow>
      hget (g_tasks g) j = Some t' \<Longrightarrow> phase_guard (tk_phase t') \<noteq> Some l"
  shows "lock_inv x (set_phase i t p g)"
proof (rule lock_invI)
  note D = lock_invD [OF assms(1)]
  show "hinvar (g_tasks (set_phase i t p g))"
    using D(2) by (simp add: set_phase_def hmap_simps)
  show "hinvar (g_locks (set_phase i t p g))" using D(1) by simp
  show "l < g_next (set_phase i t p g)" if "hget (g_locks (set_phase i t p g)) k = Some l" for k l
    using that D(3) by simp
  show "k = k'" if "hget (g_locks (set_phase i t p g)) k = Some l"
    "hget (g_locks (set_phase i t p g)) k' = Some l" for k k' l
    using that D(5) by simp
  show "l < g_next (set_phase i t p g)" if "hget (g_tasks (set_phase i t p g)) m = Some u"
    "phase_handle (tk_phase u) = Some l" for m u l
    using that D(4) [OF assms(2)] D(4) [of m u l] assms(3) [of l] by (cases "m = i") auto
  show "hget (g_locks (set_phase i t p g)) (task_key x u) = Some l"
    if "hget (g_tasks (set_phase i t p g)) m = Some u" "phase_active (tk_phase u) = Some l" for m u l
    using that D(6) [OF assms(2)] D(6) [of m u l] assms(4) [of l] by (cases "m = i") auto
  have excl: "m = i" if "hget (g_tasks g) m = Some u" "phase_guard (tk_phase u) = Some l"
    "phase_guard p = Some l" for m u l
    using that assms(5) [of l m u] D(7) [OF _ assms(2), of m u l] by blast
  show "m = n" if "hget (g_tasks (set_phase i t p g)) m = Some u"
    "hget (g_tasks (set_phase i t p g)) n = Some v"
    "phase_guard (tk_phase u) = Some l" "phase_guard (tk_phase v) = Some l" for m n u v l
  proof (cases "m = i")
    case True
    then have "phase_guard p = Some l" using that(1,3) by auto
    then show ?thesis using True that(2,4) excl [of n v l] by (auto split: if_splits)
  next
    case False
    then have m: "hget (g_tasks g) m = Some u" using that(1) by simp
    show ?thesis
    proof (cases "n = i")
      case True
      then have "phase_guard p = Some l" using that(2,4) by auto
      then show ?thesis using True m that(3) excl [of m u l] by simp
    next
      case False
      then have "hget (g_tasks g) n = Some v" using that(2) by simp
      with m that(3,4) show ?thesis by (intro D(7))
    qed
  qed
qed

lemma lock_inv_cong:
  "g_locks g = g_locks g' \<Longrightarrow> g_next g = g_next g' \<Longrightarrow> g_tasks g = g_tasks g' \<Longrightarrow>
   lock_inv x g = lock_inv x g'"
  by (simp add: lock_inv_def)

lemma lock_inv_add_task:
  assumes "lock_inv x g" "hget (g_tasks g) i = None" "phase_handle (tk_phase t) = None"
  shows "lock_inv x (g\<lparr>g_tasks := hinsert i t (g_tasks g)\<rparr>)"
proof (rule lock_invI)
  have none: "phase_active (tk_phase t) = None" "phase_guard (tk_phase t) = None"
    using assms(3) by (cases "tk_phase t"; simp)+
  note D = lock_invD [OF assms(1)]
  let ?g = "g\<lparr>g_tasks := hinsert i t (g_tasks g)\<rparr>"
  have old: "hget (g_tasks g) j = Some u" if "hget (g_tasks ?g) j = Some u" "u \<noteq> t" for j u
    using that by (simp add: hmap_simps split: if_splits)
  show "j = k" if "hget (g_tasks ?g) j = Some u" "hget (g_tasks ?g) k = Some v"
    "phase_guard (tk_phase u) = Some l" "phase_guard (tk_phase v) = Some l" for j k u v l
    using that none old [of j u] old [of k v] D(7) [of j u k v l] by force
  show "hget (g_locks ?g) (task_key x u) = Some l" if "hget (g_tasks ?g) j = Some u"
    "phase_active (tk_phase u) = Some l" for j u l
    using that none old [of j u] D(6) [of j u l] by force
  show "l < g_next ?g" if "hget (g_tasks ?g) j = Some u" "phase_handle (tk_phase u) = Some l" for j u l
    using that assms(3) old [of j u] D(4) [of j u l] by force
qed (use lock_invD [OF assms(1)] in \<open>auto simp: hmap_simps\<close>)

lemma lock_inv_remove_task:
  assumes "lock_inv x g"
  shows "lock_inv x (g\<lparr>g_tasks := hremove i (g_tasks g)\<rparr>)"
proof (rule lock_invI)
  note D = lock_invD [OF assms]
  let ?g = "g\<lparr>g_tasks := hremove i (g_tasks g)\<rparr>"
  have old: "hget (g_tasks g) j = Some u" if "hget (g_tasks ?g) j = Some u" for j u
    using that by (simp add: hmap_simps split: if_splits)
  show "j = k" if "hget (g_tasks ?g) j = Some u" "hget (g_tasks ?g) k = Some v"
    "phase_guard (tk_phase u) = Some l" "phase_guard (tk_phase v) = Some l" for j k u v l
    using old [OF that(1)] old [OF that(2)] that(3,4) by (rule D(7))
  show "hget (g_locks ?g) (task_key x u) = Some l" if "hget (g_tasks ?g) j = Some u"
    "phase_active (tk_phase u) = Some l" for j u l
    using D(6) [OF old] that by simp
  show "l < g_next ?g" if "hget (g_tasks ?g) j = Some u" "phase_handle (tk_phase u) = Some l" for j u l
    using D(4) [OF old] that by simp
qed (use lock_invD [OF assms] in \<open>auto simp: hmap_simps\<close>)

text \<open>Taking the key's lock out of the map, or putting a new one in.\<close>

lemma lock_inv_acquire:
  assumes "lock_inv x g" "hget (g_tasks g) i = Some t" "tk_phase t = Acquiring"
    and "acquire_key (task_key x t) g = (l, g')"
  shows "lock_inv x (set_phase i t (Waiting l) g')"
proof (rule lock_invI)
  note D = lock_invD [OF assms(1)]
  let ?k = "task_key x t" and ?g = "set_phase i t (Waiting l) g'"
  have g': "g_tasks g' = g_tasks g" "hget (g_locks g') ?k = Some l" "g_next g \<le> g_next g'"
    "\<And>k. k \<noteq> ?k \<Longrightarrow> hget (g_locks g') k = hget (g_locks g) k" "hinvar (g_locks g')"
    "hget (g_locks g) ?k = Some l \<and> g_next g' = g_next g \<or>
     hget (g_locks g) ?k = None \<and> l = g_next g \<and> g_next g' = g_next g + 1"
    using assms(4) D(1) by (auto simp: acquire_key_def hmap_simps split: option.splits)
  have less: "k = ?k \<or> m < g_next g \<and> m \<noteq> l" if "hget (g_locks g') k = Some m" for k m
    using that g'(4) [of k] g'(6) D(3) [of k m] D(5) [of k m ?k] by auto
  show "hinvar (g_locks ?g)" "hinvar (g_tasks ?g)"
    using g'(1,5) D(2) by (simp_all add: set_phase_def hmap_simps)
  have l: "l < g_next g'" using g'(6) D(3) by auto
  then show "m < g_next ?g" if "hget (g_locks ?g) k = Some m" for k m
    using that less [of k m] g'(2,3) by auto
  show "k = k'" if "hget (g_locks ?g) k = Some m" "hget (g_locks ?g) k' = Some m" for k k' m
    using that less [of k m] less [of k' m] g'(2) g'(4) [of k] g'(4) [of k'] D(5) [of k m k']
    by (cases "k = ?k"; cases "k' = ?k") auto
  show "m < g_next ?g" if "hget (g_tasks ?g) j = Some u" "phase_handle (tk_phase u) = Some m" for j u m
  proof (cases "j = i")
    case False
    then have "hget (g_tasks g) j = Some u" using that(1) by (simp add: g'(1))
    then show ?thesis using D(4) [of j u m] that(2) g'(3) by simp
  qed (use that l in auto)
  show "hget (g_locks ?g) (task_key x u) = Some m"
    if "hget (g_tasks ?g) j = Some u" "phase_active (tk_phase u) = Some m" for j u m
  proof (cases "j = i")
    case False
    then have "hget (g_tasks g) j = Some u" using that(1) by (simp add: g'(1))
    then have "hget (g_locks g) (task_key x u) = Some m" using that(2) by (rule D(6))
    then show ?thesis using g'(2,6) g'(4) [of "task_key x u"] by (cases "task_key x u = ?k") auto
  qed (use that g'(2) in auto)
  show "j = k" if "hget (g_tasks ?g) j = Some u" "hget (g_tasks ?g) k = Some v"
    "phase_guard (tk_phase u) = Some m" "phase_guard (tk_phase v) = Some m" for j k u v m
  proof -
    have "j \<noteq> i" "k \<noteq> i" using that by auto
    then have "hget (g_tasks g) j = Some u" "hget (g_tasks g) k = Some v"
      using that(1,2) by (simp_all add: g'(1))
    then show ?thesis using that(3,4) by (rule D(7))
  qed
qed

lemma two_members_filter:
  "hinvar m \<Longrightarrow> hget m i = Some u \<Longrightarrow> hget m j = Some v \<Longrightarrow> i \<noteq> j \<Longrightarrow> P u \<Longrightarrow> P v \<Longrightarrow>
   2 \<le> length (filter (\<lambda>(_, t). P t) m)"
proof -
  assume a: "hinvar m" "hget m i = Some u" "hget m j = Some v" "i \<noteq> j" "P u" "P v"
  have "card {(i, u), (j, v)} \<le> card (set (filter (\<lambda>(_, t). P t) m))"
    using a by (intro card_mono) (auto simp: hget_mem)
  also have "\<dots> \<le> length (filter (\<lambda>(_, t). P t) m)" by (rule card_length)
  finally show ?thesis using a(4) by simp
qed

text \<open>
  A removal at the end of \<^verbatim>\<open>release_key\<close> happens only when no other caller of the key holds
  its lock's \<^verbatim>\<open>Arc\<close>.
\<close>

lemma release_key_last:
  assumes "lock_inv x g" "hget (g_tasks g) i = Some t" "phase_active (tk_phase t) = Some l"
    and "strong_count l g \<le> 2" "hget (g_tasks g) j = Some u" "phase_active (tk_phase u) = Some m"
    and "task_key x u = task_key x t"
  shows "j = i"
proof (rule ccontr)
  note D = lock_invD [OF assms(1)]
  assume "j \<noteq> i"
  have k: "hget (g_locks g) (task_key x t) = Some l" by (rule D(6) [OF assms(2,3)])
  have m: "m = l" using D(6) [OF assms(5,6)] assms(7) k by simp
  have "2 \<le> length (filter (\<lambda>(_, t). phase_handle (tk_phase t) = Some l) (g_tasks g))"
    using D(2) assms(5,2) \<open>j \<noteq> i\<close> assms(6,3) m
    by (intro two_members_filter [of "g_tasks g" j u i t "\<lambda>t. phase_handle (tk_phase t) = Some l"])
      (auto intro: phase_active_handle)
  moreover have "(task_key x t, l) \<in> set (filter (\<lambda>(_, l'). l' = l) (g_locks g))"
    using k D(1) by (simp add: hget_mem)
  then have "1 \<le> length (filter (\<lambda>(_, l'). l' = l) (g_locks g))"
    by (metis Suc_leI One_nat_def length_pos_if_in_set)
  ultimately show False using assms(4) by (simp add: strong_count_def)
qed

lemma lock_inv_release:
  assumes "lock_inv x g" "hget (g_tasks g) i = Some t" "tk_phase t = Releasing l out"
  shows "lock_inv x (set_phase i t (Dropping l out) (release_key (task_key x t) l g))"
proof (cases "strong_count l g \<le> 2")
  case False
  then have "release_key (task_key x t) l g = g" by (simp add: release_key_def)
  then show ?thesis using assms by (auto intro!: lock_inv_phase)
next
  case True
  note D = lock_invD [OF assms(1)]
  let ?k = "task_key x t"
  let ?h = "set_phase i t (Dropping l out) g" and ?r = "set_phase i t (Dropping l out) (release_key ?k l g)"
  have h: "lock_inv x ?h" using assms by (auto intro!: lock_inv_phase)
  note H = lock_invD [OF h]
  have r: "?r = ?h\<lparr>g_locks := hremove ?k (g_locks g)\<rparr>"
    using True by (simp add: release_key_def set_phase_def)
  have tasks: "g_tasks ?r = g_tasks ?h" "g_next ?r = g_next ?h" by (simp_all add: r)
  have locks: "hget (g_locks ?r) k = (if k = ?k then None else hget (g_locks g) k)" for k
    by (simp add: r hmap_simps)
  show ?thesis
  proof (rule lock_invI)
    show "hinvar (g_locks ?r)" using D(1) by (simp add: r hmap_simps)
    show "hinvar (g_tasks ?r)" using H(2) by (simp add: tasks)
    show "m < g_next ?r" if "hget (g_locks ?r) k = Some m" for k m
      using that locks [of k] D(3) [of k m] tasks(2)
      by (simp split: if_splits del: set_phase_simps(2))
    show "k = k'" if "hget (g_locks ?r) k = Some m" "hget (g_locks ?r) k' = Some m" for k k' m
      using that locks [of k] locks [of k'] D(5) [of k m k']
      by (simp split: if_splits del: set_phase_simps(2))
    show "m < g_next ?r" if "hget (g_tasks ?r) j = Some u" "phase_handle (tk_phase u) = Some m" for j u m
      using that H(4) unfolding tasks by blast
    show "hget (g_locks ?r) (task_key x u) = Some m"
      if "hget (g_tasks ?r) j = Some u" "phase_active (tk_phase u) = Some m" for j u m
    proof -
      have "j \<noteq> i" using that by (auto simp: tasks)
      then have u: "hget (g_tasks g) j = Some u" using that(1) by (simp add: tasks)
      then have "hget (g_locks g) (task_key x u) = Some m" using that(2) by (rule D(6))
      moreover have "task_key x u \<noteq> ?k"
        using release_key_last [OF assms(1,2) _ True u that(2)] assms(3) \<open>j \<noteq> i\<close> by auto
      ultimately show ?thesis using locks [of "task_key x u"] by (simp del: set_phase_simps(2))
    qed
    show "j = n" if "hget (g_tasks ?r) j = Some u" "hget (g_tasks ?r) n = Some v"
      "phase_guard (tk_phase u) = Some m" "phase_guard (tk_phase v) = Some m" for j n u v m
      using that H(7) unfolding tasks by blast
  qed
qed

lemma lock_inv_step:
  assumes "lock_inv x g" "gate_step x g g'"
  shows "lock_inv x g'"
  using assms(2)
proof cases
  case (gs_call i cl now)
  then show ?thesis using assms(1) by (simp add: lock_inv_add_task)
next
  case (gs_look i t out c)
  have "lock_inv x (g\<lparr>g_cache := c\<rparr>)" using assms(1) by (simp add: lock_inv_def)
  then show ?thesis using gs_look by (auto intro!: lock_inv_phase split: option.split)
next
  case (gs_acquire i t l g')
  then show ?thesis using assms(1) by (simp add: lock_inv_acquire)
next
  case (gs_lock i t l)
  have "phase_guard (tk_phase u) \<noteq> Some l" if "hget (g_tasks g) j = Some u" for j u
    using gs_lock(4) that by (auto dest: map_of_SomeD)
  then show ?thesis using assms(1) gs_lock by (auto intro!: lock_inv_phase)
next
  case (gs_look_again i t l out c)
  have "lock_inv x (g\<lparr>g_cache := c\<rparr>)" using assms(1) by (simp add: lock_inv_def)
  then show ?thesis using gs_look_again by (auto intro!: lock_inv_phase split: option.splits)
next
  case (gs_start i t l)
  have "lock_inv x (g\<lparr>g_cache := c\<rparr>)" for c using assms(1) by (simp add: lock_inv_def)
  then show ?thesis using assms(1) gs_start by (auto intro!: lock_inv_phase split: option.split)
next
  case (gs_answer i t l a out c)
  let ?g = "g\<lparr>g_cache := c, g_answers := log_answer (task_key x t) (tk_now t) a (g_answers g)\<rparr>"
  have "lock_inv x ?g" using assms(1) by (simp add: lock_inv_def)
  then show ?thesis using gs_answer by (auto intro!: lock_inv_phase)
next
  case (gs_release i t l out)
  then show ?thesis using assms(1) by (simp add: lock_inv_release)
next
  case (gs_drop i t l out)
  then show ?thesis using assms(1) by (auto intro!: lock_inv_phase)
next
  case (gs_cancel i t l)
  then show ?thesis using assms(1) by (simp add: lock_inv_remove_task)
qed

lemma backed_mono: "backed h b k now out \<Longrightarrow> set h \<subseteq> set h' \<Longrightarrow> backed h' b k now out"
  unfolding backed_def by blast

lemma decision_to_authorization_eq [simp]:
  "Allowed = decision_to_authorization d \<longleftrightarrow> d = Allow"
  "Revoked = decision_to_authorization d \<longleftrightarrow> d = Deny"
  "Unavailable u \<noteq> decision_to_authorization d"
  "decision_to_authorization d = Allowed \<longleftrightarrow> d = Allow"
  "decision_to_authorization d = Revoked \<longleftrightarrow> d = Deny"
  by (cases d; simp)+

lemma backed_unavailable [simp]: "backed h b k now (Unavailable u)"
  by (simp add: backed_def)

lemma backed_decided [simp]:
  "backed h b k now Allowed \<longleftrightarrow> (\<exists>at. (k, at, Allow) \<in> set h \<and> at \<le> now \<and> unat now - unat at \<le> unat b)"
  "backed h b k now Revoked \<longleftrightarrow> (\<exists>at. (k, at, Deny) \<in> set h \<and> at \<le> now \<and> unat now - unat at \<le> unat b)"
  by (simp_all add: backed_def)

text \<open>What the cache holds was answered; what it decides is backed.\<close>

definition entries_backed :: "(string \<times> u64 \<times> decision) list \<Rightarrow> revocation_cache \<Rightarrow> bool" where
  "entries_backed h c \<longleftrightarrow>
     (\<forall>k e. hget (rc_entries c) k = Some e \<longrightarrow> (k, en_observed_at e, en_decision e) \<in> set h)"

lemma decision_to_authorization_inj:
  "decision_to_authorization d = decision_to_authorization d' \<longleftrightarrow> d = d'"
  by (cases d; cases d') auto

lemma gate_lookup_backed:
  assumes "cache_inv c" "entries_backed h c" "gate_lookup key now c = (out, c')"
  shows "cache_inv c'" "entries_backed h c'" "rc_budget c' = rc_budget c"
    "out = Some a \<Longrightarrow> backed h (rc_budget c) key now a"
proof -
  show "cache_inv c'" using assms(1,3) by (rule cache_inv_lookup)
  show "entries_backed h c'" "rc_budget c' = rc_budget c"
    using assms(2,3) by (auto simp: gate_lookup_eq entries_backed_def split: if_splits)
  show "backed h (rc_budget c) key now a" if out: "out = Some a"
  proof (cases "now < rc_high_water c")
    case False
    then obtain e where e: "hget (rc_entries c) key = Some e"
      "unat now - unat (en_observed_at e) \<le> unat (rc_budget c)"
      "a = decision_to_authorization (en_decision e)"
      using assms(3) out by (auto simp: gate_lookup_eq split: option.splits if_splits)
    moreover have "en_observed_at e \<le> now"
      using assms(1) e(1) False unfolding cache_inv_def not_less by (metis order.trans)
    ultimately show ?thesis
      using assms(2) by (auto simp: backed_def entries_backed_def decision_to_authorization_inj)
  qed (use assms(3) out in \<open>auto simp: gate_lookup_eq\<close>)
qed

lemma finish_refresh_backed:
  assumes "cache_inv c" "entries_backed h c" "finish_refresh key now a c = (out, c')"
  shows "cache_inv c'" "entries_backed (log_answer key now a h) c'" "rc_budget c' = rc_budget c"
    "backed (log_answer key now a h) (rc_budget c) key now out"
proof -
  show "cache_inv c'" using assms(1,3) by (rule cache_inv_finish)
  have hinv: "hinvar (rc_entries c)" using assms(1) by (simp add: cache_inv_def)
  show "entries_backed (log_answer key now a h) c'" "rc_budget c' = rc_budget c"
    "backed (log_answer key now a h) (rc_budget c) key now out"
    using assms(2,3)
    by (auto simp: finish_refresh_def apply_decision_eq entries_backed_def log_answer_def Let_def
        hmap_simps
        split: answer.splits sum.splits if_splits option.splits)
qed

lemma verdict_inv_entries: "verdict_inv x g \<Longrightarrow> entries_backed (g_answers g) (g_cache g)"
  by (simp add: verdict_inv_def entries_backed_def)

lemma verdict_inv_move:
  assumes "verdict_inv x g" "hget (g_tasks g) i = Some t"
    and "cache_inv c" "entries_backed h c" "rc_budget c = rc_budget (g_cache g)"
    and "set (g_answers g) \<subseteq> set h"
    and "\<And>out. phase_outcome p = Some out \<Longrightarrow> backed h (rc_budget c) (task_key x t) (tk_now t) out"
  shows "verdict_inv x (set_phase i t p (g\<lparr>g_cache := c, g_answers := h\<rparr>))"
proof -
  have "backed h (rc_budget (g_cache g)) (task_key x u) (tk_now u) out"
    if "hget (g_tasks g) j = Some u" "phase_outcome (tk_phase u) = Some out" for j u out
    using that assms(1) backed_mono [OF _ assms(6)] unfolding verdict_inv_def by blast
  then show ?thesis
    using assms(3-5,7) by (auto simp: verdict_inv_def entries_backed_def)
qed

lemma verdict_inv_step:
  assumes "verdict_inv x g" "gate_step x g g'"
  shows "verdict_inv x g'"
  using assms(2)
proof cases
  note inv = assms(1) verdict_inv_entries [OF assms(1)]
  have cache: "cache_inv (g_cache g)" using assms(1) by (simp add: verdict_inv_def)
  note move = verdict_inv_move [OF assms(1)]
  { case (gs_call i cl now)
    then show ?thesis using assms(1) by (auto simp: verdict_inv_def hmap_simps)
  next
    case (gs_look i t out c)
    note L = gate_lookup_backed [OF cache inv(2) gs_look(4)]
    show ?thesis
      unfolding gs_look(1) using L(3,4)
      by (cases out) (auto intro!: move [OF gs_look(2) L(1-3) order.refl, simplified])
  next
    case (gs_acquire i t l g1)
    then have "g_cache g1 = g_cache g" "g_answers g1 = g_answers g" "g_tasks g1 = g_tasks g"
      by (auto simp: acquire_key_def split: option.splits)
    then show ?thesis using assms(1) gs_acquire by (auto simp: verdict_inv_def)
  next
    case (gs_lock i t l)
    then show ?thesis using assms(1) by (auto simp: verdict_inv_def)
  next
    case (gs_look_again i t l out c)
    note L = gate_lookup_backed [OF cache inv(2) gs_look_again(4)]
    show ?thesis
      unfolding gs_look_again(1) using L(3,4)
      by (cases out) (auto intro!: move [OF gs_look_again(2) L(1-3) order.refl, simplified])
  next
    case (gs_start i t l)
    have "verdict_inv x (set_phase i t (Calling l) (g\<lparr>g_cache := c\<rparr>))"
      if "record_refresh_start (tk_now t) (g_cache g) = Some c" for c
      using that assms(1) cache_inv_advance [OF cache]
      by (auto simp: record_refresh_start_def result_iff verdict_inv_def)
    then show ?thesis using assms(1) gs_start
      by (auto simp: verdict_inv_def split: option.split)
  next
    case (gs_answer i t l a out c)
    note L = finish_refresh_backed [OF cache inv(2) gs_answer(4)]
    have "set (g_answers g) \<subseteq> set (log_answer (task_key x t) (tk_now t) a (g_answers g))"
      by (auto simp: log_answer_def split: answer.split sum.split)
    from move [OF gs_answer(2) L(1-3) this, of "Releasing l out"] L(3,4) show ?thesis
      by (simp add: gs_answer(1))
  next
    case (gs_release i t l out)
    then show ?thesis using assms(1) by (auto simp: verdict_inv_def release_key_def)
  next
    case (gs_drop i t l out)
    then show ?thesis using assms(1) by (auto simp: verdict_inv_def)
  next
    case (gs_cancel i t l)
    then show ?thesis using assms(1) by (auto simp: verdict_inv_def hmap_simps) }
qed

definition gate_init :: "gate \<Rightarrow> bool" where
  "gate_init g \<longleftrightarrow> (\<exists>budget capacity. g = gate_new budget capacity)"

lemma gate_new_inv:
  "lock_inv x (gate_new budget capacity) \<and> verdict_inv x (gate_new budget capacity)"
  using cache_inv_new [of budget capacity]
  by (simp add: lock_inv_def verdict_inv_def gate_new_def) (simp add: cache_new_def)

interpretation gt: inductive_invariant gate_init "gate_step x" "\<lambda>g. lock_inv x g \<and> verdict_inv x g" for x
  by unfold_locales
    (auto simp: gate_init_def gate_new_inv intro: lock_inv_step verdict_inv_step)

section \<open>Framing of the cache key\<close>

lemma length_be_bytes [simp]: "length (be_bytes n) = 8"
  by (simp add: be_bytes_def)

lemma be_bytes_inj: "be_bytes n = be_bytes m \<longleftrightarrow> n = m"
proof
  assume eq: "be_bytes n = be_bytes m"
  have byte: "(ucast (drop_bit (56 - 8 * i) n) :: byte) = ucast (drop_bit (56 - 8 * i) m)" if "i < 8" for i
    using arg_cong [OF eq, of "\<lambda>bs. bs ! i"] that by (simp add: be_bytes_def)
  show "n = m"
  proof (rule bit_word_eqI)
    fix b assume "b < LENGTH(64)"
    then have "b = 8 * (b div 8) + b mod 8 \<and> b div 8 < 8 \<and> b mod 8 < 8" by auto
    then obtain q r where b: "b = 8 * q + r" "q < 8" "r < 8" by blast
    have "56 - 8 * (7 - q) = 8 * q" using b(2) by arith
    with byte [of "7 - q"] have
      "bit (ucast (drop_bit (8 * q) n) :: byte) r = bit (ucast (drop_bit (8 * q) m) :: byte) r"
      by simp
    then show "bit n b = bit m b"
      using b by (simp add: bit_ucast_iff bit_drop_bit_eq)
  qed
qed simp

lemma framed_inj:
  assumes "length f < 2 ^ 64" "length f' < 2 ^ 64"
    and "be_bytes (of_nat (length f)) @ as_bytes f @ r = be_bytes (of_nat (length f')) @ as_bytes f' @ r'"
  shows "f = f' \<and> r = r'"
proof -
  have "be_bytes (of_nat (length f)) = be_bytes (of_nat (length f'))"
    and rest: "as_bytes f @ r = as_bytes f' @ r'"
    using assms(3) by (simp_all add: append_eq_append_conv)
  then have "(of_nat (length f) :: u64) = of_nat (length f')" by (simp add: be_bytes_inj)
  then have "unat (of_nat (length f) :: u64) = unat (of_nat (length f') :: u64)" by simp
  then have "length f = length f'" using assms(1,2) by (simp add: unat_of_nat take_bit_nat_eq_self)
  then have "as_bytes f = as_bytes f'" "r = r'" using rest by (simp_all add: append_eq_append_conv)
  then show ?thesis by (metis of_bytes_as_bytes)
qed

lemma framed_fields_inj:
  assumes "length fs = length gs" "\<forall>f \<in> set fs \<union> set gs. length f < 2 ^ 64"
    and "concat (map (\<lambda>f. be_bytes (of_nat (length f)) @ as_bytes f) fs) =
      concat (map (\<lambda>f. be_bytes (of_nat (length f)) @ as_bytes f) gs)"
  shows "fs = gs"
  using assms
proof (induction fs gs rule: list_induct2)
  case (Cons f fs g gs)
  have "be_bytes (of_nat (length f)) @ as_bytes f @
      concat (map (\<lambda>f. be_bytes (of_nat (length f)) @ as_bytes f) fs) =
    be_bytes (of_nat (length g)) @ as_bytes g @
      concat (map (\<lambda>f. be_bytes (of_nat (length f)) @ as_bytes f) gs)"
    using Cons.prems(2) by (simp only: list.map concat.simps append_assoc)
  from framed_inj [OF _ _ this] Cons.prems(1) have "f = g \<and>
      concat (map (\<lambda>f. be_bytes (of_nat (length f)) @ as_bytes f) fs) =
      concat (map (\<lambda>f. be_bytes (of_nat (length f)) @ as_bytes f) gs)"
    by (meson UnCI list.set_intros(1))
  moreover have "\<forall>f \<in> set fs \<union> set gs. length f < 2 ^ 64"
    using Cons.prems(1) by (meson Un_iff list.set_intros(2))
  ultimately show ?case using Cons.IH by blast
qed simp

section \<open>Properties\<close>

text \<open>
  C9: the gate fails closed. However callers interleave, time out, are cancelled or find the
  lock map emptied, a caller is told \<^verbatim>\<open>Allowed\<close> only if the authority answered "not revoked"
  for its cache key at a time within the freshness budget before the caller's own clock
  reading, and \<^verbatim>\<open>Revoked\<close> only on such an answer "revoked"; nothing else allows.
\<close>

theorem gate_fails_closed:
  assumes "reachable gate_init (gate_step x) g" "hget (g_tasks g) i = Some t"
    and "phase_outcome (tk_phase t) = Some (decision_to_authorization d)"
  shows "\<exists>at. (revocation_cache_key x (tk_claims t), at, d) \<in> set (g_answers g) \<and>
    at \<le> tk_now t \<and> unat (tk_now t) - unat at \<le> unat (rc_budget (g_cache g))"
proof -
  have "verdict_inv x g" using gt.reachable_inv [OF assms(1)] by simp
  then have "backed (g_answers g) (rc_budget (g_cache g)) (task_key x t) (tk_now t)
      (decision_to_authorization d)"
    using assms(2,3) unfolding verdict_inv_def by blast
  then show ?thesis unfolding backed_def task_key_def by blast
qed

text \<open>
  C27: single flight. At any time at most one caller per cache key is between taking the key's
  lock and leaving the authority call, although entries of the lock map come and go.
\<close>

theorem single_flight_per_key:
  assumes "reachable gate_init (gate_step x) g"
    and "hget (g_tasks g) i = Some t" "phase_guard (tk_phase t) \<noteq> None"
    and "hget (g_tasks g) j = Some t'" "phase_guard (tk_phase t') \<noteq> None"
    and "revocation_cache_key x (tk_claims t) = revocation_cache_key x (tk_claims t')"
  shows "i = j"
proof -
  have inv: "lock_inv x g" using gt.reachable_inv [OF assms(1)] by simp
  obtain l l' where l: "phase_guard (tk_phase t) = Some l" "phase_guard (tk_phase t') = Some l'"
    using assms(3,5) by auto
  then have "hget (g_locks g) (task_key x t) = Some l" "hget (g_locks g) (task_key x t') = Some l'"
    using lock_invD(6) [OF inv] assms(2,4) by (auto intro: phase_guard_active)
  then have "l = l'" using assms(6) by (simp add: task_key_def)
  then show ?thesis using lock_invD(7) [OF inv assms(2,4)] l by blast
qed

text \<open>
  The cache stays within its capacity, and no entry is dated after the high-water mark,
  in every reachable state of the gate; so a clock that went back never finds an entry fresh.
\<close>

lemma revocation_cache_bounded:
  assumes "reachable gate_init (gate_step x) g"
  shows "length (rc_entries (g_cache g)) \<le> unat (rc_capacity (g_cache g)) \<and>
    distinct (map fst (rc_entries (g_cache g))) \<and>
    (\<forall>(k, e) \<in> set (rc_entries (g_cache g)). en_observed_at e \<le> rc_high_water (g_cache g))"
proof -
  have "cache_inv (g_cache g)"
    using gt.reachable_inv [OF assms] by (simp add: verdict_inv_def)
  then show ?thesis by (auto simp: cache_inv_def hinvar_def)
qed

text \<open>
  Applying a decision. With a clock behind the high-water mark nothing is stored. Otherwise
  the decision becomes the key's entry, dated now, and at most one other entry is lost: only
  when the key is new and the cache full, and then one no younger entry of the cache is older than.
\<close>

lemma apply_decision_evicts_oldest:
  assumes "cache_inv c"
  shows "case apply_decision key d now c of
      None \<Rightarrow> now < rc_high_water c
    | Some c' \<Rightarrow> rc_high_water c \<le> now \<and> rc_high_water c' = now \<and>
        hget (rc_entries c') key = Some \<lparr>en_decision = d, en_observed_at = now\<rparr> \<and>
        (\<forall>k. k \<noteq> key \<longrightarrow> hget (rc_entries c') k = hget (rc_entries c) k \<or>
           hget (rc_entries c') k = None \<and> hget (rc_entries c) key = None \<and>
           length (rc_entries c) = unat (rc_capacity c) \<and> length (rc_entries c') = length (rc_entries c) \<and>
           (\<forall>k' e e'. hget (rc_entries c) k = Some e \<longrightarrow> hget (rc_entries c) k' = Some e' \<longrightarrow>
              en_observed_at e \<le> en_observed_at e'))"
proof (cases "now < rc_high_water c")
  case False
  have hinv: "hinvar (rc_entries c)" using assms by (simp add: cache_inv_def)
  show ?thesis
  proof (cases "evicted key c")
    case None
    then show ?thesis using False by (simp add: apply_decision_eq hmap_simps not_less)
  next
    case (Some k)
    have full: "length (rc_entries c) = unat (rc_capacity c)"
      using Some assms by (auto simp: evicted_def cache_inv_def split: if_splits)
    obtain e where e: "hget (rc_entries c) k = Some e"
      "\<And>k' e'. hget (rc_entries c) k' = Some e' \<Longrightarrow> en_observed_at e \<le> en_observed_at e'"
      and new: "hget (rc_entries c) key = None"
      using evicted_oldest [OF hinv Some] by blast
    have "0 < length (rc_entries c)" using e(1) by (cases "rc_entries c") auto
    then have "length (hinsert key v (hremove k (rc_entries c))) = length (rc_entries c)" for v
      using hinv e(1) new by (simp add: hmap_simps)
    then show ?thesis using False Some full e new by (auto simp: apply_decision_eq hmap_simps)
  qed
qed (simp add: apply_decision_eq)

text \<open>
  The verdict of one call, on every branch. A clock behind the high-water mark is
  unavailable; a decision within the budget is final without asking; otherwise only the
  authority's answer decides, and a timeout or an error of the authority is unavailable and
  leaves the stored decisions as they were.
\<close>

lemma authorize_verdict:
  "fst (authorize x cl now a c) =
     (if now < rc_high_water c then Unavailable ClockRegression
      else case hget (rc_entries c) (revocation_cache_key x cl) of
        Some e \<Rightarrow>
          if unat now - unat (en_observed_at e) \<le> unat (rc_budget c)
          then decision_to_authorization (en_decision e)
          else (case a of TimedOut \<Rightarrow> Unavailable RefreshTimedOut
            | Answered (Inl _) \<Rightarrow> Unavailable RefreshFailed
            | Answered (Inr revoked) \<Rightarrow> if revoked then Revoked else Allowed)
      | None \<Rightarrow> (case a of TimedOut \<Rightarrow> Unavailable RefreshTimedOut
            | Answered (Inl _) \<Rightarrow> Unavailable RefreshFailed
            | Answered (Inr revoked) \<Rightarrow> if revoked then Revoked else Allowed)) \<and>
   (fst (authorize x cl now a c) \<in> range Unavailable \<longrightarrow>
      rc_entries (snd (authorize x cl now a c)) = rc_entries c)"
  by (auto simp: authorize_def gate_lookup_eq Let_def refresh_def record_refresh_start_def advance_def
      finish_refresh_def apply_decision_eq split: option.split answer.split sum.split)

text \<open>
  C29: what counts as an authoritative answer. \<^verbatim>\<open>check_revocation\<close> says "not revoked" or
  "revoked" only with a configured reader secret, a success status, a complete body of at most
  16 KiB that parses, and a consistent decision: "revoked" with its target, generation and an
  expiry in the future, "not revoked" with none of them.
\<close>

theorem check_revocation_authoritative:
  "check_revocation send parse secret cl now = Inr b \<longleftrightarrow>
     (\<exists>s status body d. secret = Some s \<and> send s cl = Some (status, Some body) \<and>
        is_success status \<and> length body \<le> 16384 \<and> parse body = Some d \<and> wd_revoked d = b \<and>
        (if b then wd_matched_target d \<noteq> None \<and> wd_generation d \<noteq> None \<and>
             (\<exists>e. wd_expires_at d = Some e \<and> now < e)
         else wd_matched_target d = None \<and> wd_generation d = None \<and> wd_expires_at d = None))"
  by (auto simp: check_revocation_def validate_wire_decision_def max_response_bytes_def not_le not_less
      split: option.splits if_splits sum.splits prod.splits)

text \<open>
  C36: the cache key separates identities. Where SHA-256 does not collide on the two framed
  inputs, two tokens share a cache entry exactly if issuer, audience, organisation, subject and
  token ID all agree: the length framing admits no confusion of the five fields.
\<close>

theorem revocation_key_separates:
  assumes "\<forall>f \<in> {cl_iss, cl_aud, cl_org_id, cl_sub, cl_jti}.
      length (f cl) < 2 ^ 64 \<and> length (f cl') < 2 ^ 64"
    and "x_sha256 x (key_preimage cl) = x_sha256 x (key_preimage cl') \<Longrightarrow>
      key_preimage cl = key_preimage cl'"
  shows "revocation_cache_key x cl = revocation_cache_key x cl' \<longleftrightarrow>
    cl_iss cl = cl_iss cl' \<and> cl_aud cl = cl_aud cl' \<and> cl_org_id cl = cl_org_id cl' \<and>
    cl_sub cl = cl_sub cl' \<and> cl_jti cl = cl_jti cl'"
proof
  assume "revocation_cache_key x cl = revocation_cache_key x cl'"
  then have "key_preimage cl = key_preimage cl'"
    by (intro assms(2)) (simp add: revocation_cache_key_def format_hex_inj)
  then have "[cl_iss cl, cl_aud cl, cl_org_id cl, cl_sub cl, cl_jti cl] =
      [cl_iss cl', cl_aud cl', cl_org_id cl', cl_sub cl', cl_jti cl']"
    using assms(1) unfolding key_preimage_def by (intro framed_fields_inj) auto
  then show "cl_iss cl = cl_iss cl' \<and> cl_aud cl = cl_aud cl' \<and> cl_org_id cl = cl_org_id cl' \<and>
    cl_sub cl = cl_sub cl' \<and> cl_jti cl = cl_jti cl'" by simp
qed (simp add: revocation_cache_key_def key_preimage_def)

section \<open>A concrete run, and the witnesses\<close>

text \<open>
  The steps of a gate that, while the greatest clock reading is \<^term>\<open>now\<close>, does not evict the
  entry of one key (theory \<open>Burst\<close>). The runs below take no other steps.
\<close>

definition keeping_step :: "externals \<Rightarrow> string \<Rightarrow> u64 \<Rightarrow> gate \<Rightarrow> gate \<Rightarrow> bool" where
  "keeping_step x key now g g' \<longleftrightarrow>
     gate_step x g g' \<and>
     (rc_high_water (g_cache g) = now \<longrightarrow> rc_high_water (g_cache g') = now \<longrightarrow>
      hget (rc_entries (g_cache g)) key \<noteq> None \<longrightarrow> hget (rc_entries (g_cache g')) key \<noteq> None)"

lemma keeping_reachable:
  "reachable gate_init (keeping_step x key now) g \<Longrightarrow> reachable gate_init (gate_step x) g"
  by (induction rule: reachable.induct) (auto simp: keeping_step_def intro: reach_init reach_step)

text \<open>
  Two callers of one key. The hash is constant, so that all keys are the empty string, the
  budget is 60 seconds, and both clocks read 5.
\<close>

definition sample_x :: externals where
  "sample_x = sample_externals\<lparr>x_sha256 := (\<lambda>_. [])\<rparr>"

definition sample_claims :: claims where
  "sample_claims = \<lparr>cl_sub = ''s'', cl_org_id = ''o'', cl_scopes = [], cl_iss = ''i'', cl_aud = ''a'',
     cl_iat = 0, cl_exp = 9, cl_jti = ''j''\<rparr>"

definition sample_task :: "phase \<Rightarrow> task" where
  "sample_task p = \<lparr>tk_claims = sample_claims, tk_now = 5, tk_phase = p\<rparr>"

definition sample_cache :: "(string, entry) hmap \<Rightarrow> u64 \<Rightarrow> revocation_cache" where
  "sample_cache es hw = \<lparr>rc_entries = es, rc_high_water = hw, rc_budget = 60, rc_capacity = 10\<rparr>"

definition sample_gate :: "phase list \<Rightarrow> bool \<Rightarrow> bool \<Rightarrow> bool \<Rightarrow> gate" where
  "sample_gate ps looked locked answered =
     \<lparr>g_cache = sample_cache
        (if answered then [([], \<lparr>en_decision = Allow, en_observed_at = 5\<rparr>)] else [])
        (if looked then 5 else 0),
      g_locks = (if locked then [([], 0)] else []), g_next = (if locked then 1 else 0),
      g_tasks = zip [0 ..< length ps] (map sample_task ps),
      g_answers = (if answered then [([], 5, Allow)] else [])\<rparr>"

lemma sample_key [simp]: "task_key sample_x t = []" "revocation_cache_key sample_x cl = []"
  by (simp_all add: task_key_def revocation_cache_key_def sample_x_def format_hex_def)

lemmas sample_defs = sample_gate_def sample_task_def sample_cache_def set_phase_def hinsert_def
  gate_lookup_eq acquire_key_def record_refresh_start_def advance_def finish_refresh_def
  apply_decision_eq evicted_def log_answer_def release_key_def strong_count_def Let_def
  upt_conv_Cons

lemma sample_step:
  "reachable gate_init (keeping_step sample_x [] 5) (sample_gate ps l k a) \<Longrightarrow>
   gate_step sample_x (sample_gate ps l k a) (sample_gate ps' l' k' a') \<Longrightarrow> (a \<longrightarrow> a') \<Longrightarrow>
   reachable gate_init (keeping_step sample_x [] 5) (sample_gate ps' l' k' a')"
  by (erule reach_step) (auto simp: keeping_step_def sample_gate_def sample_cache_def)

lemma sample_kept_locked:
  "reachable gate_init (keeping_step sample_x [] 5) (sample_gate [Locked 0, Waiting 0] True True False)"
proof -
  let ?R = "reachable gate_init (keeping_step sample_x [] 5)"
  have "gate_new 60 10 = sample_gate [] False False False"
    by (simp add: gate_new_def cache_new_def sample_defs max_def word_le_nat_alt)
  then have "?R (sample_gate [] False False False)"
    by (intro reach_init) (metis gate_init_def)
  then have "?R (sample_gate [Looking] False False False)"
    by (rule sample_step) (use gs_call [of "sample_gate [] False False False" 0 sample_x sample_claims 5] in \<open>simp_all add: sample_defs\<close>)
  then have "?R (sample_gate [Looking, Looking] False False False)"
    by (rule sample_step) (use gs_call [of "sample_gate [Looking] False False False" 1 sample_x sample_claims 5] in \<open>simp_all add: sample_defs\<close>)
  then have "?R (sample_gate [Acquiring, Looking] True False False)"
    by (rule sample_step) (use gs_look [of "sample_gate [Looking, Looking] False False False" 0 "sample_task Looking" sample_x] in \<open>simp_all add: sample_defs\<close>)
  then have "?R (sample_gate [Acquiring, Acquiring] True False False)"
    by (rule sample_step) (use gs_look [of "sample_gate [Acquiring, Looking] True False False" 1 "sample_task Looking" sample_x] in \<open>simp_all add: sample_defs\<close>)
  then have "?R (sample_gate [Waiting 0, Acquiring] True True False)"
    by (rule sample_step) (use gs_acquire [of "sample_gate [Acquiring, Acquiring] True False False" 0 "sample_task Acquiring" sample_x] in \<open>simp_all add: sample_defs\<close>)
  then have "?R (sample_gate [Waiting 0, Waiting 0] True True False)"
    by (rule sample_step) (use gs_acquire [of "sample_gate [Waiting 0, Acquiring] True True False" 1 "sample_task Acquiring" sample_x] in \<open>simp_all add: sample_defs\<close>)
  then show ?thesis
    by (rule sample_step) (use gs_lock [of "sample_gate [Waiting 0, Waiting 0] True True False" 0 "sample_task (Waiting 0)" 0 sample_x] in \<open>simp_all add: sample_defs\<close>)
qed

lemma sample_kept_calling:
  "reachable gate_init (keeping_step sample_x [] 5) (sample_gate [Calling 0, Waiting 0] True True False)"
proof -
  let ?R = "reachable gate_init (keeping_step sample_x [] 5)"
  note sample_kept_locked
  then have "?R (sample_gate [Starting 0, Waiting 0] True True False)"
    by (rule sample_step)
      (use gs_look_again [of "sample_gate [Locked 0, Waiting 0] True True False" 0 "sample_task (Locked 0)" 0 sample_x] in \<open>simp_all add: sample_defs\<close>)
  then show ?thesis
    by (rule sample_step)
      (use gs_start [of "sample_gate [Starting 0, Waiting 0] True True False" 0 "sample_task (Starting 0)" 0 sample_x] in \<open>simp_all add: sample_defs\<close>)
qed

lemma sample_kept_done:
  "reachable gate_init (keeping_step sample_x [] 5) (sample_gate [Done Allowed, Done Allowed] True True True)"
proof -
  let ?R = "reachable gate_init (keeping_step sample_x [] 5)"
  note sample_kept_calling
  then have "?R (sample_gate [Releasing 0 Allowed, Waiting 0] True True True)"
    by (rule sample_step)
      (use gs_answer [of "sample_gate [Calling 0, Waiting 0] True True False" 0 "sample_task (Calling 0)" 0 sample_x "Answered (Inr False)"] in \<open>simp_all add: sample_defs\<close>)
  then have "?R (sample_gate [Dropping 0 Allowed, Waiting 0] True True True)"
    by (rule sample_step)
      (use gs_release [of "sample_gate [Releasing 0 Allowed, Waiting 0] True True True" 0 "sample_task (Releasing 0 Allowed)" 0 Allowed sample_x] in \<open>simp_all add: sample_defs\<close>)
  then have "?R (sample_gate [Dropping 0 Allowed, Locked 0] True True True)"
    by (rule sample_step)
      (use gs_lock [of "sample_gate [Dropping 0 Allowed, Waiting 0] True True True" 1 "sample_task (Waiting 0)" 0 sample_x] in \<open>simp_all add: sample_defs\<close>)
  then have "?R (sample_gate [Dropping 0 Allowed, Releasing 0 Allowed] True True True)"
    by (rule sample_step)
      (use gs_look_again [of "sample_gate [Dropping 0 Allowed, Locked 0] True True True" 1 "sample_task (Locked 0)" 0 sample_x] in \<open>simp_all add: sample_defs\<close>)
  then have "?R (sample_gate [Dropping 0 Allowed, Dropping 0 Allowed] True True True)"
    by (rule sample_step)
      (use gs_release [of "sample_gate [Dropping 0 Allowed, Releasing 0 Allowed] True True True" 1 "sample_task (Releasing 0 Allowed)" 0 Allowed sample_x] in \<open>simp_all add: sample_defs\<close>)
  then have "?R (sample_gate [Done Allowed, Dropping 0 Allowed] True True True)"
    by (rule sample_step)
      (use gs_drop [of "sample_gate [Dropping 0 Allowed, Dropping 0 Allowed] True True True" 0 "sample_task (Dropping 0 Allowed)" 0 Allowed sample_x] in \<open>simp_all add: sample_defs\<close>)
  then show ?thesis
    by (rule sample_step)
      (use gs_drop [of "sample_gate [Done Allowed, Dropping 0 Allowed] True True True" 1 "sample_task (Dropping 0 Allowed)" 0 Allowed sample_x] in \<open>simp_all add: sample_defs\<close>)
qed

lemmas sample_run_locked = keeping_reachable [OF sample_kept_locked]
lemmas sample_run_calling = keeping_reachable [OF sample_kept_calling]
lemmas sample_run_done = keeping_reachable [OF sample_kept_done]

text \<open>
  What the interleaving model shows about \<^verbatim>\<open>release_key\<close>: the lock map can keep an entry
  that no caller uses. Two callers of one key, neither cancelled, both finish \<^verbatim>\<open>Allowed\<close>; the
  second counts the first one's \<^verbatim>\<open>Arc\<close>, which is dropped only after the map's mutex, and so
  neither removes the lock. (A later call of the same key removes it again.)
\<close>

lemma released_lock_can_remain:
  "\<exists>g. reachable gate_init (gate_step sample_x) g \<and> length (g_tasks g) = 2 \<and>
     list_all (\<lambda>(_, t). tk_phase t = Done Allowed) (g_tasks g) \<and> length (g_locks g) = 1"
  using sample_run_done
  by (intro exI [of _ "sample_gate [Done Allowed, Done Allowed] True True True"])
    (simp add: sample_defs)

text \<open>
  What it shows about the clock. The greatest reading is shared by all keys, and a caller reads
  the clock before it takes any lock: while one caller waits for the authority, the lookup of a
  caller with a later reading, of whatever key, is enough to have the answer refused. The
  caller whose answer is refused is told \<open>ClockRegression\<close>, nothing is stored, and no clock
  went back.
\<close>

lemma later_lookup_drops_answer:
  assumes "hget (g_tasks g) i = Some t" "tk_phase t = Calling l"
    and "hget (g_tasks g) j = Some u" "tk_phase u = Looking"
    and "tk_now t < tk_now u" "rc_high_water (g_cache g) \<le> tk_now u"
  shows "\<exists>g1 g2. gate_step x g g1 \<and> gate_step x g1 g2 \<and>
    hget (g_tasks g2) i = Some (t\<lparr>tk_phase := Releasing l (Unavailable ClockRegression)\<rparr>) \<and>
    (\<forall>k. map_option tk_now (hget (g_tasks g2) k) = map_option tk_now (hget (g_tasks g) k)) \<and>
    rc_entries (g_cache g2) = rc_entries (g_cache g) \<and>
    g_answers g2 = (task_key x t, tk_now t, if revoked then Deny else Allow) # g_answers g"
proof -
  obtain out c where look: "gate_lookup (task_key x u) (tk_now u) (g_cache g) = (out, c)"
    by fastforce
  then have c: "c = g_cache g\<lparr>rc_high_water := tk_now u\<rparr>"
    using assms(6) by (auto simp: gate_lookup_eq split: option.splits if_splits)
  let ?g1 = "set_phase j u (case out of Some a \<Rightarrow> Done a | None \<Rightarrow> Acquiring) (g\<lparr>g_cache := c\<rparr>)"
  have t: "hget (g_tasks ?g1) i = Some t"
    using assms(1-4) by (auto simp: set_phase_def hmap_simps)
  have fin: "finish_refresh (task_key x t) (tk_now t) (Answered (Inr revoked)) (g_cache ?g1) =
      (Unavailable ClockRegression, c)"
    using assms(5) by (simp add: finish_refresh_def apply_decision_eq Let_def set_phase_def c)
  show ?thesis
    using gs_look [OF assms(3,4) look] gs_answer [OF t assms(2) fin] assms(1-4)
    by (intro exI [of _ ?g1] exI conjI) (assumption | auto simp: set_phase_def hmap_simps log_answer_def c)+
qed

text \<open>
  It happens with a clock that never goes back: two callers start at 5, a third at 6, and the
  first one, whose token the authority allows, is answered \<open>ClockRegression\<close>.
\<close>

lemma monotone_clock_refused:
  "\<exists>g. reachable gate_init (gate_step sample_x) g \<and>
     map (\<lambda>k. map_option tk_now (hget (g_tasks g) k)) [0, 1, 2] = [Some 5, Some 5, Some 6] \<and>
     map_option tk_phase (hget (g_tasks g) 0) = Some (Releasing 0 (Unavailable ClockRegression)) \<and>
     g_answers g = [([], 5, Allow)] \<and> rc_entries (g_cache g) = []"
proof -
  let ?R = "reachable gate_init (gate_step sample_x)"
  let ?g = "sample_gate [Calling 0, Waiting 0] True True False"
  let ?g' = "?g\<lparr>g_tasks := hinsert 2 \<lparr>tk_claims = sample_claims, tk_now = 6, tk_phase = Looking\<rparr> (g_tasks ?g)\<rparr>"
  have r: "?R ?g'"
    by (rule reach_step [OF sample_run_calling]) (rule gs_call, simp add: sample_defs)
  obtain g1 g2 where steps: "gate_step sample_x ?g' g1" "gate_step sample_x g1 g2"
    and "hget (g_tasks g2) 0 = Some (sample_task (Releasing 0 (Unavailable ClockRegression)))"
      "\<forall>k. map_option tk_now (hget (g_tasks g2) k) = map_option tk_now (hget (g_tasks ?g') k)"
      "rc_entries (g_cache g2) = []" "g_answers g2 = [([], 5, Allow)]"
    using later_lookup_drops_answer [of ?g' 0 "sample_task (Calling 0)" 0 2
        "\<lparr>tk_claims = sample_claims, tk_now = 6, tk_phase = Looking\<rparr>" sample_x False]
    by (auto simp: sample_defs)
  then show ?thesis
    using reach_step [OF reach_step [OF r steps(1)] steps(2)]
    by (intro exI [of _ g2]) (simp add: sample_defs)
qed

theorem gate_fails_closed_witness:
  "\<exists>at. (revocation_cache_key sample_x sample_claims, at, Allow) \<in> set [([], 5, Allow)] \<and>
     at \<le> 5 \<and> unat (5 :: u64) - unat at \<le> 60"
  using gate_fails_closed [OF sample_run_done, of 1 "sample_task (Done Allowed)" Allow]
  by (simp add: sample_defs)

theorem single_flight_per_key_witness:
  "hget (g_tasks (sample_gate [Locked 0, Waiting 0] True True False)) 0 = Some (sample_task (Locked 0)) \<and>
   phase_guard (tk_phase (the (hget (g_tasks (sample_gate [Locked 0, Waiting 0] True True False)) 1))) = None"
  using single_flight_per_key [OF sample_run_locked, of 0 "sample_task (Locked 0)" 1 "sample_task (Waiting 0)"]
  by (simp add: sample_defs)

theorem revocation_key_separates_witness:
  "revocation_cache_key sample_externals sample_claims \<noteq>
   revocation_cache_key sample_externals (sample_claims\<lparr>cl_jti := ''k''\<rparr>)"
  using revocation_key_separates
    [of sample_claims "sample_claims\<lparr>cl_jti := ''k''\<rparr>" sample_externals]
  by (simp add: sample_claims_def sample_externals_def)

end
