(* ===== verification/Burst.thy ===== *)
theory Burst
  imports Revocation
begin

text \<open>
  A burst of callers at the gate of theory \<open>Revocation\<close>: the callers with one cache key whose
  clocks read one second, among callers of any other keys and seconds, after any history,
  interleaved in any way, timed out or cancelled. It is the situation the per-key locks of
  \<^verbatim>\<open>revocation.rs\<close> are for. The one thing it needs of the cache is that it does not
  evict the key's entry in that second (\<open>keeping_step\<close>): a full cache of other tokens may, and then
  the next caller has to ask again.
\<close>

section \<open>What is known of one key at one second\<close>

text \<open>The phases in which a caller has decided to ask, or is asking, the authority.\<close>

fun asking :: "phase \<Rightarrow> bool" where
  "asking (Starting _) = True"
| "asking (Calling _) = True"
| "asking _ = False"

definition asked_at :: "externals \<Rightarrow> string \<Rightarrow> u64 \<Rightarrow> gate \<Rightarrow> bool" where
  "asked_at x key now g \<longleftrightarrow>
     (\<exists>i t. hget (g_tasks g) i = Some t \<and> task_key x t = key \<and> tk_now t = now \<and> asking (tk_phase t))"

definition answers_at :: "string \<Rightarrow> u64 \<Rightarrow> gate \<Rightarrow> decision list" where
  "answers_at key now g = map (\<lambda>(_, _, d). d) (filter (\<lambda>(k, n, _). k = key \<and> n = now) (g_answers g))"

definition told_at :: "externals \<Rightarrow> string \<Rightarrow> u64 \<Rightarrow> gate \<Rightarrow> decision \<Rightarrow> bool" where
  "told_at x key now g d \<longleftrightarrow>
     (\<exists>i t. hget (g_tasks g) i = Some t \<and> task_key x t = key \<and> tk_now t = now \<and>
        phase_outcome (tk_phase t) = Some (decision_to_authorization d))"

text \<open>A decision that a caller of the key and second was told, or that the authority gave one.\<close>

definition heard_at :: "externals \<Rightarrow> string \<Rightarrow> u64 \<Rightarrow> gate \<Rightarrow> decision \<Rightarrow> bool" where
  "heard_at x key now g d \<longleftrightarrow> told_at x key now g d \<or> d \<in> set (answers_at key now g)"

definition fresh_at :: "string \<Rightarrow> u64 \<Rightarrow> revocation_cache \<Rightarrow> decision \<Rightarrow> bool" where
  "fresh_at key now c d \<longleftrightarrow>
     (\<exists>e. hget (rc_entries c) key = Some e \<and> en_decision e = d \<and>
        unat now - unat (en_observed_at e) \<le> unat (rc_budget c))"

text \<open>
  The invariant of a key and a second: what was heard is what the cache says, unless the clock
  has moved on; all that was heard agrees; at most one answer was given; and while a caller
  asks, nothing was heard and the cache has nothing to say.
\<close>

definition burst_inv :: "externals \<Rightarrow> string \<Rightarrow> u64 \<Rightarrow> gate \<Rightarrow> bool" where
  "burst_inv x key now g \<longleftrightarrow>
     (\<forall>d. heard_at x key now g d \<longrightarrow> now \<le> rc_high_water (g_cache g) \<and>
        (now = rc_high_water (g_cache g) \<longrightarrow> fresh_at key now (g_cache g) d)) \<and>
     (\<forall>d d'. heard_at x key now g d \<longrightarrow> heard_at x key now g d' \<longrightarrow> d = d') \<and>
     length (answers_at key now g) \<le> 1 \<and>
     (asked_at x key now g \<longrightarrow>
        (\<forall>d. \<not> heard_at x key now g d \<and> \<not> fresh_at key now (g_cache g) d))"

lemma fresh_at_unique: "fresh_at key now c d \<Longrightarrow> fresh_at key now c d' \<Longrightarrow> d = d'"
  by (auto simp: fresh_at_def)

lemma lookup_at:
  assumes "gate_lookup key now c = (out, c')"
  shows "rc_high_water c \<le> rc_high_water c'" "fresh_at k n c' d = fresh_at k n c d"
    "out = Some (decision_to_authorization d) \<Longrightarrow> rc_high_water c \<le> now \<and> rc_high_water c' = now \<and> fresh_at key now c d"
    "out = None \<Longrightarrow> rc_high_water c \<le> now \<and> \<not> fresh_at key now c d"
  using assms
  by (auto simp: gate_lookup_eq fresh_at_def not_less decision_to_authorization_inj
      split: if_splits option.splits)

text \<open>
  A step after which a caller of the key and second is told what the cache says, or starts to
  ask because it says nothing, and that gives no answer to one.
\<close>

lemma burst_inv_quiet:
  assumes "burst_inv x key now g" "rc_high_water (g_cache g) \<le> rc_high_water (g_cache g')"
    and "\<And>d. fresh_at key now (g_cache g') d \<Longrightarrow> fresh_at key now (g_cache g) d"
    and "\<And>d. rc_high_water (g_cache g) = now \<Longrightarrow> rc_high_water (g_cache g') = now \<Longrightarrow>
      fresh_at key now (g_cache g) d \<Longrightarrow> fresh_at key now (g_cache g') d"
    and "answers_at key now g' = answers_at key now g"
    and told: "\<And>d. told_at x key now g' d \<Longrightarrow> told_at x key now g d \<or>
      rc_high_water (g_cache g) \<le> now \<and> rc_high_water (g_cache g') = now \<and> fresh_at key now (g_cache g') d"
    and ask: "asked_at x key now g' \<Longrightarrow> asked_at x key now g \<or>
      rc_high_water (g_cache g) \<le> now \<and> (\<forall>d. \<not> fresh_at key now (g_cache g) d)"
  shows "burst_inv x key now g'"
proof -
  let ?H = "rc_high_water (g_cache g)" and ?H' = "rc_high_water (g_cache g')"
  have I: "now \<le> ?H" "now = ?H \<Longrightarrow> fresh_at key now (g_cache g) d" if "heard_at x key now g d" for d
    using that assms(1) unfolding burst_inv_def by blast+
  have one: "d = d'" if "heard_at x key now g d" "heard_at x key now g d'" for d d'
    using that assms(1) unfolding burst_inv_def by blast
  have heard: "heard_at x key now g d \<or> ?H \<le> now \<and> ?H' = now \<and> fresh_at key now (g_cache g') d"
    if "heard_at x key now g' d" for d
    using that told [of d] assms(5) by (auto simp: heard_at_def)
  have old: "now \<le> ?H' \<and> (now = ?H' \<longrightarrow> fresh_at key now (g_cache g') d)"
    if o: "heard_at x key now g d" for d
  proof (intro conjI impI)
    show "now \<le> ?H'" using I(1) [OF o] assms(2) by (rule order.trans)
    show "fresh_at key now (g_cache g') d" if h: "now = ?H'"
    proof -
      have "now = ?H" using I(1) [OF o] assms(2) h by (metis order.antisym)
      then show ?thesis using I(2) [OF o] assms(4) [of d] h by simp
    qed
  qed
  have known: "now \<le> ?H' \<and> (now = ?H' \<longrightarrow> fresh_at key now (g_cache g') d)"
    if "heard_at x key now g' d" for d
    using heard [OF that] old [of d] by auto
  show ?thesis
    unfolding burst_inv_def
  proof (intro conjI allI impI)
    fix d d'
    assume h: "heard_at x key now g' d" "heard_at x key now g' d'"
    show "d = d'"
    proof (cases "?H' = now")
      case True
      then show ?thesis using known [OF h(1)] known [OF h(2)] by (auto intro: fresh_at_unique)
    next
      case False
      then show ?thesis using heard [OF h(1)] heard [OF h(2)] by (auto intro: one)
    qed
  next
    fix d
    assume "asked_at x key now g'"
    then consider "asked_at x key now g" | "?H \<le> now" "\<And>d. \<not> fresh_at key now (g_cache g) d"
      using ask by blast
    then have quiet: "\<not> fresh_at key now (g_cache g) d \<and> \<not> heard_at x key now g d" for d
    proof cases
      case 1
      then show ?thesis using assms(1) unfolding burst_inv_def by blast
    next
      case 2
      then show ?thesis using I [of d] by (metis order.antisym)
    qed
    then show "\<not> fresh_at key now (g_cache g') d" using assms(3) by blast
    then show "\<not> heard_at x key now g' d" using quiet heard [of d] by blast
  next
    show "length (answers_at key now g') \<le> 1"
      using assms(1,5) unfolding burst_inv_def by simp
  qed (use known in auto)
qed

lemma told_at_set_phase:
  "told_at x key now (set_phase i t p g) d \<longleftrightarrow>
     task_key x t = key \<and> tk_now t = now \<and> phase_outcome p = Some (decision_to_authorization d) \<or>
     (\<exists>j u. j \<noteq> i \<and> hget (g_tasks g) j = Some u \<and> task_key x u = key \<and> tk_now u = now \<and>
        phase_outcome (tk_phase u) = Some (decision_to_authorization d))"
  unfolding told_at_def by (auto split: if_splits)

lemma asked_at_set_phase:
  "asked_at x key now (set_phase i t p g) \<longleftrightarrow>
     task_key x t = key \<and> tk_now t = now \<and> asking p \<or>
     (\<exists>j u. j \<noteq> i \<and> hget (g_tasks g) j = Some u \<and> task_key x u = key \<and> tk_now u = now \<and>
        asking (tk_phase u))"
  unfolding asked_at_def by (auto split: if_splits)

lemma answers_at_set_phase [simp]: "answers_at key now (set_phase i t p g) = answers_at key now g"
  by (simp add: answers_at_def)

text \<open>Such a step by a caller that moves on to phase \<^term>\<open>p\<close>.\<close>

lemma burst_inv_move:
  assumes "burst_inv x key now g" "hget (g_tasks g) i = Some t" "g_tasks g0 = g_tasks g"
    and "answers_at key now g0 = answers_at key now g"
    and "rc_high_water (g_cache g) \<le> rc_high_water (g_cache g0)"
    and "\<And>d. fresh_at key now (g_cache g0) d \<Longrightarrow> fresh_at key now (g_cache g) d"
    and "\<And>d. rc_high_water (g_cache g) = now \<Longrightarrow> rc_high_water (g_cache g0) = now \<Longrightarrow>
      fresh_at key now (g_cache g) d \<Longrightarrow> fresh_at key now (g_cache g0) d"
    and "\<And>d. task_key x t = key \<Longrightarrow> tk_now t = now \<Longrightarrow> phase_outcome p = Some (decision_to_authorization d) \<Longrightarrow>
      phase_outcome (tk_phase t) = phase_outcome p \<or>
      rc_high_water (g_cache g) \<le> now \<and> rc_high_water (g_cache g0) = now \<and> fresh_at key now (g_cache g0) d"
    and "task_key x t = key \<Longrightarrow> tk_now t = now \<Longrightarrow> asking p \<Longrightarrow> asking (tk_phase t) \<or>
      rc_high_water (g_cache g) \<le> now \<and> (\<forall>d. \<not> fresh_at key now (g_cache g) d)"
  shows "burst_inv x key now (set_phase i t p g0)"
proof (rule burst_inv_quiet [OF assms(1)])
  show "told_at x key now g d \<or> rc_high_water (g_cache g) \<le> now \<and>
      rc_high_water (g_cache (set_phase i t p g0)) = now \<and> fresh_at key now (g_cache (set_phase i t p g0)) d"
    if "told_at x key now (set_phase i t p g0) d" for d
    using that assms(2,3) assms(8) [of d] unfolding told_at_set_phase told_at_def [of x key now g]
    by auto
  show "asked_at x key now g \<or> rc_high_water (g_cache g) \<le> now \<and> (\<forall>d. \<not> fresh_at key now (g_cache g) d)"
    if "asked_at x key now (set_phase i t p g0)"
    using that assms(2,3,9) unfolding asked_at_set_phase asked_at_def [of x key now g] by auto
qed (use assms in auto)

text \<open>Only one caller of a key asks.\<close>

lemma asking_guard: "asking p \<Longrightarrow> phase_guard p \<noteq> None"
  by (cases p) auto

lemma asking_alone:
  assumes "lock_inv x g" "hget (g_tasks g) i = Some t" "asking (tk_phase t)"
    and "hget (g_tasks g) j = Some u" "asking (tk_phase u)" "task_key x u = task_key x t"
  shows "j = i"
proof -
  note D = lock_invD [OF assms(1)]
  obtain l l' where l: "phase_guard (tk_phase t) = Some l" "phase_guard (tk_phase u) = Some l'"
    using asking_guard assms(3,5) by blast
  have "hget (g_locks g) (task_key x t) = Some l" "hget (g_locks g) (task_key x u) = Some l'"
    using D(6) assms(2,4) l by (auto intro: phase_guard_active)
  then show ?thesis using D(7) [OF assms(4,2)] l assms(6) by auto
qed

text \<open>The authority answers the caller that asks.\<close>

lemma finish_at:
  assumes "finish_refresh k n (Answered (Inr revoked)) c = (out, c')"
  defines "d \<equiv> if revoked then Deny else Allow"
  shows "n < rc_high_water c \<Longrightarrow> out = Unavailable ClockRegression \<and> c' = c"
    "\<not> n < rc_high_water c \<Longrightarrow> out = decision_to_authorization d \<and> rc_high_water c' = n \<and>
       rc_budget c' = rc_budget c \<and> hget (rc_entries c') k = Some \<lparr>en_decision = d, en_observed_at = n\<rparr> \<and>
       (\<forall>key. key \<noteq> k \<longrightarrow> hget (rc_entries c') key = hget (rc_entries c) key \<or> hget (rc_entries c') key = None)"
  using assms
  by (auto simp: finish_refresh_def apply_decision_eq Let_def hmap_simps split: option.splits if_splits)

lemma finish_other:
  assumes "\<nexists>revoked. a = Answered (Inr revoked)" "finish_refresh k n a c = (out, c')"
  shows "c' = c" "out \<noteq> decision_to_authorization d" "log_answer k n a h = h"
  using assms by (auto simp: finish_refresh_def log_answer_def split: answer.splits sum.splits)

lemma answers_at_log:
  "answers_at key now (g\<lparr>g_cache := c, g_answers := log_answer k n (Answered (Inr revoked)) (g_answers g)\<rparr>) =
     (if k = key \<and> n = now then [if revoked then Deny else Allow] else []) @ answers_at key now g"
  by (simp add: answers_at_def log_answer_def)

lemma burst_inv_answer:
  assumes inv: "burst_inv x key now g" and lock: "lock_inv x g"
    and t: "hget (g_tasks g) i = Some t" "tk_phase t = Calling l"
    and fin: "finish_refresh (task_key x t) (tk_now t) a (g_cache g) = (out, c)"
    and kept: "rc_high_water (g_cache g) = now \<Longrightarrow> rc_high_water c = now \<Longrightarrow>
      hget (rc_entries (g_cache g)) key \<noteq> None \<Longrightarrow> hget (rc_entries c) key \<noteq> None"
  shows "burst_inv x key now (set_phase i t (Releasing l out)
    (g\<lparr>g_cache := c, g_answers := log_answer (task_key x t) (tk_now t) a (g_answers g)\<rparr>))"
proof -
  let ?k = "task_key x t" and ?n = "tk_now t" and ?H = "rc_high_water (g_cache g)"
  let ?g0 = "g\<lparr>g_cache := c, g_answers := log_answer ?k ?n a (g_answers g)\<rparr>"
  let ?g' = "set_phase i t (Releasing l out) ?g0"
  have ans: "answers_at key now ?g' = answers_at key now ?g0" by simp
  show ?thesis
  proof (cases "\<exists>revoked. a = Answered (Inr revoked)")
    case False
    then show ?thesis
      using finish_other [OF False fin] inv t
      by (intro burst_inv_move) (auto simp: answers_at_def)
  next
    case True
    then obtain revoked where a: "a = Answered (Inr revoked)" by blast
    let ?d = "if revoked then Deny else Allow"
    note fin = finish_at [OF fin [unfolded a]]
    have asked: "\<not> asked_at x key now ?g'" if "?k = key"
    proof
      assume "asked_at x key now ?g'"
      then obtain j u where "j \<noteq> i" "hget (g_tasks g) j = Some u" "task_key x u = key" "asking (tk_phase u)"
        unfolding asked_at_set_phase by auto
      with asking_alone [OF lock t(1) _ this(2)] t(2) \<open>?k = key\<close> show False by simp
    qed
    consider (own) "?k = key" "?n = now" | (dropped) "\<not> (?k = key \<and> ?n = now)" "?n < ?H"
      | (other) "?k \<noteq> key" "\<not> ?n < ?H" | (time) "?k = key" "?n \<noteq> now" "\<not> ?n < ?H" by blast
    then show ?thesis
    proof cases
      case own
      have none: "\<not> heard_at x key now g d" for d
        using inv own t unfolding burst_inv_def asked_at_def by (metis asking.simps(2))
      have "answers_at key now g = []" using none unfolding heard_at_def by (cases "answers_at key now g") auto
      then have "answers_at key now ?g' = [?d]" using own by (simp add: a answers_at_log)
      moreover have "d = ?d" if "told_at x key now ?g' d" for d
      proof -
        have "out = decision_to_authorization d"
          using that none [of d] unfolding told_at_set_phase heard_at_def told_at_def [of x key now g]
          by auto
        then show ?thesis using fin by (cases "?n < ?H") (auto simp: decision_to_authorization_inj)
      qed
      moreover have "now \<le> rc_high_water c \<and> (now = rc_high_water c \<longrightarrow> fresh_at key now c ?d)"
        using fin own by (cases "?n < ?H") (auto simp: fresh_at_def)
      ultimately show ?thesis
        using asked own unfolding burst_inv_def heard_at_def by auto
    next
      case dropped
      then show ?thesis
        using fin(1) inv t by (intro burst_inv_move) (auto simp: a answers_at_def log_answer_def)
    next
      case other
      then have e: "hget (rc_entries c) key = hget (rc_entries (g_cache g)) key \<or> hget (rc_entries c) key = None"
        and c: "?H \<le> rc_high_water c" "rc_budget c = rc_budget (g_cache g)"
          "out = decision_to_authorization ?d"
        using fin(2) by auto
      have down: "fresh_at key now (g_cache g) d" if "fresh_at key now c d" for d
        using that e c(2) by (auto simp: fresh_at_def)
      have up: "fresh_at key now c d" if "fresh_at key now (g_cache g) d"
        "?H = now" "rc_high_water c = now" for d
        using that e c(2) kept by (auto simp: fresh_at_def)
      show ?thesis
        by (rule burst_inv_move [OF inv t(1)])
          (use other(1) c(1) down up in \<open>simp_all add: a answers_at_def log_answer_def\<close>)
    next
      case time
      have told: "told_at x key now g d" if "told_at x key now ?g' d" for d
        using that time unfolding told_at_set_phase told_at_def [of x key now g] by auto
      have "heard_at x key now g d" if "heard_at x key now ?g' d" for d
        using that told time by (auto simp: heard_at_def a answers_at_log)
      moreover have "now \<le> rc_high_water c \<and> now \<noteq> rc_high_water c" if "heard_at x key now g d" for d
      proof -
        have "now \<le> ?H" using inv that unfolding burst_inv_def by blast
        then show ?thesis using fin(2) time by auto
      qed
      ultimately show ?thesis
        using asked time inv unfolding burst_inv_def by (auto simp: a answers_at_log)
    qed
  qed
qed

lemma burst_inv_look:
  assumes "burst_inv x key now g" "hget (g_tasks g) i = Some t"
    and "gate_lookup (task_key x t) (tk_now t) (g_cache g) = (out, c)"
    and "\<And>a. out = Some a \<Longrightarrow> phase_outcome p = Some a" "out = None \<Longrightarrow> phase_outcome p = None"
    and "asking p \<Longrightarrow> out = None"
  shows "burst_inv x key now (set_phase i t p (g\<lparr>g_cache := c\<rparr>))"
proof (rule burst_inv_move [OF assms(1,2)])
  note L = lookup_at [OF assms(3)]
  show "phase_outcome (tk_phase t) = phase_outcome p \<or> rc_high_water (g_cache g) \<le> now \<and>
      rc_high_water (g_cache (g\<lparr>g_cache := c\<rparr>)) = now \<and> fresh_at key now (g_cache (g\<lparr>g_cache := c\<rparr>)) d"
    if "task_key x t = key" "tk_now t = now" "phase_outcome p = Some (decision_to_authorization d)" for d
    using that L(2) L(3) [of d] assms(4,5) by (cases out) auto
  show "asking (tk_phase t) \<or> rc_high_water (g_cache g) \<le> now \<and> (\<forall>d. \<not> fresh_at key now (g_cache g) d)"
    if "task_key x t = key" "tk_now t = now" "asking p"
    using that L(4) assms(6) by auto
qed (use lookup_at [OF assms(3)] in \<open>auto simp: answers_at_def\<close>)

lemma burst_inv_step:
  assumes inv: "burst_inv x key now g" and lock: "lock_inv x g" and step: "keeping_step x key now g g'"
  shows "burst_inv x key now g'"
proof -
  have "gate_step x g g'" using step by (simp add: keeping_step_def)
  then show ?thesis
  proof cases
    case (gs_call i cl now')
    show ?thesis
      unfolding gs_call(1)
      by (rule burst_inv_quiet [OF inv])
        (auto simp: told_at_def asked_at_def answers_at_def hmap_simps split: if_splits)
  next
    case (gs_look i t out c)
    show ?thesis
      unfolding gs_look(1)
      by (rule burst_inv_look [OF inv gs_look(2,4)]) (auto split: option.splits)
  next
    case (gs_acquire i t l g1)
    then have "g_tasks g1 = g_tasks g" "g_cache g1 = g_cache g" "answers_at key now g1 = answers_at key now g"
      by (auto simp: acquire_key_def answers_at_def split: option.splits)
    then show ?thesis
      unfolding gs_acquire(1) by (intro burst_inv_move [OF inv gs_acquire(2)]) simp_all
  next
    case (gs_lock i t l)
    show ?thesis unfolding gs_lock(1) by (rule burst_inv_move [OF inv gs_lock(2)]) simp_all
  next
    case (gs_look_again i t l out c)
    show ?thesis
      unfolding gs_look_again(1)
      by (rule burst_inv_look [OF inv gs_look_again(2,4)]) (auto split: option.splits)
  next
    case (gs_start i t l)
    show ?thesis
    proof (cases "record_refresh_start (tk_now t) (g_cache g)")
      case None
      show ?thesis
        unfolding gs_start(1) None by simp (rule burst_inv_move [OF inv gs_start(2)], simp_all)
    next
      case (Some c)
      then have "rc_high_water (g_cache g) \<le> rc_high_water c" "\<And>d. fresh_at key now c d = fresh_at key now (g_cache g) d"
        by (auto simp: record_refresh_start_def result_iff fresh_at_def)
      then show ?thesis
        unfolding gs_start(1) Some by simp
          (rule burst_inv_move [OF inv gs_start(2)], simp_all add: gs_start(3) answers_at_def)
    qed
  next
    case (gs_answer i t l a out c)
    show ?thesis
      unfolding gs_answer(1)
      by (rule burst_inv_answer [OF inv lock gs_answer(2-4)])
        (use step gs_answer(1) in \<open>simp add: keeping_step_def\<close>)
  next
    case (gs_release i t l out)
    have "g_tasks (release_key k l g) = g_tasks g" "g_cache (release_key k l g) = g_cache g"
      "answers_at key now (release_key k l g) = answers_at key now g" for k
      by (simp_all add: release_key_def answers_at_def)
    then show ?thesis
      unfolding gs_release(1) by (intro burst_inv_move [OF inv gs_release(2)]) (simp_all add: gs_release(3))
  next
    case (gs_drop i t l out)
    show ?thesis
      unfolding gs_drop(1) by (rule burst_inv_move [OF inv gs_drop(2)]) (simp_all add: gs_drop(3))
  next
    case (gs_cancel i t l)
    show ?thesis
      unfolding gs_cancel(1)
      by (rule burst_inv_quiet [OF inv])
        (use lock_invD(2) [OF lock] in \<open>auto simp: told_at_def asked_at_def answers_at_def hmap_simps split: if_splits\<close>)
  qed
qed

interpretation bu: inductive_invariant gate_init "keeping_step x key now"
  "\<lambda>g. (lock_inv x g \<and> verdict_inv x g) \<and> burst_inv x key now g" for x key now
proof
  fix g g'
  show "(lock_inv x g \<and> verdict_inv x g) \<and> burst_inv x key now g" if "gate_init g"
    using that gt.inv_init [OF that]
    by (auto simp: gate_init_def burst_inv_def gate_new_def heard_at_def told_at_def answers_at_def asked_at_def)
  show "(lock_inv x g' \<and> verdict_inv x g') \<and> burst_inv x key now g'"
    if "(lock_inv x g \<and> verdict_inv x g) \<and> burst_inv x key now g" "keeping_step x key now g g'"
    using that gt.inv_step [of x g g'] burst_inv_step [of x key now g g']
    by (auto simp: keeping_step_def)
qed

section \<open>Properties\<close>

text \<open>
  C10: a burst asks once. Take any token and any second, and a gate with any history: callers of
  any tokens at any seconds, interleaved in any way, timed out or cancelled, as long as the cache
  does not evict the token's entry in that second. Then the authority answers at most one call
  for that token and second; once it has answered, or a caller of the second was given a decision
  from the cache, nobody asks at that second; and the callers of that token and second that are
  let in or refused are all told the same, which is the answer of that second if there is one.
\<close>

theorem burst_asks_once:
  assumes "reachable gate_init (keeping_step x key now) g"
  shows "length (answers_at key now g) \<le> 1 \<and>
    (asked_at x key now g \<longrightarrow> answers_at key now g = [] \<and> (\<forall>d. \<not> told_at x key now g d)) \<and>
    (\<exists>d. (\<forall>d'. told_at x key now g d' \<longrightarrow> d' = d) \<and> (\<forall>d' \<in> set (answers_at key now g). d' = d))"
proof -
  have inv: "burst_inv x key now g" using bu.reachable_inv [OF assms] by simp
  have "d' = d" if "heard_at x key now g d'" "heard_at x key now g d" for d d'
    using inv that unfolding burst_inv_def by blast
  then have "\<exists>d. \<forall>d'. heard_at x key now g d' \<longrightarrow> d' = d" by blast
  moreover have "answers_at key now g = []" if "asked_at x key now g"
    using inv that unfolding burst_inv_def heard_at_def by (cases "answers_at key now g") auto
  ultimately show ?thesis
    using inv unfolding burst_inv_def heard_at_def by blast
qed

text \<open>
  Two callers of one second: the second one is let in by the first one's answer.
\<close>

theorem burst_asks_once_witness:
  "let g = sample_gate [Done Allowed, Done Allowed] True True True in
   answers_at [] 5 g = [Allow] \<and> told_at sample_x [] 5 g Allow \<and> \<not> asked_at sample_x [] 5 g \<and>
   \<not> told_at sample_x [] 5 g Deny"
proof -
  let ?g = "sample_gate [Done Allowed, Done Allowed] True True True"
  have a: "answers_at [] 5 ?g = [Allow]" by (simp add: answers_at_def sample_gate_def)
  have t: "told_at sample_x [] 5 ?g Allow"
    unfolding told_at_def
    by (intro exI [of _ 0] exI [of _ "sample_task (Done Allowed)"])
      (simp add: sample_gate_def sample_task_def upt_conv_Cons)
  have "\<not> asked_at sample_x [] 5 ?g \<and> \<not> told_at sample_x [] 5 ?g Deny"
    using burst_asks_once [OF sample_kept_done] a t by auto
  with a t show ?thesis by (simp add: Let_def)
qed

end
