(* ===== verification/Gate_Progress.thy ===== *)
theory Gate_Progress
  imports Revocation
begin

text \<open>
  The gate of theory \<open>Revocation\<close> answers: its mutexes and locks cannot deadlock, and a caller needs
  boundedly many steps. The steps of the callers present are the steps that neither bring a new
  caller nor cancel one.
\<close>

section \<open>Steps of the callers\<close>

definition caller_step :: "externals \<Rightarrow> gate \<Rightarrow> gate \<Rightarrow> bool" where
  "caller_step x g g' \<longleftrightarrow>
     gate_step x g g' \<and> (\<forall>i. hget (g_tasks g') i = None \<longleftrightarrow> hget (g_tasks g) i = None)"

fun finished :: "phase \<Rightarrow> bool" where
  "finished (Done _) = True"
| "finished _ = False"

text \<open>The steps a caller can still take, at most.\<close>

fun steps_left :: "phase \<Rightarrow> nat" where
  "steps_left Looking = 8"
| "steps_left Acquiring = 7"
| "steps_left (Waiting _) = 6"
| "steps_left (Locked _) = 5"
| "steps_left (Starting _) = 4"
| "steps_left (Calling _) = 3"
| "steps_left (Releasing _ _) = 2"
| "steps_left (Dropping _ _) = 1"
| "steps_left (Done _) = 0"

definition work_left :: "gate \<Rightarrow> nat" where
  "work_left g = sum_list (map (\<lambda>(_, t). steps_left (tk_phase t)) (g_tasks g))"

lemma sum_hinsert:
  assumes "hget m k = Some v"
  shows "sum_list (map f (hinsert k v' m)) + f (k, v) = sum_list (map f m) + (f (k, v') :: nat)"
  using assms by (induction m) (auto simp: hinsert_def)

lemma work_set_phase:
  assumes "hget (g_tasks g) i = Some t" "g_tasks g0 = g_tasks g"
  shows "work_left (set_phase i t p g0) + steps_left (tk_phase t) = work_left g + steps_left p"
  using sum_hinsert [OF assms(1), of "\<lambda>(_, t). steps_left (tk_phase t)" "t\<lparr>tk_phase := p\<rparr>"]
  by (simp add: work_left_def set_phase_def assms(2))

lemma caller_step_work:
  assumes "lock_inv x g" "caller_step x g g'"
  shows "work_left g' < work_left g"
proof -
  have step: "gate_step x g g'" and same: "\<And>i. hget (g_tasks g') i = None \<longleftrightarrow> hget (g_tasks g) i = None"
    using assms(2) by (simp_all add: caller_step_def)
  have less: "work_left (set_phase i t p g0) < work_left g"
    if "hget (g_tasks g) i = Some t" "g_tasks g0 = g_tasks g" "steps_left p < steps_left (tk_phase t)" for i t p g0
    using work_set_phase [OF that(1,2), of p] that(3) by simp
  show ?thesis
    using step
  proof cases
    case (gs_call i cl now)
    then show ?thesis using same [of i] by (simp add: hmap_simps)
  next
    case (gs_look i t out c)
    then show ?thesis by (auto intro!: less split: option.split)
  next
    case (gs_acquire i t l g1)
    then have "g_tasks g1 = g_tasks g" by (auto simp: acquire_key_def split: option.splits)
    from less [OF gs_acquire(2) this] show ?thesis by (simp add: gs_acquire(1,3))
  next
    case (gs_lock i t l)
    then show ?thesis by (auto intro!: less)
  next
    case (gs_look_again i t l out c)
    then show ?thesis by (auto intro!: less split: option.split)
  next
    case (gs_start i t l)
    then show ?thesis by (auto intro!: less split: option.split)
  next
    case (gs_answer i t l a out c)
    then show ?thesis by (auto intro!: less)
  next
    case (gs_release i t l out)
    then show ?thesis by (auto intro!: less simp: release_key_def)
  next
    case (gs_drop i t l out)
    then show ?thesis by (auto intro!: less)
  next
    case (gs_cancel i t l)
    then show ?thesis using same [of i] lock_invD(2) [OF assms(1)] by (simp add: hmap_simps)
  qed
qed

section \<open>No deadlock\<close>

lemma caller_stepI:
  "gate_step x g (set_phase i t p g0) \<Longrightarrow> hget (g_tasks g) i = Some t \<Longrightarrow> g_tasks g0 = g_tasks g \<Longrightarrow>
   \<exists>g'. caller_step x g g'"
  by (intro exI [of _ "set_phase i t p g0"]) (auto simp: caller_step_def)

text \<open>A caller that is neither finished nor waiting for a lock can go on.\<close>

lemma caller_goes_on:
  assumes "hget (g_tasks g) i = Some t" "\<not> finished (tk_phase t)" "\<nexists>l. tk_phase t = Waiting l"
  shows "\<exists>g'. caller_step x g g'"
proof (cases "tk_phase t")
  case Looking
  obtain out c where "gate_lookup (task_key x t) (tk_now t) (g_cache g) = (out, c)" by fastforce
  from caller_stepI [OF gs_look [OF assms(1) Looking this] assms(1)] show ?thesis by simp
next
  case Acquiring
  obtain l g' where a: "acquire_key (task_key x t) g = (l, g')" by fastforce
  then have "g_tasks g' = g_tasks g" by (auto simp: acquire_key_def split: option.splits)
  with caller_stepI [OF gs_acquire [OF assms(1) Acquiring a] assms(1)] show ?thesis by simp
next
  case (Locked l)
  obtain out c where "gate_lookup (task_key x t) (tk_now t) (g_cache g) = (out, c)" by fastforce
  from caller_stepI [OF gs_look_again [OF assms(1) Locked this] assms(1)] show ?thesis by simp
next
  case (Starting l)
  show ?thesis
    using gs_start [OF assms(1) Starting, of x] caller_stepI [OF _ assms(1)]
    by (cases "record_refresh_start (tk_now t) (g_cache g)") fastforce+
next
  case (Calling l)
  obtain out c where "finish_refresh (task_key x t) (tk_now t) TimedOut (g_cache g) = (out, c)" by fastforce
  from caller_stepI [OF gs_answer [OF assms(1) Calling this] assms(1)] show ?thesis by simp
next
  case (Releasing l out)
  from caller_stepI [OF gs_release [OF assms(1) Releasing] assms(1)] show ?thesis
    by (simp add: release_key_def)
next
  case (Dropping l out)
  from caller_stepI [OF gs_drop [OF assms(1) Dropping] assms(1)] show ?thesis by simp
qed (use assms(2,3) in simp_all)

text \<open>
  A caller that waits can take its lock, or the caller that holds it can go on: a holder never
  waits for a second lock.
\<close>

lemma some_caller_goes_on:
  assumes "hget (g_tasks g) i = Some t" "\<not> finished (tk_phase t)" "hinvar (g_tasks g)"
  shows "\<exists>g'. caller_step x g g'"
proof (cases "\<exists>l. tk_phase t = Waiting l")
  case True
  then obtain l where l: "tk_phase t = Waiting l" by blast
  show ?thesis
  proof (cases "\<forall>(j, u) \<in> set (g_tasks g). phase_guard (tk_phase u) \<noteq> Some l")
    case True
    from caller_stepI [OF gs_lock [OF assms(1) l True] assms(1)] show ?thesis by simp
  next
    case False
    then obtain j u where u: "hget (g_tasks g) j = Some u" "phase_guard (tk_phase u) = Some l"
      using assms(3) by (auto simp: hget_mem)
    then have "\<not> finished (tk_phase u)" "\<nexists>l. tk_phase u = Waiting l" by (cases "tk_phase u"; simp)+
    with u(1) show ?thesis by (rule caller_goes_on)
  qed
qed (use assms(1,2) caller_goes_on in blast)

section \<open>A caller alone\<close>

text \<open>
  The gate while one caller runs: it is at a phase, the cache is known, and all others are
  finished.
\<close>

definition alone :: "gate \<Rightarrow> nat \<Rightarrow> claims \<Rightarrow> u64 \<Rightarrow> phase \<Rightarrow> revocation_cache \<Rightarrow> bool" where
  "alone g i cl now p c \<longleftrightarrow>
     hinvar (g_tasks g) \<and> hget (g_tasks g) i = Some \<lparr>tk_claims = cl, tk_now = now, tk_phase = p\<rparr> \<and>
     g_cache g = c \<and> (\<forall>j t. j \<noteq> i \<longrightarrow> hget (g_tasks g) j = Some t \<longrightarrow> finished (tk_phase t))"

lemma alone_moves:
  assumes "alone g i cl now p c" "g_tasks g0 = g_tasks g" "g_cache g0 = c'"
  shows "alone (set_phase i \<lparr>tk_claims = cl, tk_now = now, tk_phase = p\<rparr> p' g0) i cl now p' c'"
  using assms by (auto simp: alone_def set_phase_def hmap_simps)

text \<open>The steps of a caller that is alone, from phase to phase.\<close>

lemma alone_steps:
  assumes "alone g i cl now p c"
  shows "p = Looking \<Longrightarrow> gate_lookup (revocation_cache_key x cl) now c = (out, c') \<Longrightarrow>
      \<exists>g'. gate_step x g g' \<and> alone g' i cl now (case out of Some a \<Rightarrow> Done a | None \<Rightarrow> Acquiring) c'"
    "p = Acquiring \<Longrightarrow> \<exists>g' l. gate_step x g g' \<and> alone g' i cl now (Waiting l) c"
    "p = Waiting l \<Longrightarrow> \<exists>g'. gate_step x g g' \<and> alone g' i cl now (Locked l) c"
    "p = Locked l \<Longrightarrow> gate_lookup (revocation_cache_key x cl) now c = (out, c') \<Longrightarrow>
      \<exists>g'. gate_step x g g' \<and> alone g' i cl now (case out of Some a \<Rightarrow> Releasing l a | None \<Rightarrow> Starting l) c'"
    "p = Starting l \<Longrightarrow> record_refresh_start now c = None \<Longrightarrow>
      \<exists>g'. gate_step x g g' \<and> alone g' i cl now (Releasing l (Unavailable ClockRegression)) c"
    "p = Starting l \<Longrightarrow> record_refresh_start now c = Some c' \<Longrightarrow>
      \<exists>g'. gate_step x g g' \<and> alone g' i cl now (Calling l) c'"
    "p = Calling l \<Longrightarrow> finish_refresh (revocation_cache_key x cl) now a c = (res, c') \<Longrightarrow>
      \<exists>g'. gate_step x g g' \<and> alone g' i cl now (Releasing l res) c'"
    "p = Releasing l res \<Longrightarrow> \<exists>g'. gate_step x g g' \<and> alone g' i cl now (Dropping l res) c"
    "p = Dropping l res \<Longrightarrow> \<exists>g'. gate_step x g g' \<and> alone g' i cl now (Done res) c"
proof -
  let ?t = "\<lparr>tk_claims = cl, tk_now = now, tk_phase = p\<rparr>"
  have t: "hget (g_tasks g) i = Some ?t" "g_cache g = c" "task_key x ?t = revocation_cache_key x cl"
    and free: "p = Waiting l \<Longrightarrow> \<forall>(j, t') \<in> set (g_tasks g). phase_guard (tk_phase t') \<noteq> Some l" for l
  proof -
    have "phase_guard (tk_phase t') \<noteq> Some l" if "p = Waiting l" "(j, t') \<in> set (g_tasks g)" for j t' l
    proof -
      have "hget (g_tasks g) j = Some t'" using assms that(2) by (simp add: alone_def hget_mem)
      then have "j = i \<and> t' = ?t \<or> finished (tk_phase t')"
        using assms by (cases "j = i") (auto simp: alone_def)
      then show ?thesis using that(1) by (cases "tk_phase t'") auto
    qed
    then show "p = Waiting l \<Longrightarrow> \<forall>(j, t') \<in> set (g_tasks g). phase_guard (tk_phase t') \<noteq> Some l" by blast
  qed (use assms in \<open>simp_all add: alone_def task_key_def\<close>)
  note moves = alone_moves [OF assms]
  show "\<exists>g'. gate_step x g g' \<and> alone g' i cl now (case out of Some a \<Rightarrow> Done a | None \<Rightarrow> Acquiring) c'"
    if "p = Looking" "gate_lookup (revocation_cache_key x cl) now c = (out, c')"
    using gs_look [OF t(1), of x out c'] that t(2,3) moves [of "g\<lparr>g_cache := c'\<rparr>" c'] by fastforce
  show "\<exists>g' l. gate_step x g g' \<and> alone g' i cl now (Waiting l) c" if "p = Acquiring"
  proof -
    obtain l g' where a: "acquire_key (task_key x ?t) g = (l, g')" by fastforce
    then have "g_tasks g' = g_tasks g" "g_cache g' = c"
      using t(2) by (auto simp: acquire_key_def split: option.splits)
    then show ?thesis using gs_acquire [OF t(1) _ a] that moves [of g' c "Waiting l"] by fastforce
  qed
  show "\<exists>g'. gate_step x g g' \<and> alone g' i cl now (Locked l) c" if "p = Waiting l"
    using gs_lock [OF t(1) _ free [OF that], of x] that moves [OF refl t(2), of "Locked l"] by fastforce
  show "\<exists>g'. gate_step x g g' \<and> alone g' i cl now (case out of Some a \<Rightarrow> Releasing l a | None \<Rightarrow> Starting l) c'"
    if "p = Locked l" "gate_lookup (revocation_cache_key x cl) now c = (out, c')"
    using gs_look_again [OF t(1), of l x out c'] that t(2,3) moves [of "g\<lparr>g_cache := c'\<rparr>" c'] by fastforce
  show "\<exists>g'. gate_step x g g' \<and> alone g' i cl now (Releasing l (Unavailable ClockRegression)) c"
    if "p = Starting l" "record_refresh_start now c = None"
    using gs_start [OF t(1), of l x] that t(2) moves [OF refl t(2)] by fastforce
  show "\<exists>g'. gate_step x g g' \<and> alone g' i cl now (Calling l) c'"
    if "p = Starting l" "record_refresh_start now c = Some c'"
    using gs_start [OF t(1), of l x] that t(2) moves [of "g\<lparr>g_cache := c'\<rparr>" c'] by fastforce
  show "\<exists>g'. gate_step x g g' \<and> alone g' i cl now (Releasing l res) c'"
    if "p = Calling l" "finish_refresh (revocation_cache_key x cl) now a c = (res, c')"
    using gs_answer [OF t(1), of l x a res c'] that t(2,3)
      moves [of "g\<lparr>g_cache := c', g_answers := log_answer (task_key x ?t) now a (g_answers g)\<rparr>" c' "Releasing l res"]
    by fastforce
  show "\<exists>g'. gate_step x g g' \<and> alone g' i cl now (Dropping l res) c" if "p = Releasing l res"
    using gs_release [OF t(1), of l res x] that t(2) moves [of "release_key (task_key x ?t) l g" c "Dropping l res"]
    by (fastforce simp: release_key_def)
  show "\<exists>g'. gate_step x g g' \<and> alone g' i cl now (Done res) c" if "p = Dropping l res"
    using gs_drop [OF t(1), of l res x] that moves [OF refl t(2), of "Done res"] by fastforce
qed

lemma alone_then:
  assumes "\<exists>g'. gate_step x g g' \<and> alone g' i cl now p c"
    and "\<And>g'. alone g' i cl now p c \<Longrightarrow> \<exists>g''. (gate_step x)\<^sup>*\<^sup>* g' g'' \<and> alone g'' i cl now p' c'"
  shows "\<exists>g''. (gate_step x)\<^sup>*\<^sup>* g g'' \<and> alone g'' i cl now p' c'"
  using assms by (meson converse_rtranclp_into_rtranclp)

lemma alone_releases:
  assumes "alone g i cl now (Releasing l out) c"
  shows "\<exists>g'. (gate_step x)\<^sup>*\<^sup>* g g' \<and> alone g' i cl now (Done out) c"
  using alone_steps(8) [OF assms refl]
  by (rule alone_then) (meson alone_steps(9) r_into_rtranclp)

lemma alone_refreshes:
  assumes "alone g i cl now (Starting l) c" "refresh a (revocation_cache_key x cl) now c = (out, c')"
  shows "\<exists>g'. (gate_step x)\<^sup>*\<^sup>* g g' \<and> alone g' i cl now (Done out) c'"
proof (cases "record_refresh_start now c")
  case None
  then have "out = Unavailable ClockRegression" "c' = c" using assms(2) by (simp_all add: refresh_def)
  with alone_steps(5) [OF assms(1) refl None] show ?thesis by (auto intro: alone_then alone_releases)
next
  case (Some c1)
  then have f: "finish_refresh (revocation_cache_key x cl) now a c1 = (out, c')"
    using assms(2) by (simp add: refresh_def)
  from alone_steps(6) [OF assms(1) refl Some] show ?thesis
    by (rule alone_then) (rule alone_then [OF alone_steps(7) [OF _ refl f]], auto intro: alone_releases)
qed

lemma alone_authorizes:
  assumes "alone g i cl now Looking c"
  shows "\<exists>g'. (gate_step x)\<^sup>*\<^sup>* g g' \<and>
    alone g' i cl now (Done (fst (authorize x cl now a c))) (snd (authorize x cl now a c))"
proof -
  let ?key = "revocation_cache_key x cl"
  obtain out1 c1 where look: "gate_lookup ?key now c = (out1, c1)" by fastforce
  obtain out2 c2 where again: "gate_lookup ?key now c1 = (out2, c2)" by fastforce
  show ?thesis
  proof (cases out1)
    case (Some v)
    then show ?thesis
      using alone_steps(1) [OF assms refl look] look by (auto simp: authorize_def intro: r_into_rtranclp)
  next
    case None
    obtain out c' where r: "authorize x cl now a c = (out, c')" by fastforce
    have locked: "\<exists>g''. (gate_step x)\<^sup>*\<^sup>* g' g'' \<and> alone g'' i cl now (Done out) c'"
      if "alone g' i cl now (Locked l) c1" for g' l
    proof (cases out2)
      case (Some v)
      then have "out = v" "c' = c2" using r look again None by (simp_all add: authorize_def)
      then show ?thesis
        using alone_steps(4) [OF that refl again] Some by (auto intro: alone_then alone_releases)
    next
      case none: None
      then have "refresh a ?key now c2 = (out, c')" using r look again None by (simp add: authorize_def)
      then show ?thesis
        using alone_steps(4) [OF that refl again] none by (auto intro: alone_then alone_refreshes)
    qed
    have waiting: "\<exists>g''. (gate_step x)\<^sup>*\<^sup>* g' g'' \<and> alone g'' i cl now (Done out) c'"
      if "alone g' i cl now (Waiting l) c1" for g' l
      using alone_steps(3) [OF that refl] by (rule alone_then) (rule locked)
    have "\<exists>g''. (gate_step x)\<^sup>*\<^sup>* g' g'' \<and> alone g'' i cl now (Done out) c'"
      if "alone g' i cl now Acquiring c1" for g'
      using alone_steps(2) [OF that refl, of x] waiting by (meson converse_rtranclp_into_rtranclp)
    with alone_steps(1) [OF assms refl look] None r show ?thesis by (auto intro: alone_then)
  qed
qed

text \<open>
  The gate cut into steps runs \<open>authorize\<close>. A caller that arrives while no other is under way
  gets, by steps of the gate, the verdict of the function \<open>authorize\<close> on the cache it found, and
  leaves the cache \<open>authorize\<close> leaves, whatever the authority answers: the two models of the one
  function agree.
\<close>

lemma gate_runs_authorize:
  assumes "reachable gate_init (gate_step x) g" "hget (g_tasks g) i = None"
    and "\<forall>j t. hget (g_tasks g) j = Some t \<longrightarrow> finished (tk_phase t)"
  shows "\<exists>g'. (gate_step x)\<^sup>*\<^sup>* g g' \<and>
    map_option tk_phase (hget (g_tasks g') i) = Some (Done (fst (authorize x cl now a (g_cache g)))) \<and>
    g_cache g' = snd (authorize x cl now a (g_cache g))"
proof -
  let ?g = "g\<lparr>g_tasks := hinsert i \<lparr>tk_claims = cl, tk_now = now, tk_phase = Looking\<rparr> (g_tasks g)\<rparr>"
  have "lock_inv x g" using gt.reachable_inv [OF assms(1)] by simp
  then have "alone ?g i cl now Looking (g_cache g)"
    using assms(3) by (auto simp: alone_def hmap_simps dest: lock_invD(2))
  from alone_authorizes [OF this] obtain g' where "(gate_step x)\<^sup>*\<^sup>* ?g g'"
    "alone g' i cl now (Done (fst (authorize x cl now a (g_cache g)))) (snd (authorize x cl now a (g_cache g)))"
    by blast
  moreover have "gate_step x g ?g" using assms(2) by (rule gs_call)
  ultimately show ?thesis
    by (intro exI [of _ g'] conjI) (auto simp: alone_def intro: converse_rtranclp_into_rtranclp)
qed

section \<open>Properties\<close>

text \<open>
  C28: every caller is answered. However callers arrive, wait, time out and are cancelled, the
  gate never deadlocks: as long as a caller has no answer, some caller can take a step; and every
  step of theirs brings them closer, of at most eight each. So once arrivals pause, all callers
  present have their answers after boundedly many steps.
\<close>

theorem gate_answers_everyone:
  assumes "reachable gate_init (gate_step x) g"
  shows "((\<forall>i t. hget (g_tasks g) i = Some t \<longrightarrow> finished (tk_phase t)) \<or> (\<exists>g'. caller_step x g g')) \<and>
    (\<forall>g'. caller_step x g g' \<longrightarrow> work_left g' < work_left g) \<and>
    work_left g \<le> 8 * length (g_tasks g)"
proof -
  have inv: "lock_inv x g" using gt.reachable_inv [OF assms] by simp
  have "steps_left p \<le> 8" for p by (cases p) auto
  then have "sum_list (map (\<lambda>(_, t). steps_left (tk_phase t)) m) \<le> 8 * length m" for m :: "(nat \<times> task) list"
    by (induction m) (auto simp: add_mono)
  then show ?thesis
    using some_caller_goes_on [OF _ _ lock_invD(2) [OF inv]] caller_step_work [OF inv]
    by (auto simp: work_left_def)
qed

theorem gate_answers_everyone_witness:
  "\<exists>g'. caller_step sample_x (sample_gate [Locked 0, Waiting 0] True True False) g' \<and> work_left g' < 11"
proof -
  let ?g = "sample_gate [Locked 0, Waiting 0] True True False"
  have "hget (g_tasks ?g) 0 = Some (sample_task (Locked 0))" "work_left ?g = 11"
    by (simp_all add: sample_gate_def sample_task_def work_left_def upt_conv_Cons)
  then show ?thesis
    using gate_answers_everyone [OF sample_run_locked] by (fastforce simp: sample_task_def)
qed

end
