(* ===== verification/Auth.thy ===== *)
theory Auth
  imports Revocation
begin

text \<open>
  \<^verbatim>\<open>src/src/auth.rs\<close>: who the caller is. Credentials and trusted-edge headers, API keys by
  introspection with a bounded decision cache, JWTs by offline verification followed by the
  revocation gate, and the configuration from the environment. The HTTP exchanges, the clock
  readings and the JWT library are arguments: the records \<open>auth_io\<close> and \<open>jwt_lib\<close>.
\<close>

section \<open>State and data\<close>

datatype auth_kind = ApiKey | Jwt

record verified_identity =
  vi_kind :: auth_kind
  vi_org_id :: string
  vi_key_id :: "string option"
  vi_scopes :: "string list"
  vi_require_idempotency :: bool

text \<open>\<^verbatim>\<open>fiducia_interfaces::Introspection\<close>, the fields the code reads.\<close>

record introspection =
  in_valid :: bool
  in_org_id :: "string option"
  in_key_id :: "string option"
  in_scopes :: "string list"
  in_require_idempotency :: "bool option"

datatype algorithm = HS256 | HS384 | HS512 | ES256 | ES384 | RS256 | RS384 | RS512
  | PS256 | PS384 | PS512 | EdDSA

record jwk =
  jwk_kid :: "string option"
  jwk_octet :: bool
  jwk_material :: bytes

record validation =
  va_algorithm :: algorithm
  va_issuer :: "string list"
  va_audience :: "string list"
  va_required :: "string list"

text \<open>
  The \<^verbatim>\<open>jsonwebtoken\<close> library: the unverified header (algorithm, key ID), the key of a JWK,
  and the verified claims of a token.
\<close>

record jwt_lib =
  jl_decode_header :: "string \<Rightarrow> (algorithm \<times> string option) option"
  jl_decoding_key :: "jwk \<Rightarrow> bytes option"
  jl_decode :: "string \<Rightarrow> bytes \<Rightarrow> validation \<Rightarrow> claims option"

datatype auth_error = EmptyJwks | HttpError | InvalidClaims string | InvalidResponse string
  | JwtError | MissingJwk string | MissingKid | OversizedResponse string | SymmetricJwk
  | UnsupportedAlgorithm algorithm

text \<open>Durations are seconds, except the revocation refresh timeout (milliseconds).\<close>

record auth_config =
  ac_required :: bool
  ac_allow_api_keys :: bool
  ac_allow_jwts :: bool
  ac_introspect_url :: string
  ac_introspect_secret :: "string option"
  ac_jwks_url :: string
  ac_jwt_issuer :: string
  ac_jwt_audience :: string
  ac_cache_ttl :: u64
  ac_negative_cache_ttl :: u64
  ac_jwks_ttl :: u64
  ac_http_timeout :: u64
  ac_revocation_check_url :: string
  ac_revocation_reader_secret :: "string option"
  ac_revocation_freshness_secs :: u64
  ac_revocation_capacity :: usize
  ac_revocation_refresh_timeout :: u64

type_synonym instant = nat

record decision_entry =
  cd_expires_at :: instant
  cd_identity :: "verified_identity option"

record jwks_entry =
  cj_fetched_at :: instant
  cj_jwks :: "jwk list"

record auth_state =
  as_config :: auth_config
  as_decisions :: "(string, decision_entry) hmap"
  as_jwks :: "jwks_entry option"
  as_revocations :: revocation_cache

text \<open>
  An exchange: \<^const>\<open>None\<close> when it failed, else the status and the body (\<^const>\<open>None\<close> when it
  broke off). One request's exchanges and clock readings: introspection by URL, secret and key;
  the first and the second JWKS fetch; the revocation check and whether it timed out; \<^verbatim>\<open>Instant::now\<close> (in seconds)
  at the cache lookup, the cache store, the JWKS age check and after each JWKS fetch; and
  \<^verbatim>\<open>unix_secs()\<close> at the claim check and at the revocation gate.
\<close>

type_synonym exchange = "(nat \<times> bytes option) option"

record auth_io =
  io_introspect :: "string \<Rightarrow> string option \<Rightarrow> string \<Rightarrow> exchange"
  io_jwks :: "nat \<Rightarrow> string \<Rightarrow> exchange"
  io_revocation_timed_out :: bool
  io_revocation_send :: "string \<Rightarrow> claims \<Rightarrow> exchange"
  io_parse_decision :: "bytes \<Rightarrow> wire_decision option"
  io_parse_introspection :: "bytes \<Rightarrow> introspection option"
  io_parse_jwks :: "bytes \<Rightarrow> jwk list option"
  io_lookup_at :: instant
  io_store_at :: instant
  io_jwks_checked_at :: instant
  io_jwks_fetched_at :: "nat \<Rightarrow> instant"
  io_unix_secs_claims :: u64
  io_unix_secs_gate :: u64

definition max_access_token_ttl_secs :: u64 where
  "max_access_token_ttl_secs = 15 * 60"

definition jwt_clock_skew_secs :: u64 where
  "jwt_clock_skew_secs = 30"

definition max_cached_decisions :: nat where
  "max_cached_decisions = 10000"

definition max_introspection_response_bytes :: nat where
  "max_introspection_response_bytes = 64 * 1024"

definition max_jwks_response_bytes :: nat where
  "max_jwks_response_bytes = 256 * 1024"

definition min_reader_secret_bytes :: nat where
  "min_reader_secret_bytes = 32"

section \<open>Identities and headers\<close>

definition auth_response :: "nat \<Rightarrow> string \<Rightarrow> string \<Rightarrow> response" where
  "auth_response status err detail =
     \<lparr>resp_status = status,
      resp_headers = [(''content-type'', ''application/json''), (''cache-control'', ''no-store''),
        (''pragma'', ''no-cache'')],
      resp_body = BodyJson (JObject [(''error'', JString err), (''detail'', JString detail)])\<rparr>"

fun kind_header :: "auth_kind \<Rightarrow> string" where
  "kind_header ApiKey = ''api_key''"
| "kind_header Jwt = ''jwt''"

fun join_spaces :: "string list \<Rightarrow> string" where
  "join_spaces [] = []"
| "join_spaces [s] = s"
| "join_spaces (s # t # ss) = s @ '' '' @ join_spaces (t # ss)"

definition scopes_header :: "verified_identity \<Rightarrow> string" where
  "scopes_header v = join_spaces (vi_scopes v)"

definition edge_auth_header :: string where
  "edge_auth_header = ''x-fiducia-edge-auth''"

definition should_strip_client_auth_header :: "string \<Rightarrow> bool" where
  "should_strip_client_auth_header name \<longleftrightarrow>
     to_ascii_lowercase name \<in> set [''authorization'', ''x-api-key'', ''cookie'',
       ''x-fiducia-auth-kind'', ''x-fiducia-org-id'', ''x-fiducia-key-id'', ''x-fiducia-scopes'',
       edge_auth_header, ''x-fiducia-internal-auth'']"

text \<open>\<^const>\<open>None\<close>: invalid or repeated; \<open>Some None\<close>: absent; \<open>Some (Some v)\<close>: exactly one value.\<close>

definition unique_header_str :: "header_map \<Rightarrow> string \<Rightarrow> string option option" where
  "unique_header_str h name =
     (case header_get_all h name of
        [] \<Rightarrow> Some None
      | [v] \<Rightarrow> map_option Some (header_to_str v)
      | _ \<Rightarrow> None)"

fun fold_difference :: "byte \<Rightarrow> bytes \<Rightarrow> bytes \<Rightarrow> byte" where
  "fold_difference d (l # ls) (r # rs) = fold_difference (d OR (l XOR r)) ls rs"
| "fold_difference d _ _ = d"

definition constant_time_eq :: "bytes \<Rightarrow> bytes \<Rightarrow> bool" where
  "constant_time_eq left right \<longleftrightarrow>
     (if length left \<noteq> length right then False else fold_difference 0 left right = 0)"

definition valid_chars :: "string \<Rightarrow> bool" where
  "valid_chars s \<longleftrightarrow> \<not> list_ex (\<lambda>c. is_control c \<or> is_whitespace c) (str_chars s)"

definition valid_identifier :: "string \<Rightarrow> bool" where
  "valid_identifier value \<longleftrightarrow>
     (let value = trim value in value \<noteq> [] \<and> length value \<le> 256 \<and> valid_chars value)"

definition valid_scopes :: "string list \<Rightarrow> bool" where
  "valid_scopes scopes \<longleftrightarrow>
     length scopes \<le> 64 \<and> list_all (\<lambda>s. s \<noteq> [] \<and> length s \<le> 128 \<and> valid_chars s) scopes"

definition trusted_edge_identity :: "header_map \<Rightarrow> string option \<Rightarrow> verified_identity option" where
  "trusted_edge_identity headers expected_secret =
     (case expected_secret of None \<Rightarrow> None
      | Some expected \<Rightarrow>
     (case Option.bind (unique_header_str headers edge_auth_header) id of None \<Rightarrow> None
      | Some provided \<Rightarrow>
     if \<not> constant_time_eq (as_bytes provided) (as_bytes expected) then None
     else case Option.bind (unique_header_str headers ''x-fiducia-org-id'') id of None \<Rightarrow> None
      | Some org \<Rightarrow>
     (let org_id = trim org in
     if \<not> valid_identifier org_id then None
     else case unique_header_str headers ''x-fiducia-auth-kind'' of None \<Rightarrow> None
      | Some kv \<Rightarrow>
     (case (case kv of None \<Rightarrow> Some ApiKey
         | Some k \<Rightarrow> if k = ''api_key'' then Some ApiKey
             else if k = ''jwt'' then Some Jwt else None) of None \<Rightarrow> None
      | Some kind \<Rightarrow>
     (case unique_header_str headers ''x-fiducia-scopes'' of None \<Rightarrow> None
      | Some sv \<Rightarrow>
     (let scopes = (case sv of None \<Rightarrow> [] | Some v \<Rightarrow> split_whitespace v) in
     if \<not> valid_scopes scopes then None
     else case unique_header_str headers ''x-fiducia-key-id'' of None \<Rightarrow> None
      | Some idv \<Rightarrow>
     (let key_id = (case idv of None \<Rightarrow> None
         | Some v \<Rightarrow> if trim v = [] then None else Some (trim v)) in
     if (case key_id of None \<Rightarrow> False | Some v \<Rightarrow> \<not> valid_identifier v) then None
     else Some \<lparr>vi_kind = kind, vi_org_id = org_id, vi_key_id = key_id, vi_scopes = scopes,
            vi_require_idempotency = False\<rparr>)))))))"

section \<open>Credentials\<close>

definition bearer_token :: "string \<Rightarrow> string option" where
  "bearer_token value =
     (let (scheme, rest) = splitn2_whitespace (trim value) in
      case rest of None \<Rightarrow> None
      | Some r \<Rightarrow>
          (let token = trim r in
           if eq_ignore_ascii_case scheme ''bearer'' \<and> token \<noteq> [] then Some token else None))"

definition extract_credential :: "header_map \<Rightarrow> string option" where
  "extract_credential headers =
     (case Option.bind (Option.bind (header_get headers ''authorization'') header_to_str) bearer_token of
        Some t \<Rightarrow> Some t
      | None \<Rightarrow>
          (case Option.bind (header_get headers ''x-api-key'') header_to_str of
             None \<Rightarrow> None
           | Some v \<Rightarrow> if trim v = [] then None else Some (trim v)))"

definition is_api_key :: "string \<Rightarrow> bool" where
  "is_api_key value \<longleftrightarrow> starts_with value ''fdc_'' \<and> CHR ''.'' \<in> set value"

definition looks_like_jwt :: "string \<Rightarrow> bool" where
  "looks_like_jwt value \<longleftrightarrow> length (split_on CHR ''.'' value) = 3"

definition credential_cache_key :: "externals \<Rightarrow> string \<Rightarrow> string \<Rightarrow> string" where
  "credential_cache_key x kind credential =
     kind @ '':'' @ format_hex (x_sha256 x (as_bytes credential))"

section \<open>Checks on claims and keys\<close>

definition identity_from_introspection :: "introspection \<Rightarrow> verified_identity option" where
  "identity_from_introspection i =
     (case in_org_id i of None \<Rightarrow> None
      | Some org_id \<Rightarrow>
          if \<not> in_valid i \<or> \<not> valid_identifier org_id \<or> \<not> valid_scopes (in_scopes i) then None
          else Some \<lparr>vi_kind = ApiKey, vi_org_id = org_id,
            vi_key_id = (case in_key_id i of None \<Rightarrow> None
              | Some v \<Rightarrow> if valid_identifier v then Some v else None),
            vi_scopes = in_scopes i,
            vi_require_idempotency = (case in_require_idempotency i of None \<Rightarrow> False | Some b \<Rightarrow> b)\<rparr>)"

definition identity_from_claims :: "claims \<Rightarrow> auth_error + verified_identity" where
  "identity_from_claims cl =
     Inr \<lparr>vi_kind = Jwt, vi_org_id = cl_org_id cl, vi_key_id = None, vi_scopes = cl_scopes cl,
       vi_require_idempotency = False\<rparr>"

definition validate_claim_contract :: "claims \<Rightarrow> string \<Rightarrow> string \<Rightarrow> u64 \<Rightarrow> auth_error + unit" where
  "validate_claim_contract cl expected_issuer expected_audience now =
     (if cl_iss cl \<noteq> expected_issuer \<or> cl_aud cl \<noteq> expected_audience
        then Inl (InvalidClaims ''issuer or audience'')
      else if \<not> valid_identifier (cl_sub cl) \<or> \<not> valid_identifier (cl_org_id cl)
          \<or> \<not> valid_identifier (cl_jti cl)
        then Inl (InvalidClaims ''identity'')
      else if cl_sub cl \<noteq> cl_org_id cl then Inl (InvalidClaims ''subject/tenant mismatch'')
      else if cl_exp cl \<le> cl_iat cl \<or> max_access_token_ttl_secs < cl_exp cl - cl_iat cl
        then Inl (InvalidClaims ''lifetime'')
      else if saturating_add now jwt_clock_skew_secs < cl_iat cl
        then Inl (InvalidClaims ''issued in the future'')
      else if \<not> valid_scopes (cl_scopes cl) then Inl (InvalidClaims ''scopes'')
      else Inr ())"

definition reject_symmetric_jwk :: "jwk \<Rightarrow> auth_error + unit" where
  "reject_symmetric_jwk k = (if jwk_octet k then Inl SymmetricJwk else Inr ())"

definition is_asymmetric_algorithm :: "algorithm \<Rightarrow> bool" where
  "is_asymmetric_algorithm alg \<longleftrightarrow>
     alg \<in> {ES256, ES384, RS256, RS384, RS512, PS256, PS384, PS512, EdDSA}"

section \<open>The decision cache\<close>

definition prune_decisions :: "(string, decision_entry) hmap \<Rightarrow> instant \<Rightarrow> nat \<Rightarrow>
    (string, decision_entry) hmap" where
  "prune_decisions decisions now capacity =
     (if length decisions < capacity then decisions
      else let decisions = hretain (\<lambda>_ cached. now < cd_expires_at cached) decisions in
        if length decisions < capacity then decisions
        else case min_by_key (\<lambda>(_, cached). cd_expires_at cached) decisions of
          Some (key, _) \<Rightarrow> hremove key decisions
        | None \<Rightarrow> decisions)"

definition cached_decision :: "string \<Rightarrow> instant \<Rightarrow> auth_state \<Rightarrow> verified_identity option option" where
  "cached_decision key now st =
     (case hget (as_decisions st) key of None \<Rightarrow> None
      | Some cached \<Rightarrow> if now < cd_expires_at cached then Some (cd_identity cached) else None)"

definition cache_decision :: "string \<Rightarrow> verified_identity option \<Rightarrow> u64 \<Rightarrow> instant \<Rightarrow>
    auth_state \<Rightarrow> auth_state" where
  "cache_decision key identity ttl now st =
     (if ttl = 0 then st
      else st\<lparr>as_decisions := hinsert key
          \<lparr>cd_expires_at = now + unat ttl, cd_identity = identity\<rparr>
          (prune_decisions (as_decisions st) now max_cached_decisions)\<rparr>)"

section \<open>Introspection and JWKS\<close>

text \<open>\<^verbatim>\<open>error_for_status\<close> turns the statuses from 400 to 599 into an error.\<close>

definition http_ok_body :: "exchange \<Rightarrow> bytes option" where
  "http_ok_body e =
     (case e of None \<Rightarrow> None
      | Some (status, body) \<Rightarrow> if 400 \<le> status \<and> status < 600 then None else body)"

definition fetch_introspection :: "auth_io \<Rightarrow> auth_config \<Rightarrow> string \<Rightarrow> auth_error + introspection" where
  "fetch_introspection io c api_key =
     (case http_ok_body (io_introspect io (ac_introspect_url c) (ac_introspect_secret c) api_key) of
        None \<Rightarrow> Inl HttpError
      | Some body \<Rightarrow>
          if max_introspection_response_bytes < length body
          then Inl (OversizedResponse ''introspection'')
          else case io_parse_introspection io body of
            None \<Rightarrow> Inl (InvalidResponse ''introspection'')
          | Some i \<Rightarrow> Inr i)"

definition refresh_jwks :: "auth_io \<Rightarrow> nat \<Rightarrow> auth_state \<Rightarrow> (auth_error + jwk list) \<times> auth_state" where
  "refresh_jwks io n st =
     (case http_ok_body (io_jwks io n (ac_jwks_url (as_config st))) of
        None \<Rightarrow> (Inl HttpError, st)
      | Some body \<Rightarrow>
          if max_jwks_response_bytes < length body then (Inl (OversizedResponse ''jwks''), st)
          else case io_parse_jwks io body of
            None \<Rightarrow> (Inl (InvalidResponse ''jwks''), st)
          | Some jwks \<Rightarrow>
              if jwks = [] then (Inl EmptyJwks, st)
              else (Inr jwks,
                st\<lparr>as_jwks := Some \<lparr>cj_fetched_at = io_jwks_fetched_at io n, cj_jwks = jwks\<rparr>\<rparr>))"

text \<open>The second component is the number of fetches made so far.\<close>

definition cached_jwks :: "auth_io \<Rightarrow> auth_state \<Rightarrow> (auth_error + jwk list) \<times> nat \<times> auth_state" where
  "cached_jwks io st =
     (case as_jwks st of
        Some cached \<Rightarrow>
          if io_jwks_checked_at io - cj_fetched_at cached < unat (ac_jwks_ttl (as_config st))
          then (Inr (cj_jwks cached), 0, st)
          else (let (r, st) = refresh_jwks io 0 st in (r, 1, st))
      | None \<Rightarrow> (let (r, st) = refresh_jwks io 0 st in (r, 1, st)))"

definition find_jwk :: "string \<Rightarrow> jwk list \<Rightarrow> jwk option" where
  "find_jwk kid jwks = find (\<lambda>k. jwk_kid k = Some kid) jwks"

definition jwk_for_kid :: "auth_io \<Rightarrow> string \<Rightarrow> auth_state \<Rightarrow> (auth_error + jwk) \<times> auth_state" where
  "jwk_for_kid io kid st =
     (case cached_jwks io st of
        (Inl e, _, st) \<Rightarrow> (Inl e, st)
      | (Inr jwks, n, st) \<Rightarrow>
          (case find_jwk kid jwks of Some k \<Rightarrow> (Inr k, st)
           | None \<Rightarrow>
               (case refresh_jwks io n st of
                  (Inl e, st) \<Rightarrow> (Inl e, st)
                | (Inr jwks, st) \<Rightarrow>
                    (case find_jwk kid jwks of Some k \<Rightarrow> (Inr k, st)
                     | None \<Rightarrow> (Inl (MissingJwk kid), st)))))"

definition required_claims :: "string list" where
  "required_claims = [''exp'', ''iss'', ''aud'', ''sub'', ''org_id'', ''iat'', ''jti'']"

definition verify_jwt :: "jwt_lib \<Rightarrow> auth_io \<Rightarrow> string \<Rightarrow> auth_state \<Rightarrow>
    (auth_error + verified_identity \<times> claims) \<times> auth_state" where
  "verify_jwt lib io jwt st =
     (case jl_decode_header lib jwt of None \<Rightarrow> (Inl JwtError, st)
      | Some (alg, kid) \<Rightarrow>
     if \<not> is_asymmetric_algorithm alg then (Inl (UnsupportedAlgorithm alg), st)
     else case kid of None \<Rightarrow> (Inl MissingKid, st)
      | Some kid \<Rightarrow>
     (case jwk_for_kid io kid st of (Inl e, st) \<Rightarrow> (Inl e, st)
      | (Inr key, st) \<Rightarrow>
     (case reject_symmetric_jwk key of Inl e \<Rightarrow> (Inl e, st)
      | Inr _ \<Rightarrow>
     (case jl_decoding_key lib key of None \<Rightarrow> (Inl JwtError, st)
      | Some decoding_key \<Rightarrow>
     (case jl_decode lib jwt decoding_key
         \<lparr>va_algorithm = alg, va_issuer = [ac_jwt_issuer (as_config st)],
          va_audience = [ac_jwt_audience (as_config st)], va_required = required_claims\<rparr> of
        None \<Rightarrow> (Inl JwtError, st)
      | Some cl \<Rightarrow>
     (case validate_claim_contract cl (ac_jwt_issuer (as_config st)) (ac_jwt_audience (as_config st))
         (io_unix_secs_claims io) of
        Inl e \<Rightarrow> (Inl e, st)
      | Inr _ \<Rightarrow>
     (case identity_from_claims cl of Inl e \<Rightarrow> (Inl e, st)
      | Inr identity \<Rightarrow> (Inr (identity, cl), st))))))))"

section \<open>Authentication\<close>

definition invalid_api_key :: response where
  "invalid_api_key = auth_response 401 ''invalid_api_key'' ''invalid api key''"

definition authenticate_api_key :: "externals \<Rightarrow> auth_io \<Rightarrow> string \<Rightarrow> auth_state \<Rightarrow>
    (response + verified_identity) \<times> auth_state" where
  "authenticate_api_key x io api_key st =
     (let cache_key = credential_cache_key x ''api_key'' api_key in
      case cached_decision cache_key (io_lookup_at io) st of
        Some (Some v) \<Rightarrow> (Inr v, st)
      | Some None \<Rightarrow> (Inl invalid_api_key, st)
      | None \<Rightarrow>
          (case fetch_introspection io (as_config st) api_key of
             Inl _ \<Rightarrow> (Inl (auth_response 503 ''auth_unavailable'' ''auth service is unavailable''), st)
           | Inr i \<Rightarrow>
               (case identity_from_introspection i of
                  None \<Rightarrow> (Inl invalid_api_key,
                    cache_decision cache_key None (ac_negative_cache_ttl (as_config st))
                      (io_store_at io) st)
                | Some v \<Rightarrow> (Inr v,
                    cache_decision cache_key (Some v) (ac_cache_ttl (as_config st))
                      (io_store_at io) st))))"

definition invalid_jwt :: response where
  "invalid_jwt = auth_response 401 ''invalid_jwt'' ''invalid or expired jwt''"

text \<open>The timed call of the \<^verbatim>\<open>HttpRevocationAuthority\<close> the gate was built with.\<close>

definition revocation_answer :: "auth_io \<Rightarrow> auth_config \<Rightarrow> claims \<Rightarrow> u64 \<Rightarrow> answer" where
  "revocation_answer io c cl now =
     (if io_revocation_timed_out io then TimedOut
      else Answered (check_revocation (io_revocation_send io) (io_parse_decision io)
        (ac_revocation_reader_secret c) cl now))"

definition authenticate_jwt :: "externals \<Rightarrow> jwt_lib \<Rightarrow> auth_io \<Rightarrow> string \<Rightarrow> auth_state \<Rightarrow>
    (response + verified_identity) \<times> auth_state" where
  "authenticate_jwt x lib io jwt st =
     (let cache_key = credential_cache_key x ''invalid_jwt'' jwt in
      if cached_decision cache_key (io_lookup_at io) st = Some None then (Inl invalid_jwt, st)
      else case verify_jwt lib io jwt st of
        (Inl _, st) \<Rightarrow> (Inl invalid_jwt,
          cache_decision cache_key None (ac_negative_cache_ttl (as_config st)) (io_store_at io) st)
      | (Inr (identity, cl), st) \<Rightarrow>
          (case authorize x cl (io_unix_secs_gate io)
              (revocation_answer io (as_config st) cl (io_unix_secs_gate io)) (as_revocations st) of
             (out, c) \<Rightarrow>
               ((case out of
                   Allowed \<Rightarrow> Inr identity
                 | Revoked \<Rightarrow> Inl (auth_response 401 ''revoked_jwt'' ''jwt has been revoked'')
                 | Unavailable _ \<Rightarrow> Inl (auth_response 503 ''revocation_unavailable''
                     ''jwt revocation state is unavailable'')),
                st\<lparr>as_revocations := c\<rparr>)))"

definition authenticate :: "externals \<Rightarrow> jwt_lib \<Rightarrow> auth_io \<Rightarrow> header_map \<Rightarrow> auth_state \<Rightarrow>
    (response + verified_identity option) \<times> auth_state" where
  "authenticate x lib io headers st =
     (case extract_credential headers of
        None \<Rightarrow>
          (if ac_required (as_config st)
           then (Inl (auth_response 401 ''missing_credentials''
             ''send Authorization: Bearer <api-key-or-token>''), st)
           else (Inr None, st))
      | Some credential \<Rightarrow>
          if is_api_key credential then
            (if \<not> ac_allow_api_keys (as_config st)
             then (Inl (auth_response 401 ''api_keys_disabled'' ''api key authentication is disabled''), st)
             else case authenticate_api_key x io credential st of
               (r, st) \<Rightarrow> (map_sum id Some r, st))
          else if looks_like_jwt credential then
            (if \<not> ac_allow_jwts (as_config st)
             then (Inl (auth_response 401 ''jwt_disabled'' ''jwt authentication is disabled''), st)
             else case authenticate_jwt x lib io credential st of
               (r, st) \<Rightarrow> (map_sum id Some r, st))
          else (Inl (auth_response 401 ''unsupported_credentials''
            ''credential must be a fiducia API key or fiducia JWT''), st))"

section \<open>Configuration\<close>

text \<open>\<open>env\<close> is \<^verbatim>\<open>std::env::var(..).ok()\<close>.\<close>

type_synonym environment = "string \<Rightarrow> string option"

definition env_value :: "environment \<Rightarrow> string \<Rightarrow> string option" where
  "env_value env name =
     (case env name of None \<Rightarrow> None | Some v \<Rightarrow> if trim v = [] then None else Some (trim v))"

definition env_bool_opt :: "environment \<Rightarrow> string \<Rightarrow> bool option" where
  "env_bool_opt env name =
     (case env_value env name of None \<Rightarrow> None
      | Some v \<Rightarrow>
          if v \<in> set [''1'', ''true'', ''TRUE'', ''yes'', ''YES'', ''on'', ''ON''] then Some True
          else if v \<in> set [''0'', ''false'', ''FALSE'', ''no'', ''NO'', ''off'', ''OFF''] then Some False
          else None)"

definition env_bool :: "environment \<Rightarrow> string \<Rightarrow> bool \<Rightarrow> bool" where
  "env_bool env name dflt = (case env_bool_opt env name of Some b \<Rightarrow> b | None \<Rightarrow> dflt)"

definition u64_env :: "environment \<Rightarrow> string \<Rightarrow> u64 \<Rightarrow> u64" where
  "u64_env env name dflt =
     (case Option.bind (env_value env name) (parse_unsigned 64) of
        Some n \<Rightarrow> of_nat n | None \<Rightarrow> dflt)"

definition usize_env :: "environment \<Rightarrow> string \<Rightarrow> usize \<Rightarrow> usize" where
  "usize_env env name dflt =
     (case Option.bind (env_value env name) (parse_unsigned 64) of
        Some n \<Rightarrow> of_nat n | None \<Rightarrow> dflt)"

definition duration_env :: "environment \<Rightarrow> string \<Rightarrow> u64 \<Rightarrow> u64" where
  "duration_env env name default_secs = u64_env env name default_secs"

definition normalize_url :: "string \<Rightarrow> string" where
  "normalize_url url = trim_end_matches CHR ''/'' (trim url)"

definition valid_reader_secret :: "string \<Rightarrow> bool" where
  "valid_reader_secret secret \<longleftrightarrow> min_reader_secret_bytes \<le> length secret \<and> valid_chars secret"

definition auth_required_decision :: "bool option \<Rightarrow> bool \<Rightarrow> bool" where
  "auth_required_decision explicit is_debug_build =
     (case explicit of Some b \<Rightarrow> b | None \<Rightarrow> \<not> is_debug_build)"

definition or_default :: "string option \<Rightarrow> string \<Rightarrow> string" where
  "or_default v d = (case v of Some s \<Rightarrow> s | None \<Rightarrow> d)"

definition config_from_env :: "bool \<Rightarrow> environment \<Rightarrow> auth_config" where
  "config_from_env is_debug_build env =
     (let auth_url = normalize_url (or_default (env_value env ''FIDUCIA_AUTH_URL'')
          ''http://fiducia-auth.fiducia.svc.cluster.local:8097'');
          secret = env_value env ''FIDUCIA_REVOCATION_READER_SECRET''
      in \<lparr>ac_required =
            auth_required_decision (env_bool_opt env ''FIDUCIA_AUTH_REQUIRED'') is_debug_build,
          ac_allow_api_keys = env_bool env ''FIDUCIA_AUTH_ALLOW_API_KEYS'' True,
          ac_allow_jwts = env_bool env ''FIDUCIA_AUTH_ALLOW_JWTS'' True,
          ac_introspect_url = or_default (env_value env ''FIDUCIA_AUTH_INTROSPECT_URL'')
            (auth_url @ ''/v1/introspect''),
          ac_introspect_secret = env_value env ''FIDUCIA_INTROSPECT_SECRET'',
          ac_jwks_url = or_default (env_value env ''FIDUCIA_AUTH_JWKS_URL'')
            (auth_url @ ''/.well-known/jwks.json''),
          ac_jwt_issuer = or_default (env_value env ''FIDUCIA_JWT_ISSUER'') ''fiducia-auth'',
          ac_jwt_audience = or_default (env_value env ''FIDUCIA_JWT_AUDIENCE'') ''fiducia-api'',
          ac_cache_ttl = duration_env env ''FIDUCIA_AUTH_CACHE_TTL_SECS'' 60,
          ac_negative_cache_ttl = duration_env env ''FIDUCIA_AUTH_NEGATIVE_CACHE_TTL_SECS'' 5,
          ac_jwks_ttl = duration_env env ''FIDUCIA_AUTH_JWKS_TTL_SECS'' (10 * 60),
          ac_http_timeout = duration_env env ''FIDUCIA_AUTH_HTTP_TIMEOUT_SECS'' 2,
          ac_revocation_check_url = or_default (env_value env ''FIDUCIA_REVOCATION_CHECK_URL'')
            ''http://fiducia-revocation-admin.fiducia.svc.cluster.local:8098/v1/revocations/check'',
          ac_revocation_reader_secret =
            (case secret of Some s \<Rightarrow> if valid_reader_secret s then Some s else None | None \<Rightarrow> None),
          ac_revocation_freshness_secs =
            max (u64_env env ''FIDUCIA_REVOCATION_CACHE_FRESHNESS_SECS'' 30) 1,
          ac_revocation_capacity =
            max (usize_env env ''FIDUCIA_REVOCATION_CACHE_CAPACITY'' 65536) 1,
          ac_revocation_refresh_timeout =
            max (u64_env env ''FIDUCIA_REVOCATION_TIMEOUT_MILLIS'' 2000) 1\<rparr>)"

definition auth_state_from_env :: "bool \<Rightarrow> environment \<Rightarrow> auth_state" where
  "auth_state_from_env is_debug_build env =
     (let c = config_from_env is_debug_build env in
      \<lparr>as_config = c, as_decisions = [], as_jwks = None,
       as_revocations = cache_new (ac_revocation_freshness_secs c) (ac_revocation_capacity c)\<rparr>)"

section \<open>Lemmas\<close>

lemma fold_difference_zero:
  "length ls = length rs \<Longrightarrow> fold_difference d ls rs = 0 \<longleftrightarrow> d = 0 \<and> ls = rs"
proof (induction d ls rs rule: fold_difference.induct)
  case (1 d l ls r rs)
  have "l XOR r = 0 \<longleftrightarrow> l = r" by (auto simp: bit_eq_iff bit_simps)
  then have "d OR (l XOR r) = 0 \<longleftrightarrow> d = 0 \<and> l = r" by (simp add: or_eq_0_iff)
  with 1 show ?case by auto
qed auto

lemma constant_time_eq_iff: "constant_time_eq a b \<longleftrightarrow> a = b"
  by (auto simp: constant_time_eq_def fold_difference_zero)

lemma as_bytes_inj: "as_bytes a = as_bytes b \<longleftrightarrow> a = b"
  by (metis of_bytes_as_bytes)

lemma unique_header_str_Some [result_iff]:
  "unique_header_str h n = Some (Some v) \<longleftrightarrow> header_get_all h n = [v] \<and> header_to_str v = Some v"
  "unique_header_str h n = Some None \<longleftrightarrow> header_get_all h n = []"
  by (auto simp: unique_header_str_def header_to_str_def split: list.split if_splits)

text \<open>The decision cache under its contract.\<close>

definition decisions_ok :: "(string, decision_entry) hmap \<Rightarrow> bool" where
  "decisions_ok m \<longleftrightarrow> hinvar m \<and> length m \<le> max_cached_decisions"

lemma hremove_min_length:
  "hinvar m \<Longrightarrow> min_by_key f m = Some (k, v) \<Longrightarrow> length (hremove k m) = length m - 1"
  using min_by_key_Some [of f m "(k, v)"] by (auto simp: hmap_simps hget_mem [symmetric])

lemma length_hretain: "length (hretain P m) \<le> length m"
  by (simp add: hretain_def)

lemma prune_decisions_ok:
  assumes "hinvar m" "length m \<le> cap" "0 < cap"
  shows "hinvar (prune_decisions m now cap)" "length (prune_decisions m now cap) < cap"
proof -
  have "hinvar (hretain P m)" for P using assms(1) by (rule hinvar_hretain)
  note inv = this
  let ?r = "hretain (\<lambda>_ cached. now < cd_expires_at cached) m"
  show "hinvar (prune_decisions m now cap)"
    using assms(1) inv by (auto simp: prune_decisions_def Let_def hmap_simps split: option.split)
  show "length (prune_decisions m now cap) < cap"
  proof (cases "length m < cap \<or> length ?r < cap")
    case False
    then have "?r \<noteq> []" using assms(3) by auto
    then obtain k v where kv: "min_by_key (\<lambda>(_, cached). cd_expires_at cached) ?r = Some (k, v)"
      by (cases "min_by_key (\<lambda>(_, cached). cd_expires_at cached) ?r") auto
    have "length (hremove k ?r) = length ?r - 1" using inv kv by (rule hremove_min_length)
    moreover have "length ?r \<le> cap" using length_hretain assms(2) by (rule order.trans)
    ultimately show ?thesis using False kv assms(3) by (simp add: prune_decisions_def Let_def)
  qed (auto simp: prune_decisions_def Let_def)
qed

lemma prune_decisions_get:
  assumes "hinvar m"
  shows "hget (prune_decisions m now cap) k = hget m k \<or> hget (prune_decisions m now cap) k = None"
  using assms by (auto simp: prune_decisions_def Let_def hmap_simps hget_hretain split: option.split)

text \<open>
  What a full cache gives up: the expired entries, and if none is expired the one that
  expires first.
\<close>

lemma prune_decisions_drops:
  assumes "hinvar m" "hget m k = Some e" "now < cd_expires_at e"
    and "hget (prune_decisions m now cap) k = None"
  shows "cap \<le> length m \<and> (\<forall>k' e'. hget m k' = Some e' \<longrightarrow> now < cd_expires_at e' \<longrightarrow>
    cd_expires_at e \<le> cd_expires_at e')"
proof -
  let ?r = "hretain (\<lambda>_ cached. now < cd_expires_at cached) m"
  have r: "hinvar ?r" using assms(1) by (rule hinvar_hretain)
  have keep: "hget ?r k = Some e" using assms(1-3) by (simp add: hget_hretain)
  have cap: "cap \<le> length m" "cap \<le> length ?r"
    using assms(2,4) keep by (auto simp: prune_decisions_def Let_def split: if_splits)
  obtain k0 e0 where m: "min_by_key (\<lambda>(_, cached). cd_expires_at cached) ?r = Some (k0, e0)"
    using keep by (cases "min_by_key (\<lambda>(_, cached). cd_expires_at cached) ?r") auto
  then have "k0 = k"
    using assms(4) keep cap by (auto simp: prune_decisions_def Let_def hmap_simps split: if_splits)
  moreover have "hget ?r k0 = Some e0" using min_by_key_Some [OF m] r by (simp add: hget_mem)
  ultimately have "e0 = e" using keep by simp
  have "cd_expires_at e \<le> cd_expires_at e'" if "hget m k' = Some e'" "now < cd_expires_at e'" for k' e'
  proof -
    have "hget ?r k' = Some e'" using assms(1) that by (simp add: hget_hretain)
    then have "(k', e') \<in> set ?r" using r by (simp add: hget_mem)
    then show ?thesis using min_by_key_Some [OF m] \<open>e0 = e\<close> by auto
  qed
  with cap show ?thesis by blast
qed

interpretation dc: bounded_cache hget "\<lambda>k v m. hinsert k v (prune_decisions m now max_cached_decisions)"
    length "\<lambda>_. max_cached_decisions" decisions_ok for now
proof
  fix m :: "(string, decision_entry) hmap" and k k' :: string and v
  let ?p = "prune_decisions m now max_cached_decisions"
  show "hget (hinsert k v ?p) k = Some v" by (simp add: hmap_simps)
  show "hget (hinsert k v ?p) k' = hget m k' \<or> hget (hinsert k v ?p) k' = None"
    if "decisions_ok m" "k' \<noteq> k"
    using that prune_decisions_get [of m now max_cached_decisions k']
    by (auto simp: decisions_ok_def hmap_simps)
  show "decisions_ok (hinsert k v ?p)" if "decisions_ok m"
    using that prune_decisions_ok [of m max_cached_decisions now]
    by (simp add: decisions_ok_def hmap_simps max_cached_decisions_def)
  show "length m \<le> max_cached_decisions" if "decisions_ok m"
    using that by (simp add: decisions_ok_def)
qed simp

section \<open>Where cached identities come from\<close>

text \<open>
  The decision map under the stores the handlers make, in any order (a handler looks up, awaits
  the auth service and stores; other requests store in between), together with the history of
  what the auth service said: the credential, the introspection and when it was stored, for every
  introspection that gave an identity.
\<close>

type_synonym told = "string \<times> introspection \<times> instant"

inductive decisions_step :: "externals \<Rightarrow> auth_config \<Rightarrow> (string, decision_entry) hmap \<times> told list \<Rightarrow>
    (string, decision_entry) hmap \<times> told list \<Rightarrow> bool" for x c where
  ds_negative: "decisions_step x c (as_decisions st, h)
    (as_decisions (cache_decision key None ttl now st), h)"
| ds_positive: "fetch_introspection io c api_key = Inr i \<Longrightarrow>
    identity_from_introspection i = Some v \<Longrightarrow>
    decisions_step x c (as_decisions st, h)
      (as_decisions (cache_decision (credential_cache_key x ''api_key'' api_key) (Some v)
        (ac_cache_ttl c) (io_store_at io) st), (api_key, i, io_store_at io) # h)"

inductive_cases decisions_step_cases: "decisions_step x c s s'"

definition decisions_init :: "(string, decision_entry) hmap \<times> told list \<Rightarrow> bool" where
  "decisions_init s \<longleftrightarrow> s = ([], [])"

text \<open>A cached identity for key \<^term>\<open>k\<close> until \<^term>\<open>until\<close> that an entry of the history accounts for.\<close>

definition introspected :: "externals \<Rightarrow> auth_config \<Rightarrow> told list \<Rightarrow> string \<Rightarrow> verified_identity \<Rightarrow>
    instant \<Rightarrow> bool" where
  "introspected x c h k v until \<longleftrightarrow>
     (\<exists>(key, i, at) \<in> set h. k = credential_cache_key x ''api_key'' key \<and>
        identity_from_introspection i = Some v \<and> until = at + unat (ac_cache_ttl c))"

definition decisions_inv :: "externals \<Rightarrow> auth_config \<Rightarrow> (string, decision_entry) hmap \<times> told list \<Rightarrow> bool" where
  "decisions_inv x c s \<longleftrightarrow>
     decisions_ok (fst s) \<and>
     (\<forall>k e v. hget (fst s) k = Some e \<longrightarrow> cd_identity e = Some v \<longrightarrow>
        introspected x c (snd s) k v (cd_expires_at e))"

lemma cache_decision_decisions:
  "as_decisions (cache_decision key ident ttl now st) =
     (if ttl = 0 then as_decisions st
      else hinsert key \<lparr>cd_expires_at = now + unat ttl, cd_identity = ident\<rparr>
        (prune_decisions (as_decisions st) now max_cached_decisions))"
  by (simp add: cache_decision_def)

lemma decisions_inv_store:
  assumes "decisions_inv x c (as_decisions st, h)" "set h \<subseteq> set h'"
    and "\<And>v. ident = Some v \<Longrightarrow> introspected x c h' key v (now + unat ttl)"
  shows "decisions_inv x c (as_decisions (cache_decision key ident ttl now st), h')"
proof -
  have ok: "decisions_ok (as_decisions st)" using assms(1) by (simp add: decisions_inv_def)
  have old: "introspected x c h' k v (cd_expires_at e)"
    if "hget (as_decisions st) k = Some e" "cd_identity e = Some v" for k e v
    using that assms(1,2) unfolding decisions_inv_def introspected_def by fastforce
  show ?thesis
  proof (cases "ttl = 0")
    case True
    then show ?thesis using ok old by (simp add: decisions_inv_def cache_decision_def)
  next
    case False
    show ?thesis
      using old assms(3) dc.put_invar [OF ok] dc.put_source [OF ok]
      unfolding decisions_inv_def cache_decision_decisions if_not_P [OF False] fst_conv snd_conv
      by (metis decision_entry.select_convs)
  qed
qed

interpretation dm: inductive_invariant decisions_init "decisions_step x c" "decisions_inv x c" for x c
proof
  show "decisions_inv x c s" if "decisions_init s" for s
    using that by (simp add: decisions_inv_def decisions_ok_def decisions_init_def)
  show "decisions_inv x c s'" if "decisions_inv x c s" "decisions_step x c s s'" for s s'
    using that(2,1)
    by (cases rule: decisions_step.cases) (auto intro!: decisions_inv_store simp: introspected_def)
qed

lemma identity_from_introspection_Some [result_iff]:
  "identity_from_introspection i = Some v \<longleftrightarrow>
     (\<exists>org. in_org_id i = Some org \<and> in_valid i \<and> valid_identifier org \<and> valid_scopes (in_scopes i) \<and>
        v = \<lparr>vi_kind = ApiKey, vi_org_id = org,
          vi_key_id = (case in_key_id i of None \<Rightarrow> None | Some k \<Rightarrow> if valid_identifier k then Some k else None),
          vi_scopes = in_scopes i,
          vi_require_idempotency = (case in_require_idempotency i of None \<Rightarrow> False | Some b \<Rightarrow> b)\<rparr>)"
  by (auto simp: identity_from_introspection_def split: option.splits)

lemma validate_claim_contract_Inr [result_iff]:
  "validate_claim_contract cl iss aud now = Inr u \<longleftrightarrow>
     cl_iss cl = iss \<and> cl_aud cl = aud \<and> valid_identifier (cl_sub cl) \<and>
     valid_identifier (cl_org_id cl) \<and> valid_identifier (cl_jti cl) \<and> cl_sub cl = cl_org_id cl \<and>
     unat (cl_iat cl) < unat (cl_exp cl) \<and> unat (cl_exp cl) \<le> unat (cl_iat cl) + 900 \<and>
     unat (cl_iat cl) \<le> unat now + 30 \<and> valid_scopes (cl_scopes cl)"
proof -
  have "cl_exp cl - cl_iat cl \<le> 900 \<longleftrightarrow> unat (cl_exp cl) \<le> unat (cl_iat cl) + 900"
    if "unat (cl_iat cl) < unat (cl_exp cl)"
    using that by (simp add: word_le_nat_alt unat_sub) linarith
  then have "cl_exp cl \<le> cl_iat cl \<or> 900 < cl_exp cl - cl_iat cl \<longleftrightarrow>
      \<not> (unat (cl_iat cl) < unat (cl_exp cl) \<and> unat (cl_exp cl) \<le> unat (cl_iat cl) + 900)"
    unfolding not_le [symmetric] by (cases "unat (cl_iat cl) < unat (cl_exp cl)")
      (simp_all add: word_le_nat_alt [of "cl_exp cl" "cl_iat cl"])
  moreover have "saturating_add now 30 < cl_iat cl \<longleftrightarrow> \<not> unat (cl_iat cl) \<le> unat now + 30"
    using unsigned_less [of "cl_iat cl", where 'a = nat]
    by (auto simp: word_less_nat_alt unat_saturating_add)
  ultimately show ?thesis
    unfolding validate_claim_contract_def max_access_token_ttl_secs_def jwt_clock_skew_secs_def
    by auto
qed

lemma find_jwk_Some: "find_jwk kid js = Some k \<Longrightarrow> jwk_kid k = Some kid"
  by (auto simp: find_jwk_def find_Some_iff)

text \<open>
  The key sets a request may take a key from: the cached one while it is within its lifetime, and
  those the request fetches (it makes at most two fetches).
\<close>

definition current_jwks :: "auth_io \<Rightarrow> auth_state \<Rightarrow> jwk list \<Rightarrow> bool" where
  "current_jwks io st js \<longleftrightarrow>
     (\<exists>cached. as_jwks st = Some cached \<and> js = cj_jwks cached \<and>
        io_jwks_checked_at io - cj_fetched_at cached < unat (ac_jwks_ttl (as_config st))) \<or>
     (\<exists>n \<in> {0, 1}. \<exists>body. http_ok_body (io_jwks io n (ac_jwks_url (as_config st))) = Some body \<and>
        length body \<le> max_jwks_response_bytes \<and> io_parse_jwks io body = Some js)"

lemma refresh_jwks_current:
  "refresh_jwks io n st = (Inr js, st') \<Longrightarrow> n \<in> {0, 1} \<Longrightarrow> current_jwks io st js"
  unfolding refresh_jwks_def current_jwks_def by (auto split: option.splits if_splits)

lemma refresh_jwks_frame:
  "refresh_jwks io n st = (r, st') \<Longrightarrow>
   as_config st' = as_config st \<and> as_decisions st' = as_decisions st \<and> as_revocations st' = as_revocations st"
  by (auto simp: refresh_jwks_def split: option.splits if_splits)

lemma cached_jwks_frame:
  "cached_jwks io st = (r, n, st') \<Longrightarrow>
   as_config st' = as_config st \<and> as_decisions st' = as_decisions st \<and> as_revocations st' = as_revocations st"
  by (auto simp: cached_jwks_def Let_def dest: refresh_jwks_frame split: option.splits if_splits prod.splits)

lemma cached_jwks_current:
  assumes "cached_jwks io st = (Inr js, n, st')"
  shows "current_jwks io st js" "n \<in> {0, 1}" "as_config st' = as_config st"
proof -
  show "n \<in> {0, 1}" "as_config st' = as_config st"
    using assms cached_jwks_frame [OF assms]
    by (auto simp: cached_jwks_def split: option.splits if_splits prod.splits)
  show "current_jwks io st js"
    using assms refresh_jwks_current [of io 0 st js]
    by (auto simp: cached_jwks_def current_jwks_def split: option.splits if_splits prod.splits)
qed

lemma jwk_for_kid_frame:
  assumes "jwk_for_kid io kid st = (r, st')"
  shows "as_config st' = as_config st \<and> as_decisions st' = as_decisions st \<and>
    as_revocations st' = as_revocations st"
  using assms
  by (auto simp: jwk_for_kid_def dest!: cached_jwks_frame refresh_jwks_frame
      split: sum.splits option.splits prod.splits)

lemma jwk_for_kid_current:
  assumes "jwk_for_kid io kid st = (Inr key, st')"
  obtains js where "current_jwks io st js" "find_jwk kid js = Some key"
proof -
  obtain js n st1 where c: "cached_jwks io st = (Inr js, n, st1)"
    using assms by (auto simp: jwk_for_kid_def split: sum.splits prod.splits)
  note C = cached_jwks_current [OF c]
  show ?thesis
  proof (cases "find_jwk kid js")
    case (Some k)
    then have "find_jwk kid js = Some key" using assms c by (simp add: jwk_for_kid_def)
    with C(1) show ?thesis by (rule that)
  next
    case None
    then obtain js' st2 where r: "refresh_jwks io n st1 = (Inr js', st2)" "find_jwk kid js' = Some key"
      using assms c by (auto simp: jwk_for_kid_def split: sum.splits prod.splits option.splits)
    have "\<exists>body. http_ok_body (io_jwks io n (ac_jwks_url (as_config st1))) = Some body \<and>
        length body \<le> max_jwks_response_bytes \<and> io_parse_jwks io body = Some js'"
      using r(1) by (auto simp: refresh_jwks_def split: option.splits if_splits)
    then have "current_jwks io st js'"
      using C(2,3) unfolding current_jwks_def by metis
    then show ?thesis using r(2) by (rule that)
  qed
qed

lemma verify_jwt_frame:
  "verify_jwt lib io jwt st = (r, st') \<Longrightarrow>
   as_config st' = as_config st \<and> as_decisions st' = as_decisions st \<and> as_revocations st' = as_revocations st"
  by (auto simp: verify_jwt_def dest!: jwk_for_kid_frame(1)
      split: sum.splits option.splits prod.splits if_splits)

lemma verify_jwt_Inr:
  assumes "verify_jwt lib io jwt st = (Inr (v, cl), st')"
  obtains alg kid js key dk where
    "jl_decode_header lib jwt = Some (alg, Some kid)" "is_asymmetric_algorithm alg"
    "current_jwks io st js" "find_jwk kid js = Some key" "\<not> jwk_octet key" "jl_decoding_key lib key = Some dk"
    "jl_decode lib jwt dk \<lparr>va_algorithm = alg, va_issuer = [ac_jwt_issuer (as_config st)],
       va_audience = [ac_jwt_audience (as_config st)], va_required = required_claims\<rparr> = Some cl"
    "validate_claim_contract cl (ac_jwt_issuer (as_config st)) (ac_jwt_audience (as_config st))
       (io_unix_secs_claims io) = Inr ()"
    "identity_from_claims cl = Inr v"
proof -
  obtain alg kid key dk where
    "jl_decode_header lib jwt = Some (alg, Some kid)" "is_asymmetric_algorithm alg"
    "jwk_for_kid io kid st = (Inr key, st')" "\<not> jwk_octet key" "jl_decoding_key lib key = Some dk"
    "jl_decode lib jwt dk \<lparr>va_algorithm = alg, va_issuer = [ac_jwt_issuer (as_config st')],
       va_audience = [ac_jwt_audience (as_config st')], va_required = required_claims\<rparr> = Some cl"
    "validate_claim_contract cl (ac_jwt_issuer (as_config st')) (ac_jwt_audience (as_config st'))
       (io_unix_secs_claims io) = Inr ()"
    "identity_from_claims cl = Inr v"
    using assms
    by (auto simp: verify_jwt_def reject_symmetric_jwk_def
        split: sum.splits option.splits prod.splits if_splits)
  moreover obtain js where "current_jwks io st js" "find_jwk kid js = Some key"
    using jwk_for_kid_current [OF calculation(3)] by blast
  ultimately show ?thesis using that verify_jwt_frame [OF assms] by simp
qed

section \<open>Properties\<close>

text \<open>
  C11: no JWT is accepted without a live revocation check. If a JWT authenticates, then its
  header names an asymmetric algorithm and a key ID; the key is the first of that ID in the cached
  key set, still within its lifetime, or in one this request fetched from the configured URL, and
  it is not symmetric; the library verified the token with it for the configured issuer and
  audience; the claims satisfy the whole contract (issuer and audience, well-formed subject,
  tenant and token ID, tenant equal to subject, lifetime at most 15 minutes, not issued more than
  30 seconds ahead, well-formed scopes); the identity is exactly the claims'; and the revocation
  gate holds a fresh "allow" or just got one from the authority. No cached identity is ever used.
\<close>

theorem jwt_requires_live_revocation_check:
  assumes "authenticate_jwt x lib io jwt st = (Inr v, st')"
  shows "\<exists>alg kid js key dk cl.
    jl_decode_header lib jwt = Some (alg, Some kid) \<and> is_asymmetric_algorithm alg \<and>
    ((\<exists>cached. as_jwks st = Some cached \<and> js = cj_jwks cached \<and>
        io_jwks_checked_at io - cj_fetched_at cached < unat (ac_jwks_ttl (as_config st))) \<or>
     (\<exists>n \<in> {0, 1}. \<exists>body. http_ok_body (io_jwks io n (ac_jwks_url (as_config st))) = Some body \<and>
        length body \<le> 256 * 1024 \<and> io_parse_jwks io body = Some js)) \<and>
    find (\<lambda>k. jwk_kid k = Some kid) js = Some key \<and>
    jwk_kid key = Some kid \<and> \<not> jwk_octet key \<and> jl_decoding_key lib key = Some dk \<and>
    jl_decode lib jwt dk \<lparr>va_algorithm = alg, va_issuer = [ac_jwt_issuer (as_config st)],
      va_audience = [ac_jwt_audience (as_config st)], va_required = required_claims\<rparr> = Some cl \<and>
    cl_iss cl = ac_jwt_issuer (as_config st) \<and> cl_aud cl = ac_jwt_audience (as_config st) \<and>
    valid_identifier (cl_sub cl) \<and> valid_identifier (cl_jti cl) \<and>
    cl_sub cl = cl_org_id cl \<and> valid_identifier (cl_org_id cl) \<and> valid_scopes (cl_scopes cl) \<and>
    unat (cl_iat cl) < unat (cl_exp cl) \<and> unat (cl_exp cl) \<le> unat (cl_iat cl) + 900 \<and>
    unat (cl_iat cl) \<le> unat (io_unix_secs_claims io) + 30 \<and>
    v = \<lparr>vi_kind = Jwt, vi_org_id = cl_org_id cl, vi_key_id = None, vi_scopes = cl_scopes cl,
      vi_require_idempotency = False\<rparr> \<and>
    rc_high_water (as_revocations st) \<le> io_unix_secs_gate io \<and>
    ((\<exists>e. hget (rc_entries (as_revocations st)) (revocation_cache_key x cl) = Some e \<and>
        en_decision e = Allow \<and>
        unat (io_unix_secs_gate io) - unat (en_observed_at e) \<le> unat (rc_budget (as_revocations st))) \<or>
     \<not> io_revocation_timed_out io \<and>
     check_revocation (io_revocation_send io) (io_parse_decision io)
       (ac_revocation_reader_secret (as_config st)) cl (io_unix_secs_gate io) = Inr False)"
proof -
  obtain cl st1 where ver: "verify_jwt lib io jwt st = (Inr (v, cl), st1)"
    and auth: "fst (authorize x cl (io_unix_secs_gate io)
      (revocation_answer io (as_config st1) cl (io_unix_secs_gate io)) (as_revocations st1)) = Allowed"
    using assms
    by (auto simp: authenticate_jwt_def Let_def
        split: if_splits prod.splits sum.splits authorization.splits)
  note frame = verify_jwt_frame [OF ver]
  from ver show ?thesis
  proof (rule verify_jwt_Inr, goal_cases)
    case (1 alg kid js key dk)
    have "rc_high_water (as_revocations st) \<le> io_unix_secs_gate io \<and>
      ((\<exists>e. hget (rc_entries (as_revocations st)) (revocation_cache_key x cl) = Some e \<and>
        en_decision e = Allow \<and>
        unat (io_unix_secs_gate io) - unat (en_observed_at e) \<le> unat (rc_budget (as_revocations st))) \<or>
      \<not> io_revocation_timed_out io \<and>
      check_revocation (io_revocation_send io) (io_parse_decision io)
        (ac_revocation_reader_secret (as_config st)) cl (io_unix_secs_gate io) = Inr False)"
      using auth frame
      by (auto simp: authorize_def gate_lookup_eq refresh_def record_refresh_start_def advance_def
          finish_refresh_def apply_decision_eq revocation_answer_def Let_def
          split: if_splits option.splits answer.splits sum.splits)
    moreover have "jwk_kid key = Some kid" using 1(4) by (rule find_jwk_Some)
    ultimately show ?thesis
      using 1 [unfolded current_jwks_def find_jwk_def max_jwks_response_bytes_def]
      by (intro exI [of _ alg] exI [of _ kid] exI [of _ js] exI [of _ key] exI [of _ dk] exI [of _ cl])
        (simp add: result_iff identity_from_claims_def)
  qed
qed

text \<open>
  C26: an API key's identity comes from the auth service. Take any interleaving of cache stores
  and the history of the introspections that gave an identity. If an API key authenticates, then
  either the auth service, asked by this very request, called the key valid, or the history has an introspection, of a credential with the same cache key,
  that was stored less than the configured lifetime before the lookup, and the state is unchanged. In both
  cases the identity is that introspection's: its organisation and scopes, well formed, and
  its key ID where well formed. So a withdrawn key is accepted no longer than the lifetime. The
  cache holds at most 10000 entries, and what the request stores is again accounted for.
\<close>

theorem api_key_identity_was_introspected:
  assumes "reachable decisions_init (decisions_step x (as_config st)) (as_decisions st, h)"
    and "authenticate_api_key x io api_key st = (Inr v, st')"
  shows "length (as_decisions st) \<le> 10000 \<and>
    (\<exists>i. in_valid i \<and> in_org_id i = Some (vi_org_id v) \<and> vi_scopes v = in_scopes i \<and>
      (\<forall>k. vi_key_id v = Some k \<longrightarrow> in_key_id i = Some k) \<and>
      valid_identifier (vi_org_id v) \<and> valid_scopes (vi_scopes v) \<and> vi_kind v = ApiKey \<and>
      (fetch_introspection io (as_config st) api_key = Inr i \<and>
         reachable decisions_init (decisions_step x (as_config st))
           (as_decisions st', (api_key, i, io_store_at io) # h) \<or>
       (\<exists>key at. (key, i, at) \<in> set h \<and>
          credential_cache_key x ''api_key'' key = credential_cache_key x ''api_key'' api_key \<and>
          io_lookup_at io < at + unat (ac_cache_ttl (as_config st)) \<and> st' = st)))"
proof -
  let ?k = "credential_cache_key x ''api_key'' api_key"
  have inv: "decisions_inv x (as_config st) (as_decisions st, h)" using assms(1) by (rule dm.reachable_inv)
  have "\<exists>i. identity_from_introspection i = Some v \<and>
      (fetch_introspection io (as_config st) api_key = Inr i \<and>
         reachable decisions_init (decisions_step x (as_config st))
           (as_decisions st', (api_key, i, io_store_at io) # h) \<or>
       (\<exists>key at. (key, i, at) \<in> set h \<and> credential_cache_key x ''api_key'' key = ?k \<and>
          io_lookup_at io < at + unat (ac_cache_ttl (as_config st)) \<and> st' = st))"
  proof (cases "cached_decision ?k (io_lookup_at io) st")
    case None
    then obtain i where i: "fetch_introspection io (as_config st) api_key = Inr i"
      "identity_from_introspection i = Some v"
      "st' = cache_decision ?k (Some v) (ac_cache_ttl (as_config st)) (io_store_at io) st"
      using assms(2) by (auto simp: authenticate_api_key_def Let_def split: option.splits sum.splits)
    have "decisions_step x (as_config st) (as_decisions st, h)
        (as_decisions st', (api_key, i, io_store_at io) # h)"
      unfolding i(3) using i(1,2) by (rule ds_positive)
    with assms(1) i(1,2) show ?thesis by (blast intro: reach_step)
  next
    case (Some d)
    then have "d = Some v" "st' = st"
      using assms(2) by (auto simp: authenticate_api_key_def Let_def split: option.splits)
    with Some obtain e where e: "hget (as_decisions st) ?k = Some e" "cd_identity e = Some v"
      "io_lookup_at io < cd_expires_at e"
      by (auto simp: cached_decision_def split: option.splits if_splits)
    then have "introspected x (as_config st) h ?k v (cd_expires_at e)"
      using inv unfolding decisions_inv_def by simp
    with e(3) \<open>st' = st\<close> show ?thesis unfolding introspected_def by fastforce
  qed
  then obtain i where i: "identity_from_introspection i = Some v"
    "fetch_introspection io (as_config st) api_key = Inr i \<and>
         reachable decisions_init (decisions_step x (as_config st))
           (as_decisions st', (api_key, i, io_store_at io) # h) \<or>
       (\<exists>key at. (key, i, at) \<in> set h \<and> credential_cache_key x ''api_key'' key = ?k \<and>
          io_lookup_at io < at + unat (ac_cache_ttl (as_config st)) \<and> st' = st)" by blast
  have "in_valid i \<and> in_org_id i = Some (vi_org_id v) \<and> vi_scopes v = in_scopes i \<and>
      (\<forall>k. vi_key_id v = Some k \<longrightarrow> in_key_id i = Some k) \<and>
      valid_identifier (vi_org_id v) \<and> valid_scopes (vi_scopes v) \<and> vi_kind v = ApiKey"
    using i(1) by (auto simp: result_iff split: option.splits if_splits)
  moreover have "length (as_decisions st) \<le> 10000"
    using inv by (simp add: decisions_inv_def decisions_ok_def max_cached_decisions_def)
  ultimately show ?thesis using i(2) by blast
qed

text \<open>
  C30: the trusted-edge boundary. Forwarded identity headers count only with a configured secret
  and exactly one edge-auth header that equals it; the organisation is one header with a
  well-formed trimmed value; kind, scopes and key ID appear at most once and are well formed.
  The comparison of the secrets, which does not stop at the first difference, is equality.
\<close>

theorem trusted_edge_requires_secret:
  assumes "trusted_edge_identity h secret = Some v"
  shows "(\<exists>s. secret = Some s \<and> header_get_all h edge_auth_header = [s]) \<and>
    (\<exists>org. header_get_all h ''x-fiducia-org-id'' = [org] \<and> vi_org_id v = trim org \<and>
       valid_identifier (vi_org_id v)) \<and>
    header_get_all h ''x-fiducia-auth-kind'' \<in>
      (if vi_kind v = ApiKey then {[], [''api_key'']} else {[''jwt'']}) \<and>
    (header_get_all h ''x-fiducia-scopes'' = [] \<and> vi_scopes v = [] \<or>
     (\<exists>s. header_get_all h ''x-fiducia-scopes'' = [s] \<and> vi_scopes v = split_whitespace s)) \<and>
    valid_scopes (vi_scopes v) \<and>
    (header_get_all h ''x-fiducia-key-id'' = [] \<and> vi_key_id v = None \<or>
     (\<exists>k. header_get_all h ''x-fiducia-key-id'' = [k] \<and>
        (if trim k = [] then vi_key_id v = None
         else vi_key_id v = Some (trim k) \<and> valid_identifier (trim k)))) \<and>
    \<not> vi_require_idempotency v"
proof -
  obtain s org kv sv idv where
    s: "secret = Some s" "unique_header_str h edge_auth_header = Some (Some s)" and
    org: "unique_header_str h ''x-fiducia-org-id'' = Some (Some org)" "valid_identifier (trim org)"
      "vi_org_id v = trim org" and
    kind: "unique_header_str h ''x-fiducia-auth-kind'' = Some kv"
      "kv \<in> (if vi_kind v = ApiKey then {None, Some ''api_key''} else {Some ''jwt''})" and
    scopes: "unique_header_str h ''x-fiducia-scopes'' = Some sv" "valid_scopes (vi_scopes v)"
      "vi_scopes v = (case sv of None \<Rightarrow> [] | Some w \<Rightarrow> split_whitespace w)" and
    key: "unique_header_str h ''x-fiducia-key-id'' = Some idv"
      "vi_key_id v = (case idv of None \<Rightarrow> None | Some w \<Rightarrow> if trim w = [] then None else Some (trim w))"
      "\<forall>w. vi_key_id v = Some w \<longrightarrow> valid_identifier w" and
    idem: "\<not> vi_require_idempotency v"
    using assms unfolding trusted_edge_identity_def
    by (auto simp: Let_def constant_time_eq_iff as_bytes_inj bind_eq_Some_conv
        split: option.split_asm if_split_asm)
  show ?thesis
    using s org kind scopes key idem
    by (cases kv; cases sv; cases idv) (auto simp: result_iff split: if_split_asm)
qed

text \<open>
  What a full decision cache gives up. Pruning leaves room for the entry to be stored, never
  changes an entry, keeps everything while there is room, and drops an unexpired entry only when
  the cache is full, and then only one that expires no later than every other unexpired one.
\<close>

lemma prune_decisions_spec:
  assumes "hinvar m" "length m \<le> cap" "0 < cap"
  shows "length (prune_decisions m now cap) < cap \<and>
    (\<forall>k. hget (prune_decisions m now cap) k = hget m k \<or>
       hget (prune_decisions m now cap) k = None \<and> cap \<le> length m \<and>
       (\<forall>e k' e'. hget m k = Some e \<longrightarrow> hget m k' = Some e' \<longrightarrow> now < cd_expires_at e' \<longrightarrow>
          cd_expires_at e \<le> cd_expires_at e'))"
proof -
  have "cap \<le> length m \<and> (\<forall>e k' e'. hget m k = Some e \<longrightarrow> hget m k' = Some e' \<longrightarrow>
      now < cd_expires_at e' \<longrightarrow> cd_expires_at e \<le> cd_expires_at e')"
    if k: "hget (prune_decisions m now cap) k \<noteq> hget m k" for k
  proof -
    have gone: "hget (prune_decisions m now cap) k = None"
      using prune_decisions_get [OF assms(1), of now cap k] k by simp
    moreover have "cap \<le> length m" using k by (auto simp: prune_decisions_def split: if_splits)
    moreover have "cd_expires_at e \<le> cd_expires_at e'"
      if "hget m k = Some e" "hget m k' = Some e'" "now < cd_expires_at e'" for e k' e'
      using prune_decisions_drops [OF assms(1) that(1) _ gone] that(2,3)
      by (cases "now < cd_expires_at e") auto
    ultimately show ?thesis by blast
  qed
  then show ?thesis
    using prune_decisions_ok(2) [OF assms] prune_decisions_get [OF assms(1)] by blast
qed

text \<open>
  A load balancer without a valid reader secret denies every JWT. A release build requires
  authentication unless it is switched off explicitly, and a secret shorter than 32 bytes or
  with blanks is no secret; without one no JWT is accepted, however the exchanges go, and no
  decision ever enters the revocation cache, so the next JWT is denied as well.
\<close>

lemma no_reader_secret_denies_jwts:
  assumes "env_value env ''FIDUCIA_REVOCATION_READER_SECRET'' = None \<or>
      (\<exists>s. env_value env ''FIDUCIA_REVOCATION_READER_SECRET'' = Some s \<and> \<not> valid_reader_secret s)"
    and "as_config st = config_from_env False env" "rc_entries (as_revocations st) = []"
  shows "isl (fst (authenticate_jwt x lib io jwt st)) \<and>
    as_config (snd (authenticate_jwt x lib io jwt st)) = as_config st \<and>
    rc_entries (as_revocations (snd (authenticate_jwt x lib io jwt st))) = [] \<and>
    (ac_required (as_config st) \<longleftrightarrow> env_bool_opt env ''FIDUCIA_AUTH_REQUIRED'' \<noteq> Some False)"
proof -
  have sec: "ac_revocation_reader_secret (as_config st) = None"
    using assms(1,2) by (auto simp: config_from_env_def Let_def)
  have "ac_required (as_config st) \<longleftrightarrow> env_bool_opt env ''FIDUCIA_AUTH_REQUIRED'' \<noteq> Some False"
    using assms(2)
    by (auto simp: config_from_env_def Let_def auth_required_decision_def split: option.split)
  moreover have gate: "fst (authorize x cl now (revocation_answer io (as_config st) cl now) (as_revocations st))
      \<in> range Unavailable" 
    "rc_entries (snd (authorize x cl now (revocation_answer io (as_config st) cl now) (as_revocations st))) = []"
    for cl now
  proof -
    have "revocation_answer io (as_config st) cl now \<in> {TimedOut, Answered (Inl Misconfigured)}"
      using sec by (simp add: revocation_answer_def check_revocation_def)
    then show "fst (authorize x cl now (revocation_answer io (as_config st) cl now) (as_revocations st))
        \<in> range Unavailable"
      "rc_entries (snd (authorize x cl now (revocation_answer io (as_config st) cl now) (as_revocations st))) = []"
      using assms(3)
      by (auto simp: authorize_def gate_lookup_eq refresh_def record_refresh_start_def advance_def
          finish_refresh_def Let_def)
  qed
  moreover have "isl (fst (authenticate_jwt x lib io jwt st)) \<and>
    as_config (snd (authenticate_jwt x lib io jwt st)) = as_config st \<and>
    rc_entries (as_revocations (snd (authenticate_jwt x lib io jwt st))) = []"
  proof (cases "verify_jwt lib io jwt st")
    case (Pair r st1)
    note frame = verify_jwt_frame [OF this]
    show ?thesis
    proof (cases r)
      case (Inl e)
      then show ?thesis
        using Pair frame assms(3) by (auto simp: authenticate_jwt_def Let_def cache_decision_def)
    next
      case (Inr vc)
      obtain v cl where vc: "vc = (v, cl)" by fastforce
      show ?thesis
        using Pair frame assms(3) Inr vc gate [of cl "io_unix_secs_gate io"]
        by (auto simp: authenticate_jwt_def Let_def split: prod.split)
    qed
  qed
  ultimately show ?thesis by blast
qed

text \<open>
  A failed key fetch is answered as an invalid token. With no JWKS yet and the JWKS
  endpoint unreachable, any well-formed JWT gets 401 \<^verbatim>\<open>invalid_jwt\<close>, and the negative decision is
  cached: until it expires the same token gets 401 again, whatever the endpoint then answers.
  (An API key in the same situation gets 503 \<^verbatim>\<open>auth_unavailable\<close>, and nothing is cached.)
\<close>

lemma jwks_outage_rejects_token:
  assumes "jl_decode_header lib jwt = Some (alg, Some kid)" "is_asymmetric_algorithm alg"
    and "as_jwks st = None" "io_jwks io 0 (ac_jwks_url (as_config st)) = None"
    and "ac_negative_cache_ttl (as_config st) \<noteq> 0"
    and "io_lookup_at io2 < io_store_at io + unat (ac_negative_cache_ttl (as_config st))"
  shows "fst (authenticate_jwt x lib io jwt st) = Inl invalid_jwt \<and>
    (cached_decision (credential_cache_key x ''invalid_jwt'' jwt) (io_lookup_at io) st \<noteq> Some None \<longrightarrow>
     fst (authenticate_jwt x lib io2 jwt (snd (authenticate_jwt x lib io jwt st))) = Inl invalid_jwt)"
proof -
  have "verify_jwt lib io jwt st = (Inl HttpError, st)"
    using assms(1-4)
    by (simp add: verify_jwt_def jwk_for_kid_def cached_jwks_def refresh_jwks_def http_ok_body_def)
  then show ?thesis
    using assms(5,6)
    by (auto simp: authenticate_jwt_def Let_def cached_decision_def cache_decision_decisions hmap_simps)
qed

section \<open>Witnesses\<close>

definition sample_lib :: jwt_lib where
  "sample_lib = \<lparr>jl_decode_header = \<lambda>_. Some (RS256, Some ''k''), jl_decoding_key = \<lambda>_. Some [],
     jl_decode = \<lambda>_ _ _. Some \<lparr>cl_sub = ''o'', cl_org_id = ''o'', cl_scopes = [],
       cl_iss = ''i'', cl_aud = ''a'', cl_iat = 100, cl_exp = 200, cl_jti = ''j''\<rparr>\<rparr>"

definition sample_io :: auth_io where
  "sample_io = \<lparr>io_introspect = \<lambda>_ _ _. Some (200, Some []), io_jwks = \<lambda>_ _. Some (200, Some []),
     io_revocation_timed_out = False, io_revocation_send = \<lambda>_ _. Some (200, Some []),
     io_parse_decision = \<lambda>_. Some \<lparr>wd_revoked = False, wd_matched_target = None, wd_generation = None,
       wd_expires_at = None\<rparr>,
     io_parse_introspection = \<lambda>_. Some \<lparr>in_valid = True, in_org_id = Some ''o'', in_key_id = None,
       in_scopes = [], in_require_idempotency = None\<rparr>,
     io_parse_jwks = \<lambda>_. Some [\<lparr>jwk_kid = Some ''k'', jwk_octet = False, jwk_material = []\<rparr>],
     io_lookup_at = 10, io_store_at = 10, io_jwks_checked_at = 10, io_jwks_fetched_at = \<lambda>_. 10,
     io_unix_secs_claims = 150, io_unix_secs_gate = 150\<rparr>"

definition sample_auth :: auth_state where
  "sample_auth =
     \<lparr>as_config = \<lparr>ac_required = True, ac_allow_api_keys = True, ac_allow_jwts = True,
        ac_introspect_url = ''u'', ac_introspect_secret = None, ac_jwks_url = ''k'', ac_jwt_issuer = ''i'',
        ac_jwt_audience = ''a'', ac_cache_ttl = 60, ac_negative_cache_ttl = 5, ac_jwks_ttl = 600,
        ac_http_timeout = 2, ac_revocation_check_url = ''r'', ac_revocation_reader_secret = Some ''s'',
        ac_revocation_freshness_secs = 30, ac_revocation_capacity = 9,
        ac_revocation_refresh_timeout = 2000\<rparr>,
      as_decisions = [], as_jwks = None, as_revocations = cache_new 30 9\<rparr>"

lemma sample_identifiers: "valid_identifier ''o''" "valid_identifier ''j''"
  by (simp_all add: valid_identifier_def trim_def valid_chars_def str_simps is_whitespace_def)

lemma sample_auth_simps [simp]:
  "as_decisions sample_auth = []" "as_jwks sample_auth = None" "as_revocations sample_auth = cache_new 30 9"
  "ac_jwt_issuer (as_config sample_auth) = ''i''" "ac_jwt_audience (as_config sample_auth) = ''a''"
  "ac_revocation_reader_secret (as_config sample_auth) = Some ''s''"
  "ac_negative_cache_ttl (as_config sample_auth) = 5"
  by (simp_all add: sample_auth_def)

lemma sample_jwt:
  "fst (authenticate_jwt sample_x sample_lib sample_io jwt sample_auth) =
     Inr \<lparr>vi_kind = Jwt, vi_org_id = ''o'', vi_key_id = None, vi_scopes = [], vi_require_idempotency = False\<rparr>"
proof -
  obtain r st where p: "verify_jwt sample_lib sample_io jwt sample_auth = (r, st)" by fastforce
  then have r: "r =
    Inr (\<lparr>vi_kind = Jwt, vi_org_id = ''o'', vi_key_id = None, vi_scopes = [], vi_require_idempotency = False\<rparr>,
      \<lparr>cl_sub = ''o'', cl_org_id = ''o'', cl_scopes = [], cl_iss = ''i'', cl_aud = ''a'', cl_iat = 100,
       cl_exp = 200, cl_jti = ''j''\<rparr>)"
    by (simp add: verify_jwt_def sample_lib_def sample_io_def is_asymmetric_algorithm_def
      jwk_for_kid_def cached_jwks_def refresh_jwks_def http_ok_body_def max_jwks_response_bytes_def
      find_jwk_def reject_symmetric_jwk_def validate_claim_contract_def sample_identifiers
      max_access_token_ttl_secs_def saturating_add_def jwt_clock_skew_secs_def valid_scopes_def
      identity_from_claims_def)
  show ?thesis
    using verify_jwt_frame [OF p] unfolding authenticate_jwt_def p r
    by (simp add: Let_def cached_decision_def authorize_def gate_lookup_eq
      cache_new_def refresh_def record_refresh_start_def advance_def revocation_answer_def sample_io_def
      check_revocation_def is_success_def max_response_bytes_def validate_wire_decision_def
      finish_refresh_def apply_decision_eq)
qed

theorem jwt_requires_live_revocation_check_witness:
  "\<exists>v st'. authenticate_jwt sample_x sample_lib sample_io ''a.b.c'' sample_auth = (Inr v, st') \<and>
     vi_kind v = Jwt \<and> valid_identifier (vi_org_id v)"
proof -
  obtain v st' where r: "authenticate_jwt sample_x sample_lib sample_io ''a.b.c'' sample_auth = (Inr v, st')"
    using sample_jwt [of "''a.b.c''"] by (metis prod.collapse)
  show ?thesis using jwt_requires_live_revocation_check [OF r] r by auto
qed

text \<open>
  An introspected key is used again 59 seconds later while the auth service is down: the identity
  is the one of the only introspection there was.
\<close>

theorem api_key_identity_was_introspected_witness:
  "\<exists>st v st'. as_decisions st \<noteq> [] \<and>
     authenticate_api_key sample_x (sample_io\<lparr>io_introspect := \<lambda>_ _ _. None, io_lookup_at := 69\<rparr>)
       ''fdc_a.b'' st = (Inr v, st') \<and> vi_org_id v = ''o'' \<and> vi_kind v = ApiKey \<and> st' = st"
proof -
  let ?key = "''fdc_a.b''" and ?io = "sample_io\<lparr>io_introspect := \<lambda>_ _ _. None, io_lookup_at := 69\<rparr>"
  let ?i = "\<lparr>in_valid = True, in_org_id = Some ''o'', in_key_id = None, in_scopes = [],
    in_require_idempotency = None\<rparr>"
  define k where "k = credential_cache_key sample_x ''api_key'' ?key"
  define v where "v = \<lparr>vi_kind = ApiKey, vi_org_id = ''o'', vi_key_id = None, vi_scopes = [],
    vi_require_idempotency = False\<rparr>"
  define st where "st = cache_decision k (Some v) (ac_cache_ttl (as_config sample_auth)) 10 sample_auth"
  have cfg: "as_config st = as_config sample_auth" "ac_cache_ttl (as_config sample_auth) = 60"
    by (simp_all add: st_def cache_decision_def sample_auth_def)
  have dec: "hget (as_decisions st) k = Some \<lparr>cd_expires_at = 70, cd_identity = Some v\<rparr>"
    by (simp add: st_def cache_decision_decisions cfg(2) hmap_simps)
  have fetch: "fetch_introspection sample_io (as_config sample_auth) ?key = Inr ?i"
    by (simp add: fetch_introspection_def sample_io_def http_ok_body_def max_introspection_response_bytes_def)
  have "decisions_step sample_x (as_config sample_auth) (as_decisions sample_auth, [])
      (as_decisions st, [(?key, ?i, 10)])"
    using ds_positive [OF fetch, of v sample_x sample_auth "[]"]
    by (simp add: result_iff sample_identifiers valid_scopes_def v_def st_def k_def sample_io_def)
  then have "reachable decisions_init (decisions_step sample_x (as_config sample_auth))
      (as_decisions st, [(?key, ?i, 10)])"
    by (rule reach_step [rotated]) (simp add: reach_init decisions_init_def)
  then have reach: "reachable decisions_init (decisions_step sample_x (as_config st))
      (as_decisions st, [(?key, ?i, 10)])" by (simp only: cfg(1))
  have a: "authenticate_api_key sample_x ?io ?key st = (Inr v, st)"
    using dec by (simp add: authenticate_api_key_def cached_decision_def k_def [symmetric])
  have "fetch_introspection ?io (as_config st) ?key \<noteq> Inr i" for i
    by (simp add: fetch_introspection_def http_ok_body_def)
  then have "vi_org_id v = ''o'' \<and> vi_kind v = ApiKey"
    using api_key_identity_was_introspected [OF reach a] by auto
  with a dec show ?thesis by (intro exI [of _ st] exI [of _ v]) auto
qed

theorem trusted_edge_requires_secret_witness:
  "\<exists>v. trusted_edge_identity [(''x-fiducia-edge-auth'', ''s3''), (''x-fiducia-org-id'', '' o '')]
       (Some ''s3'') = Some v \<and> vi_org_id v = ''o'' \<and> vi_key_id v = None"
proof -
  let ?h = "[(''x-fiducia-edge-auth'', ''s3''), (''x-fiducia-org-id'', '' o '')]"
  have t: "trim '' o '' = ''o''" by (simp add: trim_def str_simps is_whitespace_def)
  have "trusted_edge_identity ?h (Some ''s3'') \<noteq> None"
    by (simp add: trusted_edge_identity_def unique_header_str_def header_get_all_def edge_auth_header_def
        header_to_str_def constant_time_eq_iff t sample_identifiers valid_scopes_def)
  then obtain v where v: "trusted_edge_identity ?h (Some ''s3'') = Some v" by auto
  with trusted_edge_requires_secret [OF v] t show ?thesis by (auto simp: header_get_all_def)
qed

end
