(* ===== verification/Scopes.thy ===== *)
theory Scopes
  imports Auth Routing
begin

text \<open>
  The authorisation half of \<^verbatim>\<open>src/src/proxy.rs\<close>: dot segments, the scopes a route requires, and
  whether an identity's scopes permit it.
\<close>

section \<open>Definitions\<close>

definition path_has_dot_segment :: "string \<Rightarrow> bool" where
  "path_has_dot_segment path \<longleftrightarrow>
     list_ex (\<lambda>segment. to_ascii_lowercase segment \<in>
         set [''.'', ''%2e'', ''..'', ''.%2e'', ''%2e.'', ''%2e%2e''])
       (split_on CHR ''/'' path)"

definition dot_segment_response :: "uri \<Rightarrow> response" where
  "dot_segment_response u = json_response 400 (JObject
     [(''error'', JString ''invalid_path''),
      (''detail'', JString ''path may not contain a '.' or '..' segment''),
      (''path'', JString (uri_path u))])"

definition public_scopes :: "string list" where "public_scopes = []"

definition admin_read_scopes :: "string list" where
  "admin_read_scopes = [''admin:read'', ''admin:write'']"

definition admin_write_scopes :: "string list" where
  "admin_write_scopes = [''admin:write'']"

definition kv_read_scopes :: "string list" where
  "kv_read_scopes = [''kv:read'', ''kv:write'', ''admin:read'', ''admin:write'']"

definition kv_write_scopes :: "string list" where
  "kv_write_scopes = [''kv:write'', ''admin:write'']"

definition locks_read_scopes :: "string list" where
  "locks_read_scopes = [''locks:read'', ''locks:write'', ''admin:read'', ''admin:write'']"

definition locks_write_scopes :: "string list" where
  "locks_write_scopes = [''locks:write'', ''admin:write'']"

definition requests_read_scopes :: "string list" where
  "requests_read_scopes = [''requests:read'', ''requests:write'', ''admin:read'', ''admin:write'']"

definition requests_write_scopes :: "string list" where
  "requests_write_scopes = [''requests:write'', ''admin:write'']"

definition rate_limit_read_scopes :: "string list" where
  "rate_limit_read_scopes = [''rate-limit:read'', ''rate-limit:write'', ''requests:read'',
     ''requests:write'', ''admin:read'', ''admin:write'']"

definition rate_limit_write_scopes :: "string list" where
  "rate_limit_write_scopes = [''rate-limit:write'', ''requests:write'', ''admin:write'']"

definition cron_read_scopes :: "string list" where
  "cron_read_scopes = [''cron:read'', ''cron:write'', ''requests:read'', ''requests:write'',
     ''admin:read'', ''admin:write'']"

definition cron_write_scopes :: "string list" where
  "cron_write_scopes = [''cron:write'', ''requests:write'', ''admin:write'']"

definition elections_read_scopes :: "string list" where
  "elections_read_scopes = [''elections:read'', ''elections:write'', ''locks:read'', ''locks:write'',
     ''admin:read'', ''admin:write'']"

definition elections_write_scopes :: "string list" where
  "elections_write_scopes = [''elections:write'', ''locks:write'', ''admin:write'']"

definition services_read_scopes :: "string list" where
  "services_read_scopes = [''services:read'', ''services:write'', ''admin:read'', ''admin:write'']"

definition services_write_scopes :: "string list" where
  "services_write_scopes = [''services:write'', ''admin:write'']"

definition is_read_method :: "http_method \<Rightarrow> bool" where
  "is_read_method m \<longleftrightarrow> m = GET \<or> m = HEAD \<or> m = OPTIONS"

definition required_scopes_for_route :: "http_method \<Rightarrow> uri \<Rightarrow> string list" where
  "required_scopes_for_route m u =
     (let read = is_read_method m;
          segs = filter (\<lambda>s. s \<noteq> []) (split_on CHR ''/'' (uri_path u));
          under = (\<lambda>names. list_ex (\<lambda>n. segs_start segs [''v1'', n]) names)
      in if segs = [''healthz''] \<or> segs = [''readyz''] then public_scopes
      else if segs = [''v1'', ''status''] then admin_read_scopes
      else if under [''observe''] then admin_read_scopes
      else if segs = [''v1'', ''kv''] \<and> read then kv_read_scopes
      else if segs = [''v1'', ''kv''] then kv_write_scopes
      else if under [''locks'', ''semaphores'', ''rw''] \<and> read then locks_read_scopes
      else if under [''locks'', ''semaphores'', ''rw''] then locks_write_scopes
      else if segs = [''v1'', ''idempotency''] \<and> read then requests_read_scopes
      else if segs = [''v1'', ''idempotency''] \<or> under [''idempotency''] then requests_write_scopes
      else if under [''rate-limit'', ''ratelimit''] \<and> read then rate_limit_read_scopes
      else if under [''rate-limit'', ''ratelimit''] then rate_limit_write_scopes
      else if under [''cron''] \<and> read then cron_read_scopes
      else if under [''cron''] then cron_write_scopes
      else if under [''elections''] \<and> read then elections_read_scopes
      else if under [''elections''] then elections_write_scopes
      else if under [''services''] \<and> read then services_read_scopes
      else if under [''services''] then services_write_scopes
      else if under [''counters''] \<and> read then kv_read_scopes
      else if under [''counters''] then kv_write_scopes
      else if under [''barriers'', ''handoffs'', ''claims''] \<and> read then locks_read_scopes
      else if under [''barriers'', ''handoffs'', ''claims''] then locks_write_scopes
      else if under [''tasks'', ''effects'', ''decisions''] \<and> read then requests_read_scopes
      else if under [''tasks'', ''effects'', ''decisions''] then requests_write_scopes
      else if under [''budgets''] \<and> read then rate_limit_read_scopes
      else if under [''budgets''] then rate_limit_write_scopes
      else if read then admin_read_scopes
      else admin_write_scopes)"

definition scope_matches :: "string \<Rightarrow> string \<Rightarrow> bool" where
  "scope_matches granted required \<longleftrightarrow>
     (if granted = required then True
      else case strip_suffix granted '':*'' of
        None \<Rightarrow> False
      | Some pre \<Rightarrow>
          (case strip_prefix required pre of
             None \<Rightarrow> False
           | Some rest \<Rightarrow> starts_with rest '':''))"

definition has_any_scope :: "verified_identity \<Rightarrow> string list \<Rightarrow> bool" where
  "has_any_scope v required \<longleftrightarrow>
     list_ex (\<lambda>granted. let granted = trim granted in
         granted = ''*'' \<or> list_ex (scope_matches granted) required)
       (vi_scopes v)"

text \<open>\<open>Inl\<close> carries the scopes the refused caller would have needed.\<close>

definition authorize_route ::
    "verified_identity option \<Rightarrow> http_method \<Rightarrow> uri \<Rightarrow> string list + unit" where
  "authorize_route identity m u =
     (let required = required_scopes_for_route m u in
      if required = [] then Inr ()
      else case identity of None \<Rightarrow> Inl required
      | Some v \<Rightarrow> if has_any_scope v required then Inr () else Inl required)"

definition insufficient_scope_response :: "http_method \<Rightarrow> uri \<Rightarrow> string list \<Rightarrow> response" where
  "insufficient_scope_response m u required = json_response 403 (JObject
     [(''error'', JString ''insufficient_scope''),
      (''detail'', JString ''credential scope does not permit this route''),
      (''method'', JString (method_str m)), (''path'', JString (uri_path u)),
      (''required_scopes'', JArray (map JString required))])"

section \<open>Lemmas\<close>

lemma scope_matches_iff:
  "scope_matches g r \<longleftrightarrow> g = r \<or> (\<exists>p s. g = p @ '':*'' \<and> r = p @ '':'' @ s)"
proof (cases "strip_suffix g '':*''")
  case None
  then have "g \<noteq> p @ '':*''" for p using strip_suffix_Some [of g "'':*''" p] by auto
  with None show ?thesis by (auto simp: scope_matches_def)
next
  case (Some p)
  have "(case strip_prefix r p of None \<Rightarrow> False | Some rest \<Rightarrow> starts_with rest '':'') \<longleftrightarrow>
      (\<exists>s. r = p @ '':'' @ s)"
  proof (cases "strip_prefix r p")
    case None
    then have "r \<noteq> p @ s" for s using strip_prefix_Some [of r p s] by auto
    with None show ?thesis by auto
  next
    case (Some rest)
    then have "r = p @ rest" by (simp add: strip_prefix_Some)
    with Some show ?thesis by (auto simp: starts_with_iff)
  qed
  moreover have "g = p' @ '':*'' \<longleftrightarrow> p' = p" for p'
    using Some by (auto simp: strip_suffix_Some)
  ultimately show ?thesis
    using Some by (auto simp: scope_matches_def)
qed

lemmas scope_tables = public_scopes_def admin_read_scopes_def admin_write_scopes_def kv_read_scopes_def
  kv_write_scopes_def locks_read_scopes_def locks_write_scopes_def requests_read_scopes_def
  requests_write_scopes_def rate_limit_read_scopes_def rate_limit_write_scopes_def cron_read_scopes_def
  cron_write_scopes_def elections_read_scopes_def elections_write_scopes_def services_read_scopes_def
  services_write_scopes_def

lemma required_scopes_public:
  "required_scopes_for_route m u = [] \<longleftrightarrow>
     filter (\<lambda>s. s \<noteq> []) (split_on CHR ''/'' (uri_path u)) \<in> {[''healthz''], [''readyz'']}"
proof (cases "filter (\<lambda>s. s \<noteq> []) (split_on CHR ''/'' (uri_path u)) \<in> {[''healthz''], [''readyz'']}")
  case True
  then have "filter (\<lambda>s. s \<noteq> []) (split_on CHR ''/'' (uri_path u)) = [''healthz''] \<or>
      filter (\<lambda>s. s \<noteq> []) (split_on CHR ''/'' (uri_path u)) = [''readyz'']" by blast
  then have "required_scopes_for_route m u = public_scopes"
    unfolding required_scopes_for_route_def Let_def by (simp only: if_True)
  then have "required_scopes_for_route m u = []" by (simp only: public_scopes_def)
  with True show ?thesis by blast
next
  case False
  have ne: "(if c then a else b) \<noteq> []" if "a \<noteq> []" "b \<noteq> []" for c and a b :: "string list"
    using that by simp
  have tables: "admin_read_scopes \<noteq> []" "admin_write_scopes \<noteq> []" "kv_read_scopes \<noteq> []"
    "kv_write_scopes \<noteq> []" "locks_read_scopes \<noteq> []" "locks_write_scopes \<noteq> []"
    "requests_read_scopes \<noteq> []" "requests_write_scopes \<noteq> []" "rate_limit_read_scopes \<noteq> []"
    "rate_limit_write_scopes \<noteq> []" "cron_read_scopes \<noteq> []" "cron_write_scopes \<noteq> []"
    "elections_read_scopes \<noteq> []" "elections_write_scopes \<noteq> []" "services_read_scopes \<noteq> []"
    "services_write_scopes \<noteq> []"
    by (simp_all add: scope_tables)
  have "\<not> (filter (\<lambda>s. s \<noteq> []) (split_on CHR ''/'' (uri_path u)) = [''healthz''] \<or>
      filter (\<lambda>s. s \<noteq> []) (split_on CHR ''/'' (uri_path u)) = [''readyz''])"
    using False by blast
  then have "required_scopes_for_route m u \<noteq> []"
    unfolding required_scopes_for_route_def Let_def by (simp only: if_False) (intro ne tables)
  with False show ?thesis by blast
qed

text \<open>Every scope a mutating request may need names a write capability.\<close>

lemma required_scopes_write:
  assumes "\<not> is_read_method m" "segs = filter (\<lambda>s. s \<noteq> []) (split_on CHR ''/'' (uri_path u))"
    and "segs \<notin> {[''healthz''], [''readyz''], [''v1'', ''status'']}"
    and "\<not> segs_start segs [''v1'', ''observe'']"
    and "r \<in> set (required_scopes_for_route m u)"
  shows "\<exists>family. r = family @ '':write''"
proof -
  define writes where "writes = (\<lambda>rs. list_all (\<lambda>r. strip_suffix r '':write'' \<noteq> None) rs)"
  have ite: "writes (if c then a else b)" if "writes a" "writes b" for c a b
    using that by simp
  have tables: "writes admin_write_scopes" "writes kv_write_scopes" "writes locks_write_scopes"
    "writes requests_write_scopes" "writes rate_limit_write_scopes" "writes cron_write_scopes"
    "writes elections_write_scopes" "writes services_write_scopes"
    by (simp_all add: writes_def scope_tables strip_suffix_def)
  have skip: "\<not> (segs = [''healthz''] \<or> segs = [''readyz''])" "\<not> segs = [''v1'', ''status'']"
    "\<not> list_ex (\<lambda>n. segs_start segs [''v1'', n]) [''observe'']"
    using assms(3,4) by simp_all
  have "writes (required_scopes_for_route m u)"
    unfolding required_scopes_for_route_def Let_def assms(2) [symmetric]
    using skip by (simp only: assms(1) if_False simp_thms) (intro ite tables)
  then show ?thesis
    using assms(5) unfolding writes_def list_all_iff strip_suffix_Some [symmetric] by auto
qed

lemma has_any_scope_iff:
  "has_any_scope v required \<longleftrightarrow>
     (\<exists>g \<in> set (vi_scopes v). trim g = ''*'' \<or> (\<exists>r \<in> set required. scope_matches (trim g) r))"
  by (auto simp: has_any_scope_def list_ex_iff Let_def)

section \<open>Properties\<close>

text \<open>
  C8: authorisation fails closed. Whatever the method, a caller without a verified identity
  gets through exactly on the two health routes; a caller with one gets through there or with a
  granted scope that is the wildcard, one of the route's required scopes, or a family wildcard
  \<^verbatim>\<open>family:*\<close> of one. A refusal names the scopes the route requires.
\<close>

theorem authorize_route_fails_closed:
  "let public = filter (\<lambda>s. s \<noteq> []) (split_on CHR ''/'' (uri_path u)) \<in> {[''healthz''], [''readyz'']};
       required = required_scopes_for_route m u
   in (authorize_route None m u = Inr () \<longleftrightarrow> public) \<and>
      (authorize_route (Some v) m u = Inr () \<longleftrightarrow> public \<or>
         (\<exists>g \<in> set (vi_scopes v). trim g = ''*'' \<or>
            (\<exists>r \<in> set required. trim g = r \<or>
               (\<exists>family rest. trim g = family @ '':*'' \<and> r = family @ '':'' @ rest)))) \<and>
      authorize_route ident m u \<in> {Inr (), Inl required}"
proof -
  have "required_scopes_for_route m u = [] \<longleftrightarrow>
      filter (\<lambda>s. s \<noteq> []) (split_on CHR ''/'' (uri_path u)) \<in> {[''healthz''], [''readyz'']}"
    by (rule required_scopes_public)
  then show ?thesis
    unfolding Let_def authorize_route_def has_any_scope_iff scope_matches_iff
    by (auto split: option.split)
qed

text \<open>
  C35: no read-only credential passes a mutating request. Outside the health routes and the two
  administrative read surfaces (\<^verbatim>\<open>/v1/status\<close>, \<^verbatim>\<open>/v1/observe\<close>), a request whose method is not GET,
  HEAD or OPTIONS is authorised only for an identity with the wildcard scope, a family
  wildcard, or a scope that ends in \<^verbatim>\<open>:write\<close>.
\<close>

theorem mutation_needs_write_scope:
  assumes "\<not> is_read_method m" "authorize_route (Some v) m u = Inr ()"
    and "segs = filter (\<lambda>s. s \<noteq> []) (split_on CHR ''/'' (uri_path u))"
    and "segs \<notin> {[''healthz''], [''readyz''], [''v1'', ''status'']}" "\<not> segs_start segs [''v1'', ''observe'']"
  shows "\<exists>g \<in> set (vi_scopes v). trim g = ''*'' \<or>
    (\<exists>family. trim g = family @ '':*'' \<or> trim g = family @ '':write'')"
proof -
  have "required_scopes_for_route m u \<noteq> []"
    using assms(3,4) required_scopes_public by blast
  then have "has_any_scope v (required_scopes_for_route m u)"
    using assms(2) by (auto simp: authorize_route_def Let_def split: if_splits)
  then obtain g where g: "g \<in> set (vi_scopes v)"
    "trim g = ''*'' \<or> (\<exists>r \<in> set (required_scopes_for_route m u). scope_matches (trim g) r)"
    unfolding has_any_scope_iff by blast
  have "\<exists>family. r = family @ '':write''" if "r \<in> set (required_scopes_for_route m u)" for r
    using assms(1,3-5) that by (rule required_scopes_write)
  then have "trim g = ''*'' \<or> (\<exists>family. trim g = family @ '':*'' \<or> trim g = family @ '':write'')"
    using g(2) unfolding scope_matches_iff by blast
  with g(1) show ?thesis by blast
qed

section \<open>Witnesses\<close>

definition sample_identity :: verified_identity where
  "sample_identity = \<lparr>vi_kind = ApiKey, vi_org_id = ''o'', vi_key_id = None, vi_scopes = [''kv:*''],
     vi_require_idempotency = False\<rparr>"

lemma sample_kv_segs:
  "filter (\<lambda>s. s \<noteq> []) (split_on CHR ''/'' (uri_path (origin_uri ''/v1/kv'' q))) = [''v1'', ''kv'']"
  by simp

lemma sample_identity_authorized:
  "authorize_route (Some sample_identity) PUT (origin_uri ''/v1/kv'' q) = Inr ()"
proof -
  have "trim ''kv:*'' = ''kv:*''" by (simp add: trim_def str_simps is_whitespace_def)
  moreover have "required_scopes_for_route PUT (origin_uri ''/v1/kv'' q) = kv_write_scopes"
    by (simp add: required_scopes_for_route_def segs_start_def is_read_method_def)
  ultimately show ?thesis
    by (simp add: authorize_route_def has_any_scope_def sample_identity_def kv_write_scopes_def
        scope_matches_def strip_suffix_def strip_prefix_def starts_with_def)
qed

theorem authorize_route_fails_closed_witness:
  "authorize_route None PUT (origin_uri ''/v1/kv'' None) \<noteq> Inr () \<and>
   authorize_route None GET (origin_uri ''/healthz'' None) = Inr ()"
  using authorize_route_fails_closed [of "origin_uri ''/v1/kv'' None" PUT undefined None]
    authorize_route_fails_closed [of "origin_uri ''/healthz'' None" GET undefined None]
  by (simp add: Let_def)

theorem mutation_needs_write_scope_witness:
  "\<exists>g \<in> set (vi_scopes sample_identity). trim g = ''*'' \<or>
    (\<exists>family. trim g = family @ '':*'' \<or> trim g = family @ '':write'')"
  using mutation_needs_write_scope [OF _ sample_identity_authorized [of None] refl]
  by (simp add: is_read_method_def segs_start_def)

end
