(* ===== verification/Forward.thy ===== *)
theory Forward
  imports Scopes Route_Table
begin

text \<open>
  The forwarding half of \<^verbatim>\<open>src/src/proxy.rs\<close>: one exchange with one node and its
  classification, and the bounded retry loop over the members. An exchange is \<open>fe_send\<close>, a
  function of the outgoing request on the routing table and an environment state \<open>'w\<close>: the
  environment answers, and while the request is in flight other tasks may change the table.
\<close>

section \<open>Requests and outcomes\<close>

definition max_hops :: nat where "max_hops = 4"

definition max_upstream_response_bytes :: nat where
  "max_upstream_response_bytes = 8 * 1024 * 1024"

definition idempotency_key_header :: string where
  "idempotency_key_header = ''idempotency-key''"

definition internal_auth_header :: string where
  "internal_auth_header = ''x-fiducia-internal-auth''"

definition internal_secret :: "environment \<Rightarrow> string option" where
  "internal_secret env =
     (case env ''FIDUCIA_INTERNAL_SECRET'' of None \<Rightarrow> None
      | Some s \<Rightarrow> if trim s = [] then None else Some (trim s))"

text \<open>
  What goes on the wire: the node (for the log), its URL, and the request; and what comes back.
  \<open>ConnectFailed\<close> is \<^verbatim>\<open>is_connect()\<close>; \<open>SendFailed\<close> any other failure, a timeout included. The
  body arrives in chunks; \<^const>\<open>None\<close> is a chunk that fails or does not arrive in time.
\<close>

record out_request =
  or_node :: string
  or_url :: string
  or_method :: http_method
  or_headers :: header_map
  or_body :: bytes
  or_streaming :: bool

record upstream_reply =
  ur_status :: nat
  ur_headers :: header_map
  ur_chunks :: "bytes option list"

datatype sent = ConnectFailed | SendFailed | Replied upstream_reply

datatype upstream = Served response | NotLeader "string option" | NotSent | AmbiguousTransport
  | ResponseTooLarge

record 'w forward_env =
  fe_secret :: "string option"
  fe_send :: "out_request \<Rightarrow> route_table \<times> 'w \<Rightarrow> sent \<times> (route_table \<times> 'w)"
  fe_now :: "'w \<Rightarrow> instant"

record forward_request =
  fr_identity :: "verified_identity option"
  fr_target :: string
  fr_shard :: "shard_id option"
  fr_method :: http_method
  fr_uri :: uri
  fr_headers :: header_map
  fr_body :: bytes

section \<open>One exchange\<close>

definition is_hop_by_hop :: "string \<Rightarrow> bool" where
  "is_hop_by_hop name \<longleftrightarrow>
     to_ascii_lowercase name \<in> set [''connection'', ''keep-alive'', ''proxy-authenticate'',
       ''proxy-authorization'', ''te'', ''trailer'', ''transfer-encoding'', ''upgrade'', ''host'']"

definition is_streaming_request :: "http_method \<Rightarrow> uri \<Rightarrow> header_map \<Rightarrow> bool" where
  "is_streaming_request m u h \<longleftrightarrow>
     (if m \<noteq> GET then False
      else let accepts_events =
            (case Option.bind (header_get h ''accept'') header_to_str of None \<Rightarrow> False
             | Some value \<Rightarrow> list_ex (\<lambda>part. eq_ignore_ascii_case (trim part) ''text/event-stream'')
                 (split_on CHR '','' value));
          watch_query =
            (case uri_query u of None \<Rightarrow> False
             | Some q \<Rightarrow> list_ex (\<lambda>pair. split_once CHR ''='' pair = Some (''watch'', ''true''))
                 (split_on CHR ''&'' q))
        in accepts_events \<or> watch_query)"

definition is_event_stream_response :: "nat \<Rightarrow> header_map \<Rightarrow> bool" where
  "is_event_stream_response status h \<longleftrightarrow>
     is_success status \<and>
     (case Option.bind (header_get h ''content-type'') header_to_str of None \<Rightarrow> False
      | Some value \<Rightarrow>
          eq_ignore_ascii_case (trim (hd (split_on CHR '';'' value))) ''text/event-stream'')"

definition upstream_url :: "externals \<Rightarrow> string \<Rightarrow> uri \<Rightarrow> string option" where
  "upstream_url x node_url u =
     (if \<not> (starts_with node_url ''http://'' \<or> starts_with node_url ''https://'') then None
      else let path = (case uri_path_and_query u of Some p \<Rightarrow> p | None \<Rightarrow> ''/'');
               url = trim_end_matches CHR ''/'' node_url @ path
        in case x_url_parse x url of None \<Rightarrow> None
        | Some parsed \<Rightarrow> if url_path parsed \<noteq> uri_path u then None else Some url)"

text \<open>
  The headers that go to the node: the client's, less hop-by-hop, credential and idempotency
  headers, then the verified identity and the trusted-hop secret.
\<close>

definition client_headers :: "header_map \<Rightarrow> header_map" where
  "client_headers h =
     filter (\<lambda>(name, _). \<not> (is_hop_by_hop name \<or> should_strip_client_auth_header name
         \<or> eq_ignore_ascii_case name idempotency_key_header)) h"

definition identity_headers :: "verified_identity option \<Rightarrow> header_map" where
  "identity_headers identity =
     (case identity of None \<Rightarrow> []
      | Some v \<Rightarrow>
          [(''x-fiducia-auth-kind'', kind_header (vi_kind v)),
           (''x-fiducia-org-id'', vi_org_id v),
           (''x-fiducia-scopes'', scopes_header v)] @
          (case vi_key_id v of None \<Rightarrow> [] | Some k \<Rightarrow> [(''x-fiducia-key-id'', k)]))"

definition secret_headers :: "string option \<Rightarrow> header_map" where
  "secret_headers secret = (case secret of None \<Rightarrow> [] | Some s \<Rightarrow> [(internal_auth_header, s)])"

text \<open>A value \<^verbatim>\<open>HeaderValue::try_from\<close> accepts; with any other the request fails to build.\<close>

definition header_value_ok :: "string \<Rightarrow> bool" where
  "header_value_ok v \<longleftrightarrow> list_all (\<lambda>c. 32 \<le> code_of c \<and> code_of c \<noteq> 127 \<or> code_of c = 9) v"

text \<open>
  The response headers: hop-by-hop ones are dropped, and each further value of a name replaces
  the one before (\<^verbatim>\<open>HeaderMap::insert\<close>).
\<close>

definition response_headers :: "header_map \<Rightarrow> header_map" where
  "response_headers h =
     foldl (\<lambda>acc (name, v). if is_hop_by_hop name then acc else header_insert name v acc) [] h"

fun drain_upstream_body :: "bytes \<Rightarrow> bytes option list \<Rightarrow> upstream + bytes" where
  "drain_upstream_body body [] = Inr body"
| "drain_upstream_body body (None # cs) = Inl AmbiguousTransport"
| "drain_upstream_body body (Some chunk # cs) =
     (if length body + length chunk \<le> max_upstream_response_bytes
      then drain_upstream_body (body @ chunk) cs
      else Inl ResponseTooLarge)"

definition header_value :: "header_map \<Rightarrow> string \<Rightarrow> string option" where
  "header_value h name =
     (case Option.bind (header_get h name) header_to_str of None \<Rightarrow> None
      | Some v \<Rightarrow> if v = [] then None else Some v)"

definition leader_base_url :: "externals \<Rightarrow> string \<Rightarrow> string option" where
  "leader_base_url x location =
     (case x_uri_parse x location of None \<Rightarrow> None
      | Some u \<Rightarrow>
          (case (uri_scheme u, uri_authority u) of
             (Some scheme, Some authority) \<Rightarrow> Some (scheme @ ''://'' @ authority)
           | _ \<Rightarrow> None))"

definition json_not_leader :: "externals \<Rightarrow> bytes \<Rightarrow> string option option" where
  "json_not_leader x body =
     (case x_json_parse x body of None \<Rightarrow> None
      | Some value \<Rightarrow>
          (let err = (case jget ''error'' value of Some e \<Rightarrow> e | None \<Rightarrow> value) in
           case x_propose_error x err of None \<Rightarrow> None
           | Some pe \<Rightarrow>
               (case pe_reason pe of ReasonNotLeader \<Rightarrow> Some (pe_leader pe)
                | ReasonUnavailable \<Rightarrow> None)))"

definition classify_upstream_response ::
    "externals \<Rightarrow> nat \<Rightarrow> header_map \<Rightarrow> bytes \<Rightarrow> upstream" where
  "classify_upstream_response x status h body =
     (let marked_not_leader =
        (case header_value h ''x-fiducia-not-leader'' of None \<Rightarrow> False
         | Some v \<Rightarrow> eq_ignore_ascii_case v ''true'')
      in if status = 307 \<or> status = 421 \<or> (status = 503 \<and> marked_not_leader)
      then NotLeader
        (case header_value h ''x-fiducia-leader'' of Some l \<Rightarrow> Some l
         | None \<Rightarrow> Option.bind (header_value h ''location'') (leader_base_url x))
      else case json_not_leader x body of
        Some leader \<Rightarrow> NotLeader leader
      | None \<Rightarrow> Served \<lparr>resp_status = status, resp_headers = h, resp_body = BodyBytes body\<rparr>)"

text \<open>The answer of a node, from the reply on the wire.\<close>

definition read_reply :: "externals \<Rightarrow> upstream_reply \<Rightarrow> upstream" where
  "read_reply x reply =
     (let status = ur_status reply; h = response_headers (ur_headers reply) in
      if is_event_stream_response status h
      then Served \<lparr>resp_status = status, resp_headers = h, resp_body = BodyStream (ur_chunks reply)\<rparr>
      else case drain_upstream_body [] (ur_chunks reply) of
        Inl u \<Rightarrow> u
      | Inr body \<Rightarrow> classify_upstream_response x status h body)"

definition out_request_for ::
    "'w forward_env \<Rightarrow> string \<Rightarrow> forward_request \<Rightarrow> out_request" where
  "out_request_for env url r =
     \<lparr>or_node = fr_target r, or_url = url, or_method = fr_method r,
      or_headers = client_headers (fr_headers r) @ identity_headers (fr_identity r) @
        secret_headers (fe_secret env),
      or_body = fr_body r,
      or_streaming = is_streaming_request (fr_method r) (fr_uri r) (fr_headers r)\<rparr>"

definition forward_once :: "externals \<Rightarrow> 'w forward_env \<Rightarrow> forward_request \<Rightarrow> route_table \<times> 'w \<Rightarrow>
    upstream \<times> (route_table \<times> 'w)" where
  "forward_once x env r st =
     (case upstream_url x (fr_target r) (fr_uri r) of None \<Rightarrow> (NotSent, st)
      | Some url \<Rightarrow>
          (let out = out_request_for env url r in
           if \<not> list_all (\<lambda>(_, v). header_value_ok v)
               (identity_headers (fr_identity r) @ secret_headers (fe_secret env))
           then (AmbiguousTransport, st)
           else case fe_send env out st of
             (ConnectFailed, st) \<Rightarrow> (NotSent, st)
           | (SendFailed, st) \<Rightarrow> (AmbiguousTransport, st)
           | (Replied reply, st) \<Rightarrow> (read_reply x reply, st)))"

section \<open>The retry loop\<close>

definition redirected_leader_target :: "externals \<Rightarrow> instant \<Rightarrow> shard_id option \<Rightarrow> string \<Rightarrow>
    route_table \<Rightarrow> string option \<times> route_table" where
  "redirected_leader_target x now shard leader t =
     (case shard of
        Some s \<Rightarrow> accept_leader_hint x now s leader t
      | None \<Rightarrow> (validate_node_hint x leader t, t))"

definition method_is_replay_safe :: "http_method \<Rightarrow> bool" where
  "method_is_replay_safe m \<longleftrightarrow> m = GET \<or> m = HEAD \<or> m = OPTIONS"

definition ambiguous_response :: response where
  "ambiguous_response = error_response 502 ''ambiguous_upstream_result''
     ''the mutation may have committed; retry only with the same Idempotency-Key''"

definition too_large_response :: response where
  "too_large_response = error_response 502 ''upstream_response_too_large''
     ''the node response exceeded the load balancer limit''"

definition no_leader_response :: response where
  "no_leader_response = error_response 502 ''no_leader'' ''exhausted redirects/retries''"

text \<open>What the loop does with an outcome: answer the client, try another node, or give up.\<close>

datatype hop = Reply response | Retry string | GiveUp

definition try_other :: "string set \<Rightarrow> route_table \<Rightarrow> hop \<times> route_table" where
  "try_other attempted t =
     (case any_node_excluding attempted t of
        (Some next, t) \<Rightarrow> (Retry next, t)
      | (None, t) \<Rightarrow> (GiveUp, t))"

definition after_hop :: "externals \<Rightarrow> instant \<Rightarrow> string set \<Rightarrow> shard_id option \<Rightarrow> http_method \<Rightarrow>
    upstream \<Rightarrow> route_table \<Rightarrow> hop \<times> route_table" where
  "after_hop x now attempted shard m u t =
     (case u of
        Served resp \<Rightarrow> (Reply resp, t)
      | NotLeader (Some leader) \<Rightarrow>
          (case redirected_leader_target x now shard leader t of
             (Some target, t) \<Rightarrow>
               if target \<notin> attempted then (Retry target, t) else try_other attempted t
           | (None, t) \<Rightarrow> try_other attempted t)
      | NotLeader None \<Rightarrow> try_other attempted t
      | NotSent \<Rightarrow> try_other attempted t
      | AmbiguousTransport \<Rightarrow>
          if method_is_replay_safe m then try_other attempted t else (Reply ambiguous_response, t)
      | ResponseTooLarge \<Rightarrow> (Reply too_large_response, t))"

fun forward_hops :: "nat \<Rightarrow> externals \<Rightarrow> 'w forward_env \<Rightarrow> string set \<Rightarrow> forward_request \<Rightarrow>
    route_table \<times> 'w \<Rightarrow> response \<times> (route_table \<times> 'w)" where
  "forward_hops 0 x env attempted r st = (no_leader_response, st)"
| "forward_hops (Suc n) x env attempted r (t, w) =
     (let attempted = insert (fr_target r) attempted;
          t = record_region_request (fr_target r) t;
          (u, t, w) = forward_once x env r (t, w)
      in case after_hop x (fe_now env w) attempted (fr_shard r) (fr_method r) u t of
        (Reply resp, t) \<Rightarrow> (resp, (t, w))
      | (Retry target, t) \<Rightarrow> forward_hops n x env attempted (r\<lparr>fr_target := target\<rparr>) (t, w)
      | (GiveUp, t) \<Rightarrow> (no_leader_response, (t, w)))"

definition forward_with_redirect :: "externals \<Rightarrow> 'w forward_env \<Rightarrow> forward_request \<Rightarrow>
    route_table \<times> 'w \<Rightarrow> response \<times> (route_table \<times> 'w)" where
  "forward_with_redirect x env r st = forward_hops max_hops x env {} r st"

section \<open>The interface to the routing table\<close>

text \<open>
  What the retry loop relies on: the table offers another member that was not tried, and turns
  a hint into a member or refuses it; neither changes the membership.
\<close>

locale retry_source =
  fixes members_of :: "'t \<Rightarrow> 'n set"
    and pick :: "'n set \<Rightarrow> 't \<Rightarrow> 'n option \<times> 't"
    and hint :: "'h \<Rightarrow> 't \<Rightarrow> 'n option \<times> 't"
  assumes pick_members: "members_of (snd (pick e t)) = members_of t"
    and pick_fresh: "fst (pick e t) = Some n \<Longrightarrow> n \<in> members_of t \<and> n \<notin> e"
    and hint_members: "members_of (snd (hint h t)) = members_of t"
    and hint_member: "fst (hint h t) = Some n \<Longrightarrow> n \<in> members_of t"
begin

text \<open>A fresh hint, else a fresh pick: what a client that follows redirects does.\<close>

lemma hint_or_pick:
  assumes "(case hint h t of
      (Some n, t1) \<Rightarrow> if n \<notin> e then (Some n, t1) else pick e t1
    | (None, t1) \<Rightarrow> pick e t1) = (r, t')"
  shows "members_of t' = members_of t" "r = Some n \<Longrightarrow> n \<in> members_of t \<and> n \<notin> e"
proof -
  obtain q t1 where h: "hint h t = (q, t1)" by fastforce
  have t1: "members_of t1 = members_of t" "\<And>n. q = Some n \<Longrightarrow> n \<in> members_of t"
    using hint_members [of h t] hint_member [of h t] h by auto
  have p: "members_of (snd (pick e t1)) = members_of t"
    "\<And>n. fst (pick e t1) = Some n \<Longrightarrow> n \<in> members_of t \<and> n \<notin> e"
    using pick_members [of e t1] pick_fresh [of e t1] t1(1) by simp_all
  show "members_of t' = members_of t" "r = Some n \<Longrightarrow> n \<in> members_of t \<and> n \<notin> e"
    using assms h t1 p by (auto split: option.splits if_splits)
qed

end

lemma accept_leader_hint_nodes:
  "rt_nodes (snd (accept_leader_hint x now s h t)) = rt_nodes t"
  by (simp add: accept_leader_hint_eq split: option.split)

interpretation rs: retry_source "\<lambda>t. set (rt_nodes t)" any_node_excluding
    "\<lambda>(now, shard, leader). redirected_leader_target x now shard leader" for x
proof
  fix e t n and h :: "instant \<times> shard_id option \<times> string"
  obtain now shard leader where h: "h = (now, shard, leader)" by (cases h)
  obtain r t' where p: "any_node_excluding e t = (r, t')" by fastforce
  have "rt_nodes t' = rt_nodes t"
    by (subst any_node_excluding_frame(1) [OF p]) simp
  with p show "set (rt_nodes (snd (any_node_excluding e t))) = set (rt_nodes t)" by simp
  show "n \<in> set (rt_nodes t) \<and> n \<notin> e" if "fst (any_node_excluding e t) = Some n"
    using any_node_excluding_frame(2) [OF p] that p by simp
  show "set (rt_nodes (snd ((\<lambda>(now, shard, leader). redirected_leader_target x now shard leader) h t))) =
      set (rt_nodes t)"
    by (simp add: h redirected_leader_target_def accept_leader_hint_nodes split: option.split)
  show "n \<in> set (rt_nodes t)"
    if "fst ((\<lambda>(now, shard, leader). redirected_leader_target x now shard leader) h t) = Some n"
    using that
    by (auto simp: h redirected_leader_target_def accept_leader_hint_eq dest: validate_node_hint_member
        split: option.splits)
qed

fun hop_of :: "string option \<Rightarrow> hop" where
  "hop_of (Some target) = Retry target"
| "hop_of None = GiveUp"

lemma try_other_eq: "try_other e t = map_prod hop_of id (any_node_excluding e t)"
  by (auto simp: try_other_def split: prod.split option.split)

lemma after_hop_hinted:
  "after_hop x now e shard m (NotLeader (Some leader)) t =
     map_prod hop_of id
       (case (\<lambda>(now, shard, leader). redirected_leader_target x now shard leader) (now, shard, leader) t of
          (Some n, t1) \<Rightarrow> if n \<notin> e then (Some n, t1) else any_node_excluding e t1
        | (None, t1) \<Rightarrow> any_node_excluding e t1)"
  by (auto simp: after_hop_def try_other_eq split: prod.split option.split)

lemma after_hop_retry:
  assumes "after_hop x now e shard m u t = (hp, t')"
  shows "set (rt_nodes t') = set (rt_nodes t)"
    "hp = Retry target \<Longrightarrow> target \<in> set (rt_nodes t) \<and> target \<notin> e"
proof -
  have picked: "set (rt_nodes t') = set (rt_nodes t) \<and>
      (hp = Retry target \<longrightarrow> target \<in> set (rt_nodes t) \<and> target \<notin> e)"
    if "try_other e t = (hp, t')"
    using that rs.pick_members [of e t] rs.pick_fresh [of e t target]
    by (cases "any_node_excluding e t"; cases "fst (any_node_excluding e t)") (auto simp: try_other_eq)
  have "set (rt_nodes t') = set (rt_nodes t) \<and>
    (hp = Retry target \<longrightarrow> target \<in> set (rt_nodes t) \<and> target \<notin> e)"
  proof (cases "\<exists>leader. u = NotLeader (Some leader)")
    case True
    then obtain leader where u: "u = NotLeader (Some leader)" by blast
    obtain r where r: "(case (\<lambda>(now, shard, leader). redirected_leader_target x now shard leader)
          (now, shard, leader) t of
          (Some n, t1) \<Rightarrow> if n \<notin> e then (Some n, t1) else any_node_excluding e t1
        | (None, t1) \<Rightarrow> any_node_excluding e t1) = (r, t')" "hp = hop_of r"
      using assms unfolding u after_hop_hinted by (auto simp: map_prod_def split: prod.splits)
    from rs.hint_or_pick [OF r(1)] r(2) show ?thesis by (cases r) auto
  next
    case False
    then show ?thesis
      using assms picked by (auto simp: after_hop_def split: upstream.splits option.splits if_splits)
  qed
  then show "set (rt_nodes t') = set (rt_nodes t)"
    "hp = Retry target \<Longrightarrow> target \<in> set (rt_nodes t) \<and> target \<notin> e" by blast+
qed

text \<open>Whether an outcome leaves the request surely unapplied, so that it may be sent again.\<close>

definition surely_unapplied :: "upstream \<Rightarrow> bool" where
  "surely_unapplied u \<longleftrightarrow> (case u of NotSent \<Rightarrow> True | NotLeader _ \<Rightarrow> True | _ \<Rightarrow> False)"

lemma after_hop_retry_safe:
  "after_hop x now e shard m u t = (Retry target, t') \<Longrightarrow>
   surely_unapplied u \<or> u = AmbiguousTransport \<and> method_is_replay_safe m"
  by (auto simp: after_hop_def surely_unapplied_def split: upstream.splits if_splits)

section \<open>A log of the wire\<close>

text \<open>
  The same environment with a log of every request sent and what came of it. The log is not
  part of the code; \<open>logged_transparent\<close> shows that it changes nothing else.
\<close>

definition logged :: "'w forward_env \<Rightarrow> ('w \<times> (out_request \<times> sent) list) forward_env" where
  "logged env =
     \<lparr>fe_secret = fe_secret env,
      fe_send = (\<lambda>out (t, (w, log)). case fe_send env out (t, w) of
         (s, (t', w')) \<Rightarrow> (s, (t', (w', log @ [(out, s)])))),
      fe_now = (\<lambda>(w, _). fe_now env w)\<rparr>"

definition wire_log :: "externals \<Rightarrow> 'w forward_env \<Rightarrow> forward_request \<Rightarrow> route_table \<times> 'w \<Rightarrow>
    (out_request \<times> sent) list" where
  "wire_log x env r st =
     (case st of (t, w) \<Rightarrow> snd (snd (snd (forward_with_redirect x (logged env) r (t, (w, []))))))"

lemma logged_simps [simp]: "fe_secret (logged env) = fe_secret env" "fe_now (logged env) (w, l) = fe_now env w"
  "out_request_for (logged env) = out_request_for env"
  by (simp_all add: logged_def out_request_for_def fun_eq_iff)

text \<open>The outcome of an exchange.\<close>

definition outcome :: "externals \<Rightarrow> sent \<Rightarrow> upstream" where
  "outcome x s =
     (case s of ConnectFailed \<Rightarrow> NotSent | SendFailed \<Rightarrow> AmbiguousTransport
      | Replied reply \<Rightarrow> read_reply x reply)"

text \<open>One exchange with the log: nothing is added, or one request with its fate.\<close>

lemma forward_once_logged:
  assumes "forward_once x env r (t, w) = (u, (t', w'))"
  shows "\<exists>entries. forward_once x (logged env) r (t, (w, log)) = (u, (t', (w', log @ entries))) \<and>
    (entries = [] \<and> t' = t \<and> u \<in> {NotSent, AmbiguousTransport} \<or>
     (\<exists>url s. entries = [(out_request_for env url r, s)] \<and>
        upstream_url x (fr_target r) (fr_uri r) = Some url \<and>
        fe_send env (out_request_for env url r) (t, w) = (s, (t', w')) \<and>
        u = outcome x s))"
proof (cases "upstream_url x (fr_target r) (fr_uri r)")
  case None
  then show ?thesis using assms by (auto simp: forward_once_def)
next
  case (Some url)
  show ?thesis
  proof (cases "list_all (\<lambda>(_, v). header_value_ok v)
      (identity_headers (fr_identity r) @ secret_headers (fe_secret env))")
    case False
    then show ?thesis using assms Some by (auto simp: forward_once_def Let_def)
  next
    case True
    obtain s t1 w1 where s: "fe_send env (out_request_for env url r) (t, w) = (s, (t1, w1))"
      by (metis prod.exhaust)
    show ?thesis
      using assms Some True s
      by (cases s) (auto simp: forward_once_def Let_def logged_def out_request_for_def outcome_def)
  qed
qed

text \<open>What a log of the loop always satisfies.\<close>

definition log_ok :: "externals \<Rightarrow> 'w forward_env \<Rightarrow> forward_request \<Rightarrow> string set \<Rightarrow> string set \<Rightarrow>
    nat \<Rightarrow> (out_request \<times> sent) list \<Rightarrow> bool" where
  "log_ok x env r attempted M n log \<longleftrightarrow>
     length log \<le> n \<and> distinct (map (or_node \<circ> fst) log) \<and>
     (\<forall>(out, s) \<in> set log. or_node out \<notin> attempted \<and> or_node out \<in> insert (fr_target r) M \<and>
        (\<exists>url. upstream_url x (or_node out) (fr_uri r) = Some url \<and>
           out = out_request_for env url (r\<lparr>fr_target := or_node out\<rparr>))) \<and>
     (\<not> method_is_replay_safe (fr_method r) \<longrightarrow>
        list_all (\<lambda>(_, s). surely_unapplied (outcome x s)) (butlast log))"

lemma log_ok_Nil: "log_ok x env r att M n []"
  by (simp add: log_ok_def)

text \<open>The log of one exchange: empty, or one request whose outcome is \<open>u\<close>.\<close>

definition exchange_log :: "externals \<Rightarrow> 'w forward_env \<Rightarrow> forward_request \<Rightarrow> upstream \<Rightarrow>
    (out_request \<times> sent) list \<Rightarrow> bool" where
  "exchange_log x env r u entries \<longleftrightarrow>
     entries = [] \<or>
     (\<exists>url s. entries = [(out_request_for env url r, s)] \<and>
        upstream_url x (fr_target r) (fr_uri r) = Some url \<and> u = outcome x s)"

lemma or_node_out_request_for [simp]: "or_node (out_request_for env url r) = fr_target r"
  by (simp add: out_request_for_def)

lemma fr_target_own [simp]: "r\<lparr>fr_target := fr_target r\<rparr> = r"
  by simp

lemma log_ok_single:
  assumes "exchange_log x env r u entries" "fr_target r \<notin> att"
  shows "log_ok x env r att M (Suc n) entries"
  using assms by (auto simp: exchange_log_def log_ok_def)

lemma log_ok_Cons:
  assumes "log_ok x env (r\<lparr>fr_target := target\<rparr>) (insert (fr_target r) att) M n log"
    and "fr_target r \<notin> att" "target \<in> M" "exchange_log x env r u entries"
    and "method_is_replay_safe (fr_method r) \<or> surely_unapplied u"
  shows "log_ok x env r att M (Suc n) (entries @ log)"
proof -
  have log: "\<And>out s. (out, s) \<in> set log \<Longrightarrow> or_node out \<notin> insert (fr_target r) att \<and>
        or_node out \<in> insert (fr_target r) M \<and> (\<exists>url. upstream_url x (or_node out) (fr_uri r) = Some url \<and>
           out = out_request_for env url (r\<lparr>fr_target := or_node out\<rparr>))"
    "length log \<le> n" "distinct (map (or_node \<circ> fst) log)"
    "\<not> method_is_replay_safe (fr_method r) \<Longrightarrow>
       list_all (\<lambda>(_, s). surely_unapplied (outcome x s)) (butlast log)"
    using assms(1,3) unfolding log_ok_def by (auto simp: out_request_for_def)
  from assms(4) consider (none) "entries = []"
    | (one) url s where "entries = [(out_request_for env url r, s)]"
        "upstream_url x (fr_target r) (fr_uri r) = Some url" "u = outcome x s"
    unfolding exchange_log_def by blast
  then show ?thesis
  proof cases
    case none
    then show ?thesis unfolding log_ok_def using log by auto
  next
    case one
    have "fr_target r \<notin> set (map (or_node \<circ> fst) log)" using log(1) by fastforce
    then show ?thesis
      unfolding log_ok_def one(1) using log assms(2,5) one(2,3) by (auto split: prod.splits)
  qed
qed

text \<open>
  The membership as \<open>M\<close> bounds it: every membership the table has while the request is in
  flight is within \<open>M\<close>.
\<close>

definition membership_within :: "string set \<Rightarrow> 'w forward_env \<Rightarrow> bool" where
  "membership_within M env \<longleftrightarrow>
     (\<forall>out t w s t' w'. fe_send env out (t, w) = (s, (t', w')) \<longrightarrow>
        set (rt_nodes t) \<subseteq> M \<longrightarrow> set (rt_nodes t') \<subseteq> M)"

lemma forward_once_entries:
  assumes "forward_once x env r (t, w) = (u, (t', w'))"
    and "set (rt_nodes t) \<subseteq> M" "membership_within M env"
  obtains entries where "forward_once x (logged env) r (t, (w, log)) = (u, (t', (w', log @ entries)))"
    "exchange_log x env r u entries" "set (rt_nodes t') \<subseteq> M"
proof -
  obtain entries where e: "forward_once x (logged env) r (t, (w, log)) = (u, (t', (w', log @ entries)))"
    "entries = [] \<and> t' = t \<and> u \<in> {NotSent, AmbiguousTransport} \<or>
     (\<exists>url s. entries = [(out_request_for env url r, s)] \<and>
        upstream_url x (fr_target r) (fr_uri r) = Some url \<and>
        fe_send env (out_request_for env url r) (t, w) = (s, (t', w')) \<and> u = outcome x s)"
    using forward_once_logged [OF assms(1), of log] by (elim exE conjE) (rule that)
  have "exchange_log x env r u entries" unfolding exchange_log_def using e(2) by blast
  moreover have "set (rt_nodes t') \<subseteq> M"
    using e(2) assms(2,3) unfolding membership_within_def by blast
  ultimately show ?thesis using e(1) that by blast
qed

lemma forward_hops_logged:
  assumes "forward_hops n x env att r (t, w) = (resp, (t', w'))"
    and "fr_target r \<notin> att" "set (rt_nodes t) \<subseteq> M" "membership_within M env"
  shows "\<exists>entries. forward_hops n x (logged env) att r (t, (w, log)) = (resp, (t', (w', log @ entries))) \<and>
    log_ok x env r att M n entries"
  using assms(1-3)
proof (induction n arbitrary: att r t w log)
  case 0
  then show ?case by (auto intro: log_ok_Nil)
next
  case (Suc n)
  let ?att = "insert (fr_target r) att" and ?t = "record_region_request (fr_target r) t"
  obtain u t1 w1 where once: "forward_once x env r (?t, w) = (u, (t1, w1))" by (metis prod.exhaust)
  have "set (rt_nodes ?t) \<subseteq> M"
    using Suc.prems(3) by (simp add: record_region_request_def Let_def)
  then obtain entries where e: "forward_once x (logged env) r (?t, (w, log)) = (u, (t1, (w1, log @ entries)))"
    "exchange_log x env r u entries" "set (rt_nodes t1) \<subseteq> M"
    using forward_once_entries [OF once _ assms(4), of log] by blast
  obtain hp t2 where hop: "after_hop x (fe_now env w1) ?att (fr_shard r) (fr_method r) u t1 = (hp, t2)"
    by fastforce
  show ?case
  proof (cases "\<exists>target. hp = Retry target")
    case False
    then have "forward_hops (Suc n) x (logged env) att r (t, (w, log)) = (resp, (t', (w', log @ entries)))"
      using Suc.prems(1) once e(1) hop by (cases hp) (simp_all add: Let_def)
    then show ?thesis using log_ok_single [OF e(2) Suc.prems(2)] by blast
  next
    case True
    then obtain target where hp: "hp = Retry target" by blast
    have target: "target \<in> M" "target \<notin> ?att" and mem2: "set (rt_nodes t2) \<subseteq> M"
      using after_hop_retry [OF hop] hp e(3) by auto
    have rec: "forward_hops n x env ?att (r\<lparr>fr_target := target\<rparr>) (t2, w1) = (resp, (t', w'))"
      using Suc.prems(1) once hop hp by (simp add: Let_def)
    obtain more where more: "forward_hops n x (logged env) ?att (r\<lparr>fr_target := target\<rparr>) (t2, (w1, log @ entries)) =
        (resp, (t', (w', (log @ entries) @ more)))"
      "log_ok x env (r\<lparr>fr_target := target\<rparr>) ?att M n more"
      using Suc.IH [OF rec _ mem2, of "log @ entries"] target(2) by auto
    have "log_ok x env r att M (Suc n) (entries @ more)"
      using log_ok_Cons [OF more(2) Suc.prems(2) target(1) e(2)] after_hop_retry_safe [OF hop [unfolded hp]]
      by blast
    moreover have "forward_hops (Suc n) x (logged env) att r (t, (w, log)) =
        (resp, (t', (w', log @ (entries @ more))))"
      using e(1) hop hp more(1) by (simp add: Let_def)
    ultimately show ?thesis by blast
  qed
qed

lemma wire_log_ok:
  assumes "set (rt_nodes t) \<subseteq> M" "membership_within M env"
  shows "log_ok x env r {} M max_hops (wire_log x env r (t, w))"
proof -
  obtain resp t' w' where f: "forward_hops max_hops x env {} r (t, w) = (resp, (t', w'))"
    by (metis prod.exhaust)
  from forward_hops_logged [OF f _ assms, of "[]"] show ?thesis
    by (auto simp: wire_log_def forward_with_redirect_def)
qed

section \<open>Headers on the wire\<close>

lemma header_get_all_append [simp]:
  "header_get_all (h1 @ h2) n = header_get_all h1 n @ header_get_all h2 n"
  by (simp add: header_get_all_def)

lemma client_headers_stripped:
  assumes "is_hop_by_hop n \<or> should_strip_client_auth_header n \<or> eq_ignore_ascii_case n idempotency_key_header"
  shows "header_get_all (client_headers h) n = []"
  using assms by (auto simp: header_get_all_def client_headers_def filter_empty_conv)

lemma lower_ascii_names [simp]:
  "to_ascii_lowercase ''authorization'' = ''authorization''" "to_ascii_lowercase ''x-api-key'' = ''x-api-key''"
  "to_ascii_lowercase ''cookie'' = ''cookie''"
  "to_ascii_lowercase ''x-fiducia-auth-kind'' = ''x-fiducia-auth-kind''"
  "to_ascii_lowercase ''x-fiducia-org-id'' = ''x-fiducia-org-id''"
  "to_ascii_lowercase ''x-fiducia-key-id'' = ''x-fiducia-key-id''"
  "to_ascii_lowercase ''x-fiducia-scopes'' = ''x-fiducia-scopes''"
  "to_ascii_lowercase ''x-fiducia-edge-auth'' = ''x-fiducia-edge-auth''"
  "to_ascii_lowercase ''x-fiducia-internal-auth'' = ''x-fiducia-internal-auth''"
  by (simp_all add: to_ascii_lowercase_def)

lemma stripped_names:
  "n \<in> {''authorization'', ''x-api-key'', ''cookie'', ''x-fiducia-auth-kind'', ''x-fiducia-org-id'',
     ''x-fiducia-key-id'', ''x-fiducia-scopes'', ''x-fiducia-edge-auth'', ''x-fiducia-internal-auth''} \<Longrightarrow>
   should_strip_client_auth_header n"
  by (elim insertE emptyE) (simp_all add: should_strip_client_auth_header_def edge_auth_header_def)

lemma header_get_all_Cons:
  "header_get_all ((m, v) # h) n = (if m = n then v # header_get_all h n else header_get_all h n)"
  "header_get_all [] n = []"
  by (simp_all add: header_get_all_def)

text \<open>The names whose values on the wire come from the load balancer only.\<close>

definition verified_names :: "string list" where
  "verified_names = [''authorization'', ''x-api-key'', ''cookie'', ''x-fiducia-auth-kind'', ''x-fiducia-org-id'',
     ''x-fiducia-key-id'', ''x-fiducia-scopes'', ''x-fiducia-edge-auth'', ''x-fiducia-internal-auth'']"

lemma verified_headers:
  assumes "n \<in> set verified_names"
  shows "header_get_all (or_headers (out_request_for env url r)) n =
    header_get_all (identity_headers (fr_identity r)) n @ header_get_all (secret_headers (fe_secret env)) n"
proof -
  have "should_strip_client_auth_header n"
    by (rule stripped_names) (use assms in \<open>simp add: verified_names_def\<close>)
  then show ?thesis by (simp add: out_request_for_def client_headers_stripped)
qed

lemma identity_headers_get:
  "header_get_all (identity_headers i) n =
     (case i of None \<Rightarrow> []
      | Some v \<Rightarrow> (if n = ''x-fiducia-auth-kind'' then [kind_header (vi_kind v)] else []) @
          (if n = ''x-fiducia-org-id'' then [vi_org_id v] else []) @
          (if n = ''x-fiducia-scopes'' then [scopes_header v] else []) @
          (if n = ''x-fiducia-key-id'' then (case vi_key_id v of None \<Rightarrow> [] | Some k \<Rightarrow> [k]) else []))"
  by (auto simp: identity_headers_def header_get_all_Cons split: option.split)

lemma secret_headers_get:
  "header_get_all (secret_headers k) n =
     (if n = ''x-fiducia-internal-auth'' then (case k of None \<Rightarrow> [] | Some s \<Rightarrow> [s]) else [])"
  by (auto simp: secret_headers_def header_get_all_Cons internal_auth_header_def split: option.split)

text \<open>
  The response headers hold the last value of every end-to-end name, and nothing else.
\<close>

lemma header_get_all_insert:
  "header_get_all (header_insert n v h) m = (if m = n then [v] else header_get_all h m)"
  by (induction h) (auto simp: header_get_all_def header_insert_def)

lemma response_headers_acc:
  "header_get_all (foldl (\<lambda>acc (name, v). if is_hop_by_hop name then acc else header_insert name v acc) acc h) n =
     (if is_hop_by_hop n \<or> header_get_all h n = [] then header_get_all acc n else [last (header_get_all h n)])"
  by (induction h arbitrary: acc) (auto simp: header_get_all_Cons header_get_all_insert split: if_splits)

lemma drain_upstream_body_Inr:
  "drain_upstream_body body cs = Inr b \<Longrightarrow> length body \<le> max_upstream_response_bytes \<Longrightarrow>
   b = body @ concat (map the cs) \<and> None \<notin> set cs \<and> length b \<le> max_upstream_response_bytes"
  by (induction body cs rule: drain_upstream_body.induct) (auto split: if_splits)

lemma drain_upstream_body_Inl:
  "drain_upstream_body body cs = Inl u \<Longrightarrow> u = AmbiguousTransport \<or> u = ResponseTooLarge"
  by (induction body cs rule: drain_upstream_body.induct) (auto split: if_splits)

text \<open>The responses the loop can return.\<close>

definition response_bounded :: "response \<Rightarrow> bool" where
  "response_bounded resp \<longleftrightarrow>
     (case resp_body resp of
        BodyBytes b \<Rightarrow> length b \<le> max_upstream_response_bytes
      | BodyJson _ \<Rightarrow> resp_status resp = 502
      | BodyStream _ \<Rightarrow> is_event_stream_response (resp_status resp) (resp_headers resp))"

lemma read_reply_bounded:
  assumes "read_reply x reply = Served resp"
  shows "response_bounded resp"
proof (cases "drain_upstream_body [] (ur_chunks reply)")
  case (Inl u)
  then have "u \<noteq> Served resp'" for resp'
    using drain_upstream_body_Inl by fastforce
  then show ?thesis
    using assms Inl by (auto simp: read_reply_def Let_def response_bounded_def split: if_splits)
next
  case (Inr b)
  then have "length b \<le> max_upstream_response_bytes"
    using drain_upstream_body_Inr [OF Inr] by (metis le0 list.size(3))
  then show ?thesis
    using assms Inr
    by (auto simp: read_reply_def Let_def response_bounded_def classify_upstream_response_def
        split: if_splits option.splits)
qed

lemma error_bounded [simp]: "response_bounded ambiguous_response" "response_bounded too_large_response"
  "response_bounded no_leader_response"
  by (simp_all add: response_bounded_def ambiguous_response_def too_large_response_def
      no_leader_response_def error_response_def json_response_def)

lemma forward_once_bounded: "forward_once x env r st = (Served resp, st') \<Longrightarrow> response_bounded resp"
  by (auto simp: forward_once_def Let_def split: option.splits if_splits prod.splits sent.splits
      dest: read_reply_bounded)

lemma after_hop_reply:
  "after_hop x now e shard m u t = (Reply resp, t') \<Longrightarrow>
   u = Served resp \<or> resp = ambiguous_response \<or> resp = too_large_response"
  by (auto simp: after_hop_def try_other_def split: upstream.splits option.splits prod.splits if_splits)

lemma forward_hops_bounded: "response_bounded (fst (forward_hops n x env att r st))"
proof (induction n arbitrary: att r st)
  case (Suc n)
  obtain t w where st: "st = (t, w)" by fastforce
  let ?t = "record_region_request (fr_target r) t" and ?att = "insert (fr_target r) att"
  obtain u t1 w1 where once: "forward_once x env r (?t, w) = (u, (t1, w1))" by (metis prod.exhaust)
  obtain hp t2 where hop: "after_hop x (fe_now env w1) ?att (fr_shard r) (fr_method r) u t1 = (hp, t2)"
    by fastforce
  show ?case
  proof (cases hp)
    case (Reply resp)
    then have "response_bounded resp"
      using after_hop_reply [OF hop [unfolded Reply]] forward_once_bounded once by auto
    then show ?thesis using once hop Reply by (simp add: st Let_def)
  next
    case (Retry target)
    then show ?thesis
      using Suc.IH [of ?att "r\<lparr>fr_target := target\<rparr>" "(t2, w1)"] once hop by (simp add: st Let_def)
  next
    case GiveUp
    then show ?thesis using once hop by (simp add: st Let_def)
  qed
qed simp

section \<open>Properties\<close>

text \<open>
  C25: forwarding is bounded and never leaves the membership. Whatever the nodes answer and
  however the table changes meanwhile, a request is put on the wire at most four times, never
  twice to one node, and only to the chosen target or to a node that was a member when it was
  chosen: a leader hint never sends the trusted-hop secret anywhere else. The log by which this
  is stated does not change the outcome.
\<close>

theorem forwarding_stays_in_membership:
  assumes "set (rt_nodes t) \<subseteq> M" "membership_within M env"
  shows "length (wire_log x env r (t, w)) \<le> 4 \<and>
    distinct (map (or_node \<circ> fst) (wire_log x env r (t, w))) \<and>
    or_node ` fst ` set (wire_log x env r (t, w)) \<subseteq> insert (fr_target r) M \<and>
    fst (forward_with_redirect x (logged env) r (t, (w, []))) = fst (forward_with_redirect x env r (t, w)) \<and>
    fst (snd (forward_with_redirect x (logged env) r (t, (w, [])))) =
      fst (snd (forward_with_redirect x env r (t, w)))"
proof -
  have "log_ok x env r {} M max_hops (wire_log x env r (t, w))" using assms by (rule wire_log_ok)
  then have "length (wire_log x env r (t, w)) \<le> 4"
    "distinct (map (or_node \<circ> fst) (wire_log x env r (t, w)))"
    "or_node ` fst ` set (wire_log x env r (t, w)) \<subseteq> insert (fr_target r) M"
    by (auto simp: log_ok_def max_hops_def)
  moreover obtain resp t' w' where f: "forward_hops max_hops x env {} r (t, w) = (resp, (t', w'))"
    by (metis prod.exhaust)
  ultimately show ?thesis
    using forward_hops_logged [OF f _ assms, of "[]"] by (auto simp: forward_with_redirect_def)
qed

text \<open>
  C12: a mutation is never replayed after an ambiguous outcome. For a method other than GET, HEAD
  and OPTIONS, every request on the wire but the last was surely not applied: its connection
  failed or the node answered that it is not the leader. So at most the last one can have
  taken effect.
\<close>

theorem mutation_sent_once_at_most:
  assumes "\<not> method_is_replay_safe (fr_method r)"
  shows "list_all (\<lambda>(_, s). surely_unapplied (outcome x s)) (butlast (wire_log x env r (t, w)))"
proof -
  have "log_ok x env r {} UNIV max_hops (wire_log x env r (t, w))"
    by (rule wire_log_ok) (simp_all add: membership_within_def)
  with assms show ?thesis by (simp add: log_ok_def)
qed

text \<open>
  C7: what a node is told about the caller is what the load balancer verified. On every request
  on the wire, the identity headers are exactly those of the verified identity and the
  trusted-hop secret exactly the configured one, whatever headers the client sent; the client's
  credentials, cookie and edge proof are gone; and the URL's path, as the URL library reads it,
  is the path that was authorised.
\<close>

theorem wire_headers_are_verified:
  assumes "(out, s) \<in> set (wire_log x env r (t, w))"
  shows "header_get_all (or_headers out) ''x-fiducia-org-id'' =
      (case fr_identity r of None \<Rightarrow> [] | Some v \<Rightarrow> [vi_org_id v]) \<and>
    header_get_all (or_headers out) ''x-fiducia-scopes'' =
      (case fr_identity r of None \<Rightarrow> [] | Some v \<Rightarrow> [scopes_header v]) \<and>
    header_get_all (or_headers out) ''x-fiducia-auth-kind'' =
      (case fr_identity r of None \<Rightarrow> [] | Some v \<Rightarrow> [kind_header (vi_kind v)]) \<and>
    header_get_all (or_headers out) ''x-fiducia-key-id'' =
      (case Option.bind (fr_identity r) vi_key_id of None \<Rightarrow> [] | Some k \<Rightarrow> [k]) \<and>
    header_get_all (or_headers out) ''x-fiducia-internal-auth'' =
      (case fe_secret env of None \<Rightarrow> [] | Some k \<Rightarrow> [k]) \<and>
    list_all (\<lambda>n. header_get_all (or_headers out) n = [])
      [''authorization'', ''x-api-key'', ''cookie'', ''x-fiducia-edge-auth''] \<and>
    (\<exists>p. x_url_parse x (or_url out) = Some p \<and> url_path p = uri_path (fr_uri r)) \<and>
    or_method out = fr_method r \<and> or_body out = fr_body r"
proof -
  have "log_ok x env r {} UNIV max_hops (wire_log x env r (t, w))"
    by (rule wire_log_ok) (simp_all add: membership_within_def)
  then obtain url where url: "upstream_url x (or_node out) (fr_uri r) = Some url"
    and out: "out = out_request_for env url (r\<lparr>fr_target := or_node out\<rparr>)"
    using assms by (auto simp: log_ok_def)
  have h: "or_url out = url" "or_method out = fr_method r" "or_body out = fr_body r"
    by (subst out, simp add: out_request_for_def)+
  have "\<exists>p. x_url_parse x (or_url out) = Some p \<and> url_path p = uri_path (fr_uri r)"
    using url unfolding h by (auto simp: upstream_url_def Let_def split: if_splits option.splits)
  moreover have "header_get_all (or_headers out) n = header_get_all (identity_headers (fr_identity r)) n @
      header_get_all (secret_headers (fe_secret env)) n" if "n \<in> set verified_names" for n
    by (subst out) (use verified_headers [OF that, of env url "r\<lparr>fr_target := or_node out\<rparr>"] in simp)
  ultimately show ?thesis
    unfolding h by (simp add: verified_names_def identity_headers_get secret_headers_get split: option.split)
qed

text \<open>
  C39: what a client can get from a node is bounded. A buffered response has at most 8 MiB; a
  response of the load balancer's own is a 502; and a body is passed through unbuffered only for
  a successful response whose content type is \<^verbatim>\<open>text/event-stream\<close>.
\<close>

theorem forwarded_response_bounded:
  "case resp_body (fst (forward_with_redirect x env r st)) of
     BodyBytes b \<Rightarrow> length b \<le> 8388608
   | BodyJson _ \<Rightarrow> resp_status (fst (forward_with_redirect x env r st)) = 502
   | BodyStream _ \<Rightarrow> is_event_stream_response (resp_status (fst (forward_with_redirect x env r st)))
       (resp_headers (fst (forward_with_redirect x env r st)))"
  using forward_hops_bounded [of max_hops x env "{}" r st]
  by (simp add: forward_with_redirect_def response_bounded_def max_upstream_response_bytes_def
      split: body.splits)

text \<open>
  Of a response header that a node sends several times, the client gets one, the last.
  An end-to-end header keeps exactly its last value, and no hop-by-hop header survives.
\<close>

lemma response_headers_keep_last:
  "header_get_all (response_headers h) n =
     (if is_hop_by_hop n \<or> header_get_all h n = [] then [] else [last (header_get_all h n)])"
  by (simp add: response_headers_def response_headers_acc) (simp add: header_get_all_def)

section \<open>Witnesses\<close>

text \<open>Two nodes; the first is a follower that says so, the second serves.\<close>

definition sample_forward_env :: "unit forward_env" where
  "sample_forward_env =
     \<lparr>fe_secret = Some ''s'',
      fe_send = (\<lambda>out st. (if or_node out = ''http://a:1''
         then Replied \<lparr>ur_status = 503, ur_headers = [(''x-fiducia-not-leader'', ''true'')], ur_chunks = []\<rparr>
         else Replied \<lparr>ur_status = 200, ur_headers = [], ur_chunks = [Some [1]]\<rparr>, st)),
      fe_now = (\<lambda>_. 0)\<rparr>"

definition sample_forward_request :: forward_request where
  "sample_forward_request =
     \<lparr>fr_identity = Some sample_identity, fr_target = ''http://a:1'', fr_shard = None, fr_method = POST,
      fr_uri = origin_uri ''/v1/kv'' None, fr_headers = [(''cookie'', ''c'')], fr_body = []\<rparr>"

lemma sample_once:
  "forward_once sample_externals (logged sample_forward_env) sample_forward_request (t, ((), log)) =
     (NotLeader None, (t, ((), log @ [(out_request_for sample_forward_env ''http://a:1/v1/kv'' sample_forward_request,
        Replied \<lparr>ur_status = 503, ur_headers = [(''x-fiducia-not-leader'', ''true'')], ur_chunks = []\<rparr>)])))"
  "forward_once sample_externals (logged sample_forward_env) (sample_forward_request\<lparr>fr_target := ''http://b''\<rparr>)
     (t, ((), log)) =
     (Served \<lparr>resp_status = 200, resp_headers = [], resp_body = BodyBytes [1]\<rparr>,
      (t, ((), log @ [(out_request_for sample_forward_env ''http://b/v1/kv''
          (sample_forward_request\<lparr>fr_target := ''http://b''\<rparr>),
        Replied \<lparr>ur_status = 200, ur_headers = [], ur_chunks = [Some [1]]\<rparr>)])))"
  by (simp_all add: forward_once_def upstream_url_def sample_forward_request_def sample_externals_def
      sample_url_parse_def sample_url_def starts_with_def uri_path_and_query_def origin_uri_def
      trim_end_matches_def uri_path_def identity_headers_def secret_headers_def sample_identity_def
      header_value_ok_def scopes_header_def internal_auth_header_def logged_def sample_forward_env_def
      out_request_for_def read_reply_def response_headers_def is_hop_by_hop_def to_ascii_lowercase_def
      header_insert_def is_event_stream_response_def is_success_def classify_upstream_response_def
      header_value_def header_get_def header_to_str_def eq_ignore_ascii_case_def json_not_leader_def
      max_upstream_response_bytes_def)

lemma sample_wire_log:
  "map (or_node \<circ> fst) (wire_log sample_externals sample_forward_env sample_forward_request (sample_table, ())) =
     [''http://a:1'', ''http://b'']"
  "map snd (wire_log sample_externals sample_forward_env sample_forward_request (sample_table, ())) =
     [Replied \<lparr>ur_status = 503, ur_headers = [(''x-fiducia-not-leader'', ''true'')], ur_chunks = []\<rparr>,
      Replied \<lparr>ur_status = 200, ur_headers = [], ur_chunks = [Some [1]]\<rparr>]"
proof -
  let ?t = "record_region_request ''http://a:1'' sample_table"
  have pick: "any_node_excluding {''http://a:1''} ?t =
      (Some ''http://b'', ?t\<lparr>rt_cursor := 2\<rparr>)"
    by (simp add: any_node_excluding_def sample_table_eq record_region_request_def Let_def hinsert_def
        numeral_2_eq_2)
  have target: "fr_target sample_forward_request = ''http://a:1''" "fr_method sample_forward_request = POST"
    "fr_shard sample_forward_request = None"
    by (simp_all add: sample_forward_request_def)
  show "map (or_node \<circ> fst) (wire_log sample_externals sample_forward_env sample_forward_request (sample_table, ())) =
     [''http://a:1'', ''http://b'']"
   "map snd (wire_log sample_externals sample_forward_env sample_forward_request (sample_table, ())) =
     [Replied \<lparr>ur_status = 503, ur_headers = [(''x-fiducia-not-leader'', ''true'')], ur_chunks = []\<rparr>,
      Replied \<lparr>ur_status = 200, ur_headers = [], ur_chunks = [Some [1]]\<rparr>]"
    by (simp_all add: wire_log_def forward_with_redirect_def max_hops_def eval_nat_numeral target sample_once
        after_hop_def try_other_def pick Let_def)
qed

theorem forwarding_stays_in_membership_witness:
  "set (rt_nodes sample_table) \<subseteq> set (rt_nodes sample_table) \<and>
    membership_within (set (rt_nodes sample_table)) sample_forward_env \<and>
    length (wire_log sample_externals sample_forward_env sample_forward_request (sample_table, ())) = 2 \<and>
    or_node ` fst ` set (wire_log sample_externals sample_forward_env sample_forward_request (sample_table, ()))
      \<subseteq> set (rt_nodes sample_table)"
proof -
  let ?log = "wire_log sample_externals sample_forward_env sample_forward_request (sample_table, ())"
  have within: "membership_within (set (rt_nodes sample_table)) sample_forward_env"
    by (auto simp: membership_within_def sample_forward_env_def)
  have "or_node ` fst ` set ?log \<subseteq> insert (fr_target sample_forward_request) (set (rt_nodes sample_table))"
    using forwarding_stays_in_membership [OF subset_refl within, of sample_externals sample_forward_request "()"]
    by blast
  moreover have "length ?log = 2"
    using arg_cong [OF sample_wire_log(1), of length] by simp
  ultimately show ?thesis
    using within by (auto simp: sample_forward_request_def sample_table_eq)
qed

theorem mutation_sent_once_at_most_witness:
  "\<not> method_is_replay_safe (fr_method sample_forward_request) \<and>
   map (\<lambda>(_, s). outcome sample_externals s)
     (butlast (wire_log sample_externals sample_forward_env sample_forward_request (sample_table, ()))) =
     [NotLeader None] \<and> surely_unapplied (NotLeader None)"
proof -
  let ?log = "wire_log sample_externals sample_forward_env sample_forward_request (sample_table, ())"
  have m: "\<not> method_is_replay_safe (fr_method sample_forward_request)"
    by (simp add: method_is_replay_safe_def sample_forward_request_def)
  obtain e1 e2 where log: "?log = [e1, e2]"
    "snd e1 = Replied \<lparr>ur_status = 503, ur_headers = [(''x-fiducia-not-leader'', ''true'')], ur_chunks = []\<rparr>"
    using sample_wire_log(2) by (auto simp: map_eq_Cons_conv)
  have "outcome sample_externals (snd e1) = NotLeader None"
    by (simp add: log(2) outcome_def read_reply_def response_headers_def is_hop_by_hop_def
        to_ascii_lowercase_def header_insert_def is_event_stream_response_def is_success_def
        classify_upstream_response_def header_value_def header_get_def header_to_str_def
        eq_ignore_ascii_case_def)
  then show ?thesis
    using mutation_sent_once_at_most [OF m, of sample_externals sample_forward_env sample_table "()"] m
    by (simp add: log(1) split_beta)
qed

theorem wire_headers_are_verified_witness:
  "\<exists>out. out \<in> fst ` set (wire_log sample_externals sample_forward_env sample_forward_request (sample_table, ())) \<and>
     header_get_all (or_headers out) ''cookie'' = [] \<and>
     header_get_all (or_headers out) ''x-fiducia-org-id'' = [vi_org_id sample_identity]"
proof -
  let ?log = "wire_log sample_externals sample_forward_env sample_forward_request (sample_table, ())"
  obtain e1 e2 where log: "?log = [e1, e2]"
    using sample_wire_log(2) by (auto simp: map_eq_Cons_conv)
  have "(fst e1, snd e1) \<in> set ?log" by (simp add: log)
  from wire_headers_are_verified [OF this]
  have "header_get_all (or_headers (fst e1)) ''cookie'' = []"
    "header_get_all (or_headers (fst e1)) ''x-fiducia-org-id'' = [vi_org_id sample_identity]"
    by (simp_all add: sample_forward_request_def)
  then show ?thesis by (auto simp: log)
qed

end
