(* ===== verification/Idempotency.thy ===== *)
theory Idempotency
  imports Forward
begin

text \<open>
  The data of the customer idempotency protocol in \<^verbatim>\<open>src/src/proxy.rs\<close>: the idempotency key of
  a request, with its hashes and its fingerprint; the captured response of the node; the record
  that is stored for a replay; and the answer to a duplicate. The exchanges with the nodes are
  in the theory \<open>Proxy\<close>. A JSON object is a map: its fields are listed in the source's order.
\<close>

section \<open>Hex and hashes\<close>

definition to_hex :: "bytes \<Rightarrow> string" where
  "to_hex bs = concat (map (\<lambda>b. [from_digit16 (unat (drop_bit 4 b)), from_digit16 (unat (b AND 0x0F))]) bs)"

fun hex_pairs :: "string \<Rightarrow> bytes option" where
  "hex_pairs (h # l # s) =
     (case to_digit16 h of None \<Rightarrow> None
      | Some hi \<Rightarrow>
          (case to_digit16 l of None \<Rightarrow> None
           | Some lo \<Rightarrow> map_option ((#) (of_nat (hi * 16 + lo))) (hex_pairs s)))"
| "hex_pairs _ = Some []"

definition hex_to_bytes :: "string \<Rightarrow> bytes option" where
  "hex_to_bytes s = (if odd (length s) then None else hex_pairs s)"

definition sha256_hex :: "externals \<Rightarrow> bytes \<Rightarrow> string" where
  "sha256_hex x bs = to_hex (x_sha256 x bs)"

text \<open>What \<^verbatim>\<open>request_fingerprint\<close> feeds the hash, and the fingerprint.\<close>

definition fingerprint_preimage ::
    "http_method \<Rightarrow> string \<Rightarrow> header_map \<Rightarrow> bytes \<Rightarrow> bytes" where
  "fingerprint_preimage m target h body =
     as_bytes (method_str m) @ [0] @ as_bytes target @ [0] @
     (case Option.bind (header_get h ''content-type'') header_to_str of
        None \<Rightarrow> [] | Some content_type \<Rightarrow> as_bytes content_type) @ [0] @ body"

definition request_fingerprint ::
    "externals \<Rightarrow> http_method \<Rightarrow> string \<Rightarrow> header_map \<Rightarrow> bytes \<Rightarrow> string" where
  "request_fingerprint x m target h body = to_hex (x_sha256 x (fingerprint_preimage m target h body))"

section \<open>Responses\<close>

definition max_idempotency_key_bytes :: nat where "max_idempotency_key_bytes = 255"

definition max_replay_body_bytes :: nat where "max_replay_body_bytes = 32 * 1024"

definition max_capture_bytes :: nat where "max_capture_bytes = 8 * 1024 * 1024"

definition idempotency_replayed_header :: string where
  "idempotency_replayed_header = ''idempotent-replayed''"

definition fiducia_idempotency_header :: string where
  "fiducia_idempotency_header = ''x-fiducia-idempotency''"

definition bad_idempotency_key :: "string \<Rightarrow> response" where
  "bad_idempotency_key reason = error_response 400 ''bad_idempotency_key'' reason"

definition idempotency_key_required :: "http_method \<Rightarrow> uri \<Rightarrow> response" where
  "idempotency_key_required m u = json_response 400 (JObject
     [(''error'', JString ''idempotency_key_required''),
      (''detail'', JString ''this API key requires an Idempotency-Key header on mutating requests''),
      (''method'', JString (method_str m)), (''path'', JString (uri_path u))])"

definition idempotency_conflict :: "string \<Rightarrow> response" where
  "idempotency_conflict detail = error_response 409 ''idempotency_key_conflict'' detail"

definition idempotency_unavailable :: "string \<Rightarrow> response" where
  "idempotency_unavailable detail = error_response 503 ''idempotency_unavailable'' detail"

definition json_headers :: header_map where
  "json_headers = header_insert ''content-type'' ''application/json'' []"

definition method_supports_customer_idempotency :: "http_method \<Rightarrow> bool" where
  "method_supports_customer_idempotency m \<longleftrightarrow> m = POST \<or> m = PUT \<or> m = PATCH \<or> m = DELETE"

definition is_idempotency_primitive :: "uri \<Rightarrow> bool" where
  "is_idempotency_primitive u \<longleftrightarrow> starts_with (uri_path u) ''/v1/idempotency''"

definition is_cacheable_idempotent_response :: "nat \<Rightarrow> bool" where
  "is_cacheable_idempotent_response status \<longleftrightarrow>
     (if is_server_error status then False else \<not> (status = 408 \<or> status = 429))"

section \<open>The key of a request\<close>

record customer_idempotency =
  ci_key_hash :: string
  ci_internal_key :: string
  ci_owner :: string
  ci_fingerprint :: string
  ci_method :: string
  ci_target :: string
  ci_org_hash :: string

definition org_scope :: "verified_identity option \<Rightarrow> string" where
  "org_scope identity =
     (case identity of Some i \<Rightarrow> ''org:'' @ vi_org_id i | None \<Rightarrow> ''anonymous'')"

definition request_target :: "uri \<Rightarrow> string" where
  "request_target u = (case uri_path_and_query u of Some p \<Rightarrow> p | None \<Rightarrow> uri_path u)"

definition idempotency_for :: "externals \<Rightarrow> verified_identity option \<Rightarrow> http_method \<Rightarrow> uri \<Rightarrow>
    header_map \<Rightarrow> bytes \<Rightarrow> string \<Rightarrow> customer_idempotency" where
  "idempotency_for x identity m u h body trimmed =
     (let org_hash = sha256_hex x (as_bytes (org_scope identity));
          key_hash = sha256_hex x (as_bytes trimmed);
          target = request_target u
      in \<lparr>ci_key_hash = key_hash,
          ci_internal_key = ''customer/'' @ org_hash @ ''/'' @ key_hash,
          ci_owner = ''customer/'' @ org_hash,
          ci_fingerprint = request_fingerprint x m target h body,
          ci_method = method_str m, ci_target = target, ci_org_hash = org_hash\<rparr>)"

definition from_request :: "externals \<Rightarrow> verified_identity option \<Rightarrow> http_method \<Rightarrow> uri \<Rightarrow>
    header_map \<Rightarrow> bytes \<Rightarrow> response + customer_idempotency option" where
  "from_request x identity m u h body =
     (if \<not> method_supports_customer_idempotency m \<or> is_idempotency_primitive u then Inr None
      else case header_get h idempotency_key_header of None \<Rightarrow> Inr None
      | Some raw_key \<Rightarrow>
          (case header_to_str raw_key of
             None \<Rightarrow> Inl (bad_idempotency_key ''idempotency key must be visible ASCII'')
           | Some raw_key \<Rightarrow>
               (let trimmed = trim raw_key in
                if trimmed = [] then Inl (bad_idempotency_key ''idempotency key must not be empty'')
                else if max_idempotency_key_bytes < length trimmed
                  then Inl (bad_idempotency_key ''idempotency key is too long'')
                else if list_ex (\<lambda>c. code_of c < 32 \<or> code_of c = 127) trimmed
                  then Inl (bad_idempotency_key ''idempotency key must not contain control characters'')
                else Inr (Some (idempotency_for x identity m u h body trimmed)))))"

definition idempotency_metadata :: "customer_idempotency \<Rightarrow> (string \<times> string) list" where
  "idempotency_metadata i =
     [(''scope'', ''customer''), (''org_hash'', ci_org_hash i), (''key_hash'', ci_key_hash i),
      (''fingerprint'', ci_fingerprint i), (''method'', ci_method i), (''target'', ci_target i)]"

section \<open>Captured and stored responses\<close>

record captured_response =
  cp_status :: nat
  cp_headers :: header_map
  cp_body :: bytes

text \<open>
  \<^verbatim>\<open>to_bytes(body, limit)\<close>: the whole body, unless it is longer than the limit or breaks off.
\<close>

fun collect_body :: "nat \<Rightarrow> bytes option list \<Rightarrow> bytes option" where
  "collect_body limit [] = Some []"
| "collect_body limit (None # cs) = None"
| "collect_body limit (Some chunk # cs) =
     (if limit < length chunk then None
      else map_option ((@) chunk) (collect_body (limit - length chunk) cs))"

definition to_bytes :: "externals \<Rightarrow> nat \<Rightarrow> body \<Rightarrow> bytes option" where
  "to_bytes x limit b =
     (case b of
        BodyBytes bs \<Rightarrow> if limit < length bs then None else Some bs
      | BodyJson j \<Rightarrow> if limit < length (x_json_print x j) then None else Some (x_json_print x j)
      | BodyStream cs \<Rightarrow> collect_body limit cs)"

definition capture_failed_response :: response where
  "capture_failed_response = error_response 502 ''upstream_response_too_large''
     ''upstream response exceeded the proxy capture limit and cannot be made idempotent''"

definition captured_from_response :: "externals \<Rightarrow> response \<Rightarrow> response + captured_response" where
  "captured_from_response x r =
     (case to_bytes x max_capture_bytes (resp_body r) of
        None \<Rightarrow> Inl capture_failed_response
      | Some b \<Rightarrow> Inr \<lparr>cp_status = resp_status r, cp_headers = resp_headers r, cp_body = b\<rparr>)"

definition captured_into_response :: "captured_response \<Rightarrow> response" where
  "captured_into_response c =
     \<lparr>resp_status = cp_status c, resp_headers = cp_headers c, resp_body = BodyBytes (cp_body c)\<rparr>"

record stored_response =
  st_fingerprint :: string
  st_status :: "16 word"
  st_content_type :: "string option"
  st_body_hex :: string
  st_truncated :: bool

definition stored_from_captured ::
    "customer_idempotency \<Rightarrow> captured_response \<Rightarrow> stored_response" where
  "stored_from_captured i c =
     (let body = (if length (cp_body c) \<le> max_replay_body_bytes then cp_body c
                  else take max_replay_body_bytes (cp_body c))
      in \<lparr>st_fingerprint = ci_fingerprint i, st_status = of_nat (cp_status c),
          st_content_type = Option.bind (header_get (cp_headers c) ''content-type'') header_to_str,
          st_body_hex = to_hex body,
          st_truncated = (max_replay_body_bytes < length (cp_body c))\<rparr>)"

text \<open>\<^verbatim>\<open>StatusCode::from_u16\<close> accepts 100 to 999.\<close>

definition status_from_u16 :: "16 word \<Rightarrow> nat option" where
  "status_from_u16 s = (if 100 \<le> unat s \<and> unat s < 1000 then Some (unat s) else None)"

definition replay_unavailable :: "string \<Rightarrow> response" where
  "replay_unavailable detail = error_response 409 ''idempotency_replay_unavailable'' detail"

definition into_replay_response :: "stored_response \<Rightarrow> response" where
  "into_replay_response s =
     (if st_truncated s then replay_unavailable ''stored response exceeded the replay body limit''
      else
        let status = (case status_from_u16 (st_status s) of Some n \<Rightarrow> n | None \<Rightarrow> 200) in
        case hex_to_bytes (st_body_hex s) of
          None \<Rightarrow> replay_unavailable ''stored response body failed to decode''
        | Some body \<Rightarrow>
            let h = (case st_content_type s of
                       Some v \<Rightarrow> if header_value_ok v then header_insert ''content-type'' v [] else []
                     | None \<Rightarrow> []);
                h = header_insert idempotency_replayed_header ''true'' h;
                h = header_insert fiducia_idempotency_header ''replayed'' h
            in \<lparr>resp_status = status, resp_headers = h, resp_body = BodyBytes body\<rparr>)"

text \<open>
  The JSON form serde derives for a stored response, and its decoding: from an object (a
  missing content type is none, further fields are ignored) or from an array of the five fields.
\<close>

definition stored_to_value :: "stored_response \<Rightarrow> json" where
  "stored_to_value s = JObject
     [(''fingerprint'', JString (st_fingerprint s)), (''status'', JUint (ucast (st_status s))),
      (''content_type'', case st_content_type s of Some t \<Rightarrow> JString t | None \<Rightarrow> JNull),
      (''body_hex'', JString (st_body_hex s)), (''truncated'', JBool (st_truncated s))]"

definition as_u16 :: "json \<Rightarrow> 16 word option" where
  "as_u16 j =
     (case as_u64 j of Some n \<Rightarrow> if unat n < 65536 then Some (ucast n) else None | None \<Rightarrow> None)"

definition as_opt_str :: "json \<Rightarrow> string option option" where
  "as_opt_str j = (case j of JNull \<Rightarrow> Some None | JString t \<Rightarrow> Some (Some t) | _ \<Rightarrow> None)"

definition stored_of_fields :: "json \<Rightarrow> json \<Rightarrow> json \<Rightarrow> json \<Rightarrow> json \<Rightarrow> stored_response option" where
  "stored_of_fields fingerprint status content_type body_hex truncated =
     (case (as_str fingerprint, as_u16 status, as_opt_str content_type, as_str body_hex, as_bool truncated) of
        (Some f, Some n, Some ct, Some b, Some tr) \<Rightarrow>
          Some \<lparr>st_fingerprint = f, st_status = n, st_content_type = ct, st_body_hex = b, st_truncated = tr\<rparr>
      | _ \<Rightarrow> None)"

definition stored_from_value :: "json \<Rightarrow> stored_response option" where
  "stored_from_value v =
     (case v of
        JArray [f, n, ct, b, tr] \<Rightarrow> stored_of_fields f n ct b tr
      | JObject _ \<Rightarrow>
          (case (jget ''fingerprint'' v, jget ''status'' v, jget ''body_hex'' v, jget ''truncated'' v) of
             (Some f, Some n, Some b, Some tr) \<Rightarrow>
               stored_of_fields f n
                 (case jget ''content_type'' v of Some ct \<Rightarrow> ct | None \<Rightarrow> JNull) b tr
           | _ \<Rightarrow> None)
      | _ \<Rightarrow> None)"

section \<open>Duplicates\<close>

record idempotency_claim =
  ic_claimed :: bool
  ic_duplicate :: bool
  ic_fencing_token :: "u64 option"
  ic_record :: "json option"

definition in_progress_response :: response where
  "in_progress_response =
     (let r = error_response 409 ''idempotency_key_in_progress'' ''a matching request is still in progress''
      in r\<lparr>resp_headers := header_insert ''retry-after'' ''1'' (resp_headers r)\<rparr>)"

definition response_for_duplicate_claim ::
    "customer_idempotency \<Rightarrow> idempotency_claim \<Rightarrow> response option" where
  "response_for_duplicate_claim i claim =
     (if ic_claimed claim then None
      else if \<not> ic_duplicate claim then Some (idempotency_unavailable ''claim was rejected'')
      else case ic_record claim of
        None \<Rightarrow> Some (idempotency_unavailable ''duplicate claim omitted record'')
      | Some rec \<Rightarrow>
          (let recorded_fingerprint =
             Option.bind (Option.bind (jget ''metadata'' rec) (jget ''fingerprint'')) as_str
           in if recorded_fingerprint \<noteq> Some (ci_fingerprint i)
           then Some (idempotency_conflict ''idempotency key was already used with a different request'')
           else if Option.bind (jget ''status'' rec) as_str = Some ''completed''
           then
             (case jget ''result'' rec of
                None \<Rightarrow> Some (idempotency_unavailable ''completed record omitted result'')
              | Some result \<Rightarrow>
                  (case stored_from_value result of
                     Some stored \<Rightarrow>
                       if st_fingerprint stored = ci_fingerprint i then Some (into_replay_response stored)
                       else Some (idempotency_unavailable ''stored response was not replayable'')
                   | None \<Rightarrow> Some (idempotency_unavailable ''stored response was not replayable'')))
           else Some in_progress_response))"

section \<open>Codecs\<close>

text \<open>What the protocol relies on when it stores data in a record and reads it back.\<close>

locale codec =
  fixes encode :: "'a \<Rightarrow> 'b" and decode :: "'b \<Rightarrow> 'a option"
  assumes decode_encode: "decode (encode a) = Some a"
begin

lemma encode_inj: "encode a = encode b \<longleftrightarrow> a = b"
  by (metis decode_encode option.inject)

lemma decode_total_on_range: "decode v = None \<Longrightarrow> v \<noteq> encode a"
  using decode_encode by auto

end

lemma nibbles:
  fixes b :: byte
  shows "unat (drop_bit 4 b) = unat b div 16" "unat (b AND 0x0F) = unat b mod 16"
proof -
  show "unat (drop_bit 4 b) = unat b div 16"
    by (simp add: drop_bit_eq_div unat_div_distrib)
  have "(0x0F :: byte) = mask 4" by (simp add: mask_eq_exp_minus_1)
  then have "unat (b AND 0x0F) = unat (take_bit 4 b)" by (simp only: take_bit_eq_mask)
  then show "unat (b AND 0x0F) = unat b mod 16"
    by (simp add: unsigned_take_bit_eq take_bit_eq_mod unat_mod_distrib)
qed

lemma to_hex_eq: "to_hex bs = format_hex bs"
  by (induction bs) (simp_all add: to_hex_def format_hex_def hex_digits_def nibbles)

lemma to_hex_Cons: "to_hex (b # bs) = from_digit16 (unat b div 16) # from_digit16 (unat b mod 16) # to_hex bs"
  by (simp add: to_hex_def nibbles)

lemma even_length_to_hex: "even (length (to_hex bs))"
  by (induction bs) (simp_all add: to_hex_Cons, simp add: to_hex_def)

lemma hex_pairs_to_hex: "hex_pairs (to_hex bs) = Some bs"
proof (induction bs)
  case (Cons b bs)
  have "unat b div 16 < 16" "unat b mod 16 < 16"
    using unsigned_less [of b, where 'a = nat] by auto
  moreover have "(of_nat (unat b div 16 * 16 + unat b mod 16) :: byte) = b"
    by (simp only: div_mult_mod_eq of_nat_unat ucast_id)
  ultimately show ?case
    using Cons.IH by (simp add: to_hex_Cons)
qed (simp add: to_hex_def)

interpretation hexc: codec to_hex hex_to_bytes
  by unfold_locales (simp add: hex_to_bytes_def even_length_to_hex hex_pairs_to_hex)

lemma as_u16_ucast [simp]: "as_u16 (JUint (ucast (n :: 16 word))) = Some n"
proof -
  have "unat (ucast n :: u64) = unat n"
    using unsigned_less [of n, where 'a = nat] by (simp add: unsigned_ucast_eq take_bit_eq_mod)
  moreover have "unat n < 65536" using unsigned_less [of n, where 'a = nat] by simp
  moreover have "(ucast (ucast n :: u64) :: 16 word) = n" by (simp add: ucast_up_ucast_id is_up)
  ultimately show ?thesis by (simp add: as_u16_def)
qed

interpretation storedc: codec stored_to_value stored_from_value
  by unfold_locales
    (auto simp: stored_to_value_def stored_from_value_def stored_of_fields_def as_opt_str_def split: option.split)

section \<open>Keys and fingerprints\<close>

text \<open>The key a request carries, and its content type, as the hashes see them.\<close>

definition carried_key :: "header_map \<Rightarrow> string option" where
  "carried_key h = map_option trim (Option.bind (header_get h idempotency_key_header) header_to_str)"

definition carried_content_type :: "header_map \<Rightarrow> string" where
  "carried_content_type h =
     (case Option.bind (header_get h ''content-type'') header_to_str of None \<Rightarrow> [] | Some t \<Rightarrow> t)"

lemma from_request_Some [result_iff]:
  "from_request x identity m u h body = Inr (Some i) \<longleftrightarrow>
     method_supports_customer_idempotency m \<and> \<not> is_idempotency_primitive u \<and>
     (\<exists>key. carried_key h = Some key \<and> key \<noteq> [] \<and> length key \<le> 255 \<and>
        \<not> list_ex (\<lambda>c. code_of c < 32 \<or> code_of c = 127) key \<and>
        i = idempotency_for x identity m u h body key)"
  by (auto simp: from_request_def carried_key_def Let_def max_idempotency_key_bytes_def not_less
      split: option.splits if_splits)

lemma nul_as_bytes: "0 \<in> set (as_bytes s) \<longleftrightarrow> CHR 0x00 \<in> set s"
proof -
  have "(0 :: byte) = of_char CHR 0x00" by simp
  then have "0 \<in> set (as_bytes s) \<longleftrightarrow> (\<exists>c \<in> set s. as_bytes [c] = as_bytes [CHR 0x00])"
    by (auto simp: as_bytes_def)
  also have "\<dots> \<longleftrightarrow> CHR 0x00 \<in> set s" by (auto dest: arg_cong [of _ _ of_bytes])
  finally show ?thesis .
qed

lemma header_get_empty: "header_get [] n = None"
  by (simp add: header_get_def)

lemma header_to_str_printable: "header_to_str v = Some s \<Longrightarrow> CHR 0x00 \<notin> set s"
  by (auto simp: header_to_str_def list_all_iff split: if_splits)

lemma to_hex_no_slash: "CHR ''/'' \<notin> set (to_hex bs)"
proof (induction bs)
  case (Cons b bs)
  have "from_digit16 n \<noteq> CHR ''/''" if "n < 16" for n
    using to_digit16_from_digit16 [OF that] by (auto simp: to_digit16_def)
  moreover have "unat b div 16 < 16" using unsigned_less [of b, where 'a = nat] by simp
  ultimately show ?case using Cons by (simp add: to_hex_Cons) (metis mod_less_divisor zero_less_numeral)
qed (simp add: to_hex_def)

lemma delimited_inj:
  assumes "d \<notin> set a" "d \<notin> set a'"
  shows "a @ d # b = a' @ d # b' \<longleftrightarrow> a = a' \<and> b = b'"
  using assms
proof (induction a arbitrary: a')
  case Nil
  then show ?case by (cases a') auto
next
  case (Cons c a)
  then show ?case by (cases a') auto
qed

lemma org_scope_inj: "org_scope id1 = org_scope id2 \<longleftrightarrow> map_option vi_org_id id1 = map_option vi_org_id id2"
  by (auto simp: org_scope_def split: option.splits)

lemma internal_key_inj:
  "ci_internal_key (idempotency_for x id1 m1 u1 h1 b1 k1) = ci_internal_key (idempotency_for x id2 m2 u2 h2 b2 k2) \<longleftrightarrow>
     x_sha256 x (as_bytes (org_scope id1)) = x_sha256 x (as_bytes (org_scope id2)) \<and>
     x_sha256 x (as_bytes k1) = x_sha256 x (as_bytes k2)"
  using delimited_inj [OF to_hex_no_slash to_hex_no_slash]
  by (simp add: idempotency_for_def Let_def sha256_hex_def hexc.encode_inj)

lemma method_str_no_nul:
  "method_supports_customer_idempotency m \<Longrightarrow> 0 \<notin> set (as_bytes (method_str m))"
  by (auto simp: method_supports_customer_idempotency_def nul_as_bytes)

lemma method_str_inj:
  "method_supports_customer_idempotency m \<Longrightarrow> method_supports_customer_idempotency m' \<Longrightarrow>
   method_str m = method_str m' \<longleftrightarrow> m = m'"
  by (auto simp: method_supports_customer_idempotency_def)

lemma fingerprint_preimage_inj:
  assumes "method_supports_customer_idempotency m" "method_supports_customer_idempotency m'"
    and "CHR 0x00 \<notin> set target" "CHR 0x00 \<notin> set target'"
  shows "fingerprint_preimage m target h body = fingerprint_preimage m' target' h' body' \<longleftrightarrow>
    m = m' \<and> target = target' \<and> carried_content_type h = carried_content_type h' \<and> body = body'"
proof -
  have pre: "fingerprint_preimage m target h body =
      as_bytes (method_str m) @ 0 # as_bytes target @ 0 # as_bytes (carried_content_type h) @ 0 # body"
    for m target h body
    by (auto simp: fingerprint_preimage_def carried_content_type_def as_bytes_def split: option.split)
  have ct: "0 \<notin> set (as_bytes (carried_content_type h))" for h
    using header_to_str_printable
    by (cases "Option.bind (header_get h ''content-type'') header_to_str")
      (auto simp: carried_content_type_def nul_as_bytes bind_eq_Some_conv)
  have "0 \<notin> set (as_bytes target)" "0 \<notin> set (as_bytes target')"
    by (simp_all add: nul_as_bytes assms)
  then show ?thesis
    unfolding pre
    by (simp add: delimited_inj method_str_no_nul assms(1,2) ct as_bytes_inj method_str_inj)
qed

section \<open>Properties\<close>

text \<open>
  C21: an idempotency key means one thing. For two requests that carry a key, and a hash that
  does not collide on what they hash, the internal keys agree exactly if organisation (or its
  absence) and trimmed key agree, so that one tenant's key never meets another's; and the
  fingerprints agree exactly if method, target, content type and body agree, so that a key
  reused for a different request is recognised.
\<close>

theorem idempotency_key_identifies:
  assumes "from_request x id1 m1 u1 h1 b1 = Inr (Some i1)" "from_request x id2 m2 u2 h2 b2 = Inr (Some i2)"
    and "CHR 0x00 \<notin> set (request_target u1)" "CHR 0x00 \<notin> set (request_target u2)"
    and "inj_on (x_sha256 x)
      {as_bytes (org_scope id1), as_bytes (org_scope id2),
       as_bytes (the (carried_key h1)), as_bytes (the (carried_key h2)),
       fingerprint_preimage m1 (request_target u1) h1 b1, fingerprint_preimage m2 (request_target u2) h2 b2}"
  shows "(ci_internal_key i1 = ci_internal_key i2 \<longleftrightarrow>
      map_option vi_org_id id1 = map_option vi_org_id id2 \<and> carried_key h1 = carried_key h2) \<and>
    (ci_fingerprint i1 = ci_fingerprint i2 \<longleftrightarrow>
      m1 = m2 \<and> request_target u1 = request_target u2 \<and>
      carried_content_type h1 = carried_content_type h2 \<and> b1 = b2)"
proof -
  obtain k1 k2 where k: "carried_key h1 = Some k1" "carried_key h2 = Some k2"
    and i: "i1 = idempotency_for x id1 m1 u1 h1 b1 k1" "i2 = idempotency_for x id2 m2 u2 h2 b2 k2"
    and m: "method_supports_customer_idempotency m1" "method_supports_customer_idempotency m2"
    using assms(1,2) by (auto simp: from_request_Some)
  note hash = assms(5) [THEN inj_on_eq_iff]
  have "ci_internal_key i1 = ci_internal_key i2 \<longleftrightarrow> org_scope id1 = org_scope id2 \<and> k1 = k2"
    unfolding i internal_key_inj
    by (simp add: hash k as_bytes_inj)
  moreover have "ci_fingerprint i1 = ci_fingerprint i2 \<longleftrightarrow>
      fingerprint_preimage m1 (request_target u1) h1 b1 = fingerprint_preimage m2 (request_target u2) h2 b2"
    by (simp add: i idempotency_for_def Let_def request_fingerprint_def hexc.encode_inj hash)
  ultimately show ?thesis
    by (simp add: org_scope_inj k fingerprint_preimage_inj [OF m assms(3,4)])
qed

text \<open>
  A replay is faithful or refused. If the record of a duplicate holds the completed
  response of the same request, as \<^verbatim>\<open>from_captured\<close> stored it, the client gets the status, the
  content type and the whole body of the first response, marked as a replay; a response whose
  body exceeded 32 KiB, of which only a part is stored, is refused with 409 instead.
\<close>

lemma into_replay_stored:
  assumes "100 \<le> cp_status c" "cp_status c < 1000" "length (cp_body c) \<le> 32768"
  shows "resp_status (into_replay_response (stored_from_captured i c)) = cp_status c"
    "resp_body (into_replay_response (stored_from_captured i c)) = BodyBytes (cp_body c)"
    "header_get (resp_headers (into_replay_response (stored_from_captured i c))) ''content-type'' =
       Option.bind (header_get (cp_headers c) ''content-type'') header_to_str"
    "header_get (resp_headers (into_replay_response (stored_from_captured i c))) ''idempotent-replayed'' = Some ''true''"
    "header_get (resp_headers (into_replay_response (stored_from_captured i c))) ''x-fiducia-idempotency'' = Some ''replayed''"
proof -
  have "unat (of_nat (cp_status c) :: 16 word) = cp_status c"
    using assms(2) by (simp add: unat_of_nat)
  moreover have "header_value_ok v" if "header_to_str w = Some v" for v w
    using that by (auto simp: header_to_str_def header_value_ok_def list_all_iff split: if_splits)
  ultimately show "resp_status (into_replay_response (stored_from_captured i c)) = cp_status c"
    "resp_body (into_replay_response (stored_from_captured i c)) = BodyBytes (cp_body c)"
    "header_get (resp_headers (into_replay_response (stored_from_captured i c))) ''content-type'' =
       Option.bind (header_get (cp_headers c) ''content-type'') header_to_str"
    "header_get (resp_headers (into_replay_response (stored_from_captured i c))) ''idempotent-replayed'' = Some ''true''"
    "header_get (resp_headers (into_replay_response (stored_from_captured i c))) ''x-fiducia-idempotency'' = Some ''replayed''"
    using assms
    by (auto simp: into_replay_response_def stored_from_captured_def Let_def hexc.decode_encode
        status_from_u16_def max_replay_body_bytes_def header_get_insert header_get_empty
        idempotency_replayed_header_def fiducia_idempotency_header_def split: option.split bind_splits)
qed

lemma replay_stored:
  assumes "\<not> ic_claimed claim" "ic_duplicate claim" "ic_record claim = Some rcd"
    and "jget ''metadata'' rcd = Some metadata"
    and "jget ''fingerprint'' metadata = Some (JString (ci_fingerprint i))"
    and "jget ''status'' rcd = Some (JString ''completed'')"
    and "jget ''result'' rcd = Some (stored_to_value (stored_from_captured i c))"
    and "100 \<le> cp_status c" "cp_status c < 1000"
  shows "\<exists>r. response_for_duplicate_claim i claim = Some r \<and>
    (if length (cp_body c) \<le> 32768
     then resp_status r = cp_status c \<and> resp_body r = BodyBytes (cp_body c) \<and>
       header_get (resp_headers r) ''content-type'' =
         Option.bind (header_get (cp_headers c) ''content-type'') header_to_str \<and>
       header_get (resp_headers r) ''idempotent-replayed'' = Some ''true'' \<and>
       header_get (resp_headers r) ''x-fiducia-idempotency'' = Some ''replayed''
     else r = replay_unavailable ''stored response exceeded the replay body limit'')"
proof -
  let ?s = "stored_from_captured i c"
  have "response_for_duplicate_claim i claim = Some (into_replay_response ?s)"
    by (simp add: response_for_duplicate_claim_def assms(1-7) storedc.decode_encode)
      (simp add: stored_from_captured_def Let_def)
  moreover have "into_replay_response ?s = replay_unavailable ''stored response exceeded the replay body limit''"
    if "32768 < length (cp_body c)"
    using that by (simp add: into_replay_response_def stored_from_captured_def max_replay_body_bytes_def Let_def)
  ultimately show ?thesis
    using into_replay_stored [OF assms(8,9), of i] by auto
qed

section \<open>Witnesses\<close>

text \<open>The identity is the hash; two organisations send the same key and the same request.\<close>

definition sample_keyed :: header_map where
  "sample_keyed = [(''idempotency-key'', ''k'')]"

lemma sample_carried_key: "carried_key sample_keyed = Some ''k''"
  by (simp add: carried_key_def sample_keyed_def header_get_def idempotency_key_header_def header_to_str_def
      trim_def str_simps is_whitespace_def)

lemma sample_from_request:
  "from_request sample_externals identity POST (origin_uri ''/v1/kv'' None) sample_keyed [1] =
     Inr (Some (idempotency_for sample_externals identity POST (origin_uri ''/v1/kv'' None) sample_keyed [1] ''k''))"
  by (auto simp: from_request_Some sample_carried_key method_supports_customer_idempotency_def
      is_idempotency_primitive_def starts_with_def)

theorem idempotency_key_identifies_witness:
  "let other = sample_identity\<lparr>vi_org_id := ''p''\<rparr>; u = origin_uri ''/v1/kv'' None;
       key = (\<lambda>identity. case from_request sample_externals (Some identity) POST u sample_keyed [1] of
         Inr (Some i) \<Rightarrow> (ci_internal_key i, ci_fingerprint i) | _ \<Rightarrow> ([], []))
   in fst (key sample_identity) \<noteq> fst (key other) \<and> snd (key sample_identity) = snd (key other)"
proof -
  have target: "request_target (origin_uri ''/v1/kv'' None) = ''/v1/kv''"
    by (simp add: request_target_def uri_path_and_query_def origin_uri_def)
  have hash: "inj_on (x_sha256 sample_externals) A" for A
    by (simp add: sample_externals_def)
  show ?thesis
    using idempotency_key_identifies [OF sample_from_request sample_from_request _ _ hash,
        of "Some sample_identity" "Some (sample_identity\<lparr>vi_org_id := ''p''\<rparr>)"]
    by (simp add: sample_from_request target Let_def) (simp add: sample_identity_def)
qed

end
