(* ===== verification/Json.thy ===== *)
theory Json
  imports Idempotency
begin

text \<open>
  What the idempotency protocol relies on of serde_json. A JSON object is a map, which the
  library keeps and prints in key order: \<open>json_canon\<close> is that form of a value, and the law
  \<open>serde_laws\<close> says that printing a value, nested within the library's limit, and parsing the text
  gives the value in that form. A small binary codec shows that the law can hold, and is the instance of the witnesses.
\<close>

section \<open>The canonical form\<close>

definition canon_fields :: "(string \<times> json) list \<Rightarrow> (string \<times> json) list" where
  "canon_fields fs = map (\<lambda>k. (k, the (map_of fs k))) (sort (remdups (map fst fs)))"

primrec json_canon :: "json \<Rightarrow> json" where
  "json_canon JNull = JNull"
| "json_canon (JBool b) = JBool b"
| "json_canon (JUint n) = JUint n"
| "json_canon (JNumber s) = JNumber s"
| "json_canon (JString s) = JString s"
| "json_canon (JArray vs) = JArray (map json_canon vs)"
| "json_canon (JObject fs) = JObject (canon_fields (map (map_prod id json_canon) fs))"

text \<open>
  The values the protocol exchanges: strings are UTF-8, and every number is an unsigned integer.
\<close>

primrec json_text :: "json \<Rightarrow> bool" where
  "json_text JNull \<longleftrightarrow> True"
| "json_text (JBool b) \<longleftrightarrow> True"
| "json_text (JUint n) \<longleftrightarrow> True"
| "json_text (JNumber s) \<longleftrightarrow> False"
| "json_text (JString s) \<longleftrightarrow> valid_utf8 s"
| "json_text (JArray vs) \<longleftrightarrow> list_all id (map json_text vs)"
| "json_text (JObject fs) \<longleftrightarrow> list_all (\<lambda>(k, ok). valid_utf8 k \<and> ok) (map (map_prod id json_text) fs)"

text \<open>
  How deeply arrays and objects are nested. serde_json parses a value of depth 127, and refuses a
  deeper one.
\<close>

primrec json_depth :: "json \<Rightarrow> nat" where
  "json_depth JNull = 0"
| "json_depth (JBool b) = 0"
| "json_depth (JUint n) = 0"
| "json_depth (JNumber s) = 0"
| "json_depth (JString s) = 0"
| "json_depth (JArray vs) = Suc (fold max (map json_depth vs) 0)"
| "json_depth (JObject fs) = Suc (fold max (map snd (map (map_prod id json_depth) fs)) 0)"

definition serde_laws :: "externals \<Rightarrow> bool" where
  "serde_laws x \<longleftrightarrow> (\<forall>v. json_text v \<longrightarrow> json_depth v \<le> 127 \<longrightarrow>
     x_json_parse x (x_json_print x v) = Some (json_canon v))"

lemma json_depth_le:
  "json_depth (JObject fs) \<le> Suc n \<longleftrightarrow> (\<forall>(k, v) \<in> set fs. json_depth v \<le> n)"
proof -
  have "fold max ns m \<le> n \<longleftrightarrow> m \<le> n \<and> (\<forall>k \<in> set ns. k \<le> n)" for ns and m :: nat
    by (induction ns arbitrary: m) auto
  then show ?thesis by force
qed

lemma map_of_canon_fields: "map_of (canon_fields fs) k = map_of fs k"
proof -
  have "map_of (map (\<lambda>k. (k, the (map_of fs k))) ks) k =
      (if k \<in> set ks then Some (the (map_of fs k)) else None)" for ks
    by (induction ks) auto
  moreover have "k \<in> set (map fst fs) \<longleftrightarrow> map_of fs k \<noteq> None"
    by (simp add: map_of_eq_None_iff)
  ultimately show ?thesis by (auto simp: canon_fields_def)
qed

lemma distinct_canon_fields: "distinct (map fst (canon_fields fs))"
  by (simp add: canon_fields_def comp_def)

lemma map_of_map_prod: "map_of (map (map_prod id f) fs) k = map_option f (map_of fs k)"
  by (induction fs) auto

text \<open>Every reader of a value sees the canonical form as the value itself.\<close>

lemma jget_canon [simp]: "jget f (json_canon v) = map_option json_canon (jget f v)"
  by (cases v) (simp_all add: map_of_canon_fields map_of_map_prod)

lemma as_str_canon [simp]: "as_str (json_canon v) = as_str v"
  by (cases v) simp_all

lemma as_bool_canon [simp]: "as_bool (json_canon v) = as_bool v"
  by (cases v) simp_all

lemma as_u64_canon [simp]: "as_u64 (json_canon v) = as_u64 v"
  by (cases v) simp_all

lemma as_opt_str_canon [simp]: "as_opt_str (json_canon v) = as_opt_str v"
  by (cases v) (simp_all add: as_opt_str_def)

lemma stored_of_fields_canon [simp]:
  "stored_of_fields (json_canon f) (json_canon n) (json_canon ct) (json_canon b) (json_canon tr) =
     stored_of_fields f n ct b tr"
  by (simp add: stored_of_fields_def as_u16_def)

lemma stored_from_value_canon [simp]: "stored_from_value (json_canon v) = stored_from_value v"
proof (cases v)
  case (JObject fs)
  obtain gs where gs: "json_canon v = JObject gs" by (simp add: JObject)
  then have "jget k (JObject gs) = map_option json_canon (jget k v)" for k
    using jget_canon [of k v] by simp
  then show ?thesis
    unfolding gs stored_from_value_def
    by (auto simp: JObject stored_of_fields_canon [of _ _ JNull, simplified] simp del: jget.simps
        split: option.split)
next
  case (JArray vs)
  then show ?thesis by (auto simp: stored_from_value_def split: list.split)
qed (simp_all add: stored_from_value_def)

lemma json_text_canon [simp]: "json_text v \<Longrightarrow> json_text (json_canon v)"
proof (induction v)
  case (JArray vs)
  then show ?case by (simp add: list_all_iff)
next
  case (JObject fs)
  have "valid_utf8 k \<and> json_text w" if w: "(k, w) \<in> set (canon_fields (map (map_prod id json_canon) fs))" for k w
  proof -
    from w have "map_of (map (map_prod id json_canon) fs) k = Some w"
      using map_of_canon_fields distinct_canon_fields by (metis map_of_eq_Some_iff)
    then obtain v where "w = json_canon v" "(k, v) \<in> set fs"
      by (auto simp: map_of_map_prod dest: map_of_SomeD)
    moreover then have "valid_utf8 k" "json_text v" using JObject.prems by (auto simp: list_all_iff)
    ultimately show ?thesis using JObject.IH [of "(k, v)" v] by simp
  qed
  then show ?case by (auto simp: list_all_iff simp del: map_map)
qed simp_all

section \<open>A codec\<close>

text \<open>
  A printer and its parser, for the witnesses: a tag byte for the constructor; strings and lists
  with a 1 before each element and a 0 at the end; a number as its 64 bits.
\<close>

definition print_str :: "string \<Rightarrow> bytes" where
  "print_str s = concat (map (\<lambda>b. [1, b]) (as_bytes s)) @ [0]"

fun parse_str :: "bytes \<Rightarrow> (string \<times> bytes) option" where
  "parse_str (n # bs) =
     (if n = 0 then Some ([], bs)
      else case bs of [] \<Rightarrow> None
      | b # bs \<Rightarrow> map_option (apfst ((@) (of_bytes [b]))) (parse_str bs))"
| "parse_str [] = None"

definition print_bits :: "u64 \<Rightarrow> bytes" where
  "print_bits n = map (\<lambda>i. if bit n i then 1 else 0) [0 ..< 64]"

definition parse_bits :: "bytes \<Rightarrow> u64" where
  "parse_bits bs = horner_sum of_bool 2 (map (\<lambda>b. b = 1) bs)"

primrec sample_print :: "json \<Rightarrow> bytes" where
  "sample_print JNull = [0]"
| "sample_print (JBool b) = [1, if b then 1 else 0]"
| "sample_print (JUint n) = 2 # print_bits n"
| "sample_print (JNumber s) = 3 # print_str s"
| "sample_print (JString s) = 4 # print_str s"
| "sample_print (JArray vs) = 5 # concat (map ((#) 1) (map sample_print vs)) @ [0]"
| "sample_print (JObject fs) =
     6 # concat (map (\<lambda>(k, e). 1 # print_str k @ e) (map (map_prod id sample_print) fs)) @ [0]"

fun sample_parse :: "nat \<Rightarrow> bytes \<Rightarrow> (json \<times> bytes) option"
  and sample_parse_list :: "nat \<Rightarrow> bytes \<Rightarrow> (json list \<times> bytes) option"
  and sample_parse_fields :: "nat \<Rightarrow> bytes \<Rightarrow> ((string \<times> json) list \<times> bytes) option" where
  "sample_parse (Suc n) (tag # bs) =
     (if tag = 0 then Some (JNull, bs)
      else if tag = 1 then (case bs of [] \<Rightarrow> None | b # bs \<Rightarrow> Some (JBool (b = 1), bs))
      else if tag = 2 then Some (JUint (parse_bits (take 64 bs)), drop 64 bs)
      else if tag = 3 then map_option (apfst JNumber) (parse_str bs)
      else if tag = 4 then map_option (apfst JString) (parse_str bs)
      else if tag = 5 then map_option (apfst JArray) (sample_parse_list n bs)
      else map_option (apfst JObject) (sample_parse_fields n bs))"
| "sample_parse _ _ = None"
| "sample_parse_list (Suc n) (flag # bs) =
     (if flag = 0 then Some ([], bs)
      else case sample_parse n bs of None \<Rightarrow> None
      | Some (v, bs) \<Rightarrow> map_option (apfst ((#) v)) (sample_parse_list n bs))"
| "sample_parse_list _ _ = None"
| "sample_parse_fields (Suc n) (flag # bs) =
     (if flag = 0 then Some ([], bs)
      else case parse_str bs of None \<Rightarrow> None
      | Some (k, bs) \<Rightarrow>
          (case sample_parse n bs of None \<Rightarrow> None
           | Some (v, bs) \<Rightarrow> map_option (apfst ((#) (k, v))) (sample_parse_fields n bs)))"
| "sample_parse_fields _ _ = None"

lemma parse_str_print: "parse_str (print_str s @ r) = Some (s, r)"
proof (induction s)
  case (Cons c s)
  have "of_bytes [of_char c] = [c]" using of_bytes_as_bytes [of "[c]"] by (simp add: as_bytes_def)
  then show ?case using Cons by (simp add: print_str_def as_bytes_def)
qed (simp add: print_str_def as_bytes_def)

lemma parse_bits_print: "parse_bits (print_bits n) = n"
proof -
  have "parse_bits (print_bits n) = horner_sum of_bool 2 (map (bit n) [0 ..< 64])"
    by (simp add: parse_bits_def print_bits_def comp_def if_distrib [where f = "\<lambda>b. b = 1"])
  also have "\<dots> = take_bit 64 n" by (rule horner_sum_bit_eq_take_bit)
  finally show ?thesis by (simp add: take_bit_word_eq_self)
qed

lemma length_print_bits: "length (print_bits n) = 64"
  by (simp add: print_bits_def)

definition print_fields :: "(string \<times> json) list \<Rightarrow> bytes" where
  "print_fields fs = concat (map (\<lambda>(k, v). 1 # print_str k @ sample_print v) fs)"

lemma print_fields_simps:
  "print_fields [] = []"
  "print_fields ((k, v) # fs) = 1 # print_str k @ sample_print v @ print_fields fs"
  by (simp_all add: print_fields_def)

lemma sample_print_JObject: "sample_print (JObject fs) = 6 # print_fields fs @ [0]"
  by (simp add: print_fields_def case_prod_unfold comp_def)

lemma sample_parse_list_print:
  assumes "\<And>v n r. v \<in> set vs \<Longrightarrow> length (sample_print v) \<le> n \<Longrightarrow> sample_parse n (sample_print v @ r) = Some (v, r)"
    and "length (concat (map (\<lambda>v. 1 # sample_print v) vs)) < n"
  shows "sample_parse_list n (concat (map (\<lambda>v. 1 # sample_print v) vs) @ 0 # r) = Some (vs, r)"
  using assms
proof (induction vs arbitrary: n)
  case Nil
  then show ?case by (cases n) simp_all
next
  case (Cons v vs)
  then show ?case by (cases n) simp_all
qed

lemma sample_parse_fields_print:
  assumes "\<And>k v n r. (k, v) \<in> set fs \<Longrightarrow> length (sample_print v) \<le> n \<Longrightarrow> sample_parse n (sample_print v @ r) = Some (v, r)"
    and "length (print_fields fs) < n"
  shows "sample_parse_fields n (print_fields fs @ 0 # r) = Some (fs, r)"
  using assms
proof (induction fs arbitrary: n)
  case Nil
  then show ?case by (cases n) (simp_all add: print_fields_simps)
next
  case (Cons f fs)
  obtain k v where f: "f = (k, v)" by fastforce
  have "sample_parse_fields n (print_fields fs @ 0 # r) = Some (fs, r)" if "length (print_fields fs) < n" for n
    using that Cons.prems(1) by (intro Cons.IH) auto
  moreover have "sample_parse n (sample_print v @ r) = Some (v, r)" if "length (sample_print v) \<le> n" for n r
    using that Cons.prems(1) [of k v] by (simp add: f)
  ultimately show ?case
    using Cons.prems(2) by (cases n) (simp_all add: f print_fields_simps parse_str_print)
qed

lemma sample_parse_JArray:
  assumes "\<And>v n r. v \<in> set vs \<Longrightarrow> length (sample_print v) \<le> n \<Longrightarrow> sample_parse n (sample_print v @ r) = Some (v, r)"
    and "length (sample_print (JArray vs)) \<le> n"
  shows "sample_parse n (sample_print (JArray vs) @ r) = Some (JArray vs, r)"
proof -
  have eq: "sample_print (JArray vs) = 5 # concat (map (\<lambda>v. 1 # sample_print v) vs) @ [0]"
    by (simp add: comp_def)
  obtain k where "n = Suc k" using assms(2) by (cases n) auto
  moreover have "length (concat (map (\<lambda>v. 1 # sample_print v) vs)) < k"
    using assms(2) unfolding \<open>n = Suc k\<close> eq by simp
  ultimately show ?thesis
    using sample_parse_list_print [OF assms(1), of vs k r] unfolding eq by simp
qed

lemma sample_parse_JObject:
  assumes "\<And>k v n r. (k, v) \<in> set fs \<Longrightarrow> length (sample_print v) \<le> n \<Longrightarrow> sample_parse n (sample_print v @ r) = Some (v, r)"
    and "length (sample_print (JObject fs)) \<le> n"
  shows "sample_parse n (sample_print (JObject fs) @ r) = Some (JObject fs, r)"
proof -
  obtain k where "n = Suc k" using assms(2) by (cases n) auto
  moreover have "length (print_fields fs) < k"
    using assms(2) unfolding \<open>n = Suc k\<close> sample_print_JObject by simp
  ultimately show ?thesis
    using sample_parse_fields_print [of fs k r, OF assms(1)] unfolding sample_print_JObject by simp
qed

lemma sample_parse_JUint:
  assumes "length (sample_print (JUint m)) \<le> n"
  shows "sample_parse n (sample_print (JUint m) @ r) = Some (JUint m, r)"
proof -
  obtain k where "n = Suc k" using assms by (cases n) auto
  then show ?thesis by (simp add: parse_bits_print length_print_bits)
qed

lemma sample_parse_print:
  "length (sample_print v) \<le> n \<Longrightarrow> sample_parse n (sample_print v @ r) = Some (v, r)"
proof (induction v arbitrary: n r)
  case (JArray vs)
  show ?case by (rule sample_parse_JArray [OF JArray.IH JArray.prems])
next
  case (JObject fs)
  show ?case by (rule sample_parse_JObject [OF JObject.IH JObject.prems]) auto
next
  case (JUint m)
  then show ?case by (rule sample_parse_JUint)
next
  case JNull
  then show ?case by (cases n) simp_all
next
  case (JBool b)
  then show ?case by (cases n) simp_all
next
  case (JNumber s)
  then show ?case by (cases n) (simp_all add: parse_str_print)
next
  case (JString s)
  then show ?case by (cases n) (simp_all add: parse_str_print)
qed

interpretation jsonc: codec sample_print "\<lambda>bs. map_option fst (sample_parse (length bs) bs)"
  by unfold_locales (use sample_parse_print [OF order.refl, where r = "[]"] in simp)

end
