(* ===== verification/Proxy.thy ===== *)
theory Proxy
  imports Idempotency
begin

text \<open>
  The entry point of \<^verbatim>\<open>src/src/proxy.rs\<close>: \<open>route\<close>, which checks a request and forwards it
  with or without the customer idempotency protocol, and the protocol's three exchanges with the
  nodes. The state is the routing table with the environment's state, as in the theory \<open>Forward\<close>.
\<close>

section \<open>Routing one request\<close>

definition choose_target :: "externals \<Rightarrow> verified_identity option \<Rightarrow> uri \<Rightarrow> bytes \<Rightarrow> route_table \<Rightarrow>
    (shard_id option \<times> string option) \<times> route_table" where
  "choose_target x identity u body t =
     (case routing_key_with_body x u body (map_option vi_org_id identity) of
        Some key \<Rightarrow>
          (let shard = x_shard_for x key (rt_shard_count t) in ((Some shard, leader_for t shard), t))
      | None \<Rightarrow> (case any_node t of (target, t) \<Rightarrow> ((None, target), t)))"

definition no_route_response :: "shard_id option \<Rightarrow> response" where
  "no_route_response shard = json_response 503 (JObject
     [(''error'', JString ''no_route''), (''detail'', JString ''no known node for this request''),
      (''shard'', case shard of Some s \<Rightarrow> JUint (ucast s) | None \<Rightarrow> JNull)])"

definition route_without_customer_idempotency :: "externals \<Rightarrow> 'w forward_env \<Rightarrow>
    verified_identity option \<Rightarrow> http_method \<Rightarrow> uri \<Rightarrow> header_map \<Rightarrow> bytes \<Rightarrow> route_table \<times> 'w \<Rightarrow>
    response \<times> (route_table \<times> 'w)" where
  "route_without_customer_idempotency x env identity m u h body st =
     (case st of (t, w) \<Rightarrow>
        (case choose_target x identity u body t of
           ((shard, None), t) \<Rightarrow> (no_route_response shard, (t, w))
         | ((shard, Some target), t) \<Rightarrow>
             forward_with_redirect x env
               \<lparr>fr_identity = identity, fr_target = target, fr_shard = shard, fr_method = m,
                fr_uri = u, fr_headers = h, fr_body = body\<rparr> (t, w)))"

section \<open>The protocol's exchanges\<close>

definition customer_inflight_lease_ms :: u64 where "customer_inflight_lease_ms = 120 * 1000"

definition customer_idempotency_ttl_ms :: u64 where "customer_idempotency_ttl_ms = 24 * 60 * 60 * 1000"

definition claim_uri :: uri where "claim_uri = origin_uri ''/v1/idempotency/claim'' None"

definition complete_uri :: uri where "complete_uri = origin_uri ''/v1/idempotency/complete'' None"

definition abandon_uri :: uri where "abandon_uri = origin_uri ''/v1/idempotency/abandon'' None"

definition claim_body :: "customer_idempotency \<Rightarrow> json" where
  "claim_body i = JObject
     [(''key'', JString (ci_internal_key i)), (''owner'', JString (ci_owner i)),
      (''ttl_ms'', JUint customer_inflight_lease_ms),
      (''retention_ms'', JUint customer_idempotency_ttl_ms),
      (''metadata'', JObject (map (\<lambda>(k, v). (k, JString v)) (idempotency_metadata i)))]"

definition complete_body :: "customer_idempotency \<Rightarrow> u64 \<Rightarrow> stored_response \<Rightarrow> json" where
  "complete_body i token stored = JObject
     [(''key'', JString (ci_internal_key i)), (''owner'', JString (ci_owner i)),
      (''fencing_token'', JUint token), (''result'', stored_to_value stored)]"

definition abandon_body :: "customer_idempotency \<Rightarrow> u64 \<Rightarrow> json" where
  "abandon_body i token = JObject
     [(''key'', JString (ci_internal_key i)), (''owner'', JString (ci_owner i)),
      (''fencing_token'', JUint token)]"

text \<open>The fields of an answer \<^verbatim>\<open>{"result": {"output": ..}}\<close>.\<close>

definition answer_output :: "json \<Rightarrow> json option" where
  "answer_output v = Option.bind (jget ''result'' v) (jget ''output'')"

definition bool_field :: "string \<Rightarrow> json \<Rightarrow> bool" where
  "bool_field f v = (case Option.bind (jget f v) as_bool of Some b \<Rightarrow> b | None \<Rightarrow> False)"

definition claim_answer :: "externals \<Rightarrow> response \<Rightarrow> response + idempotency_claim" where
  "claim_answer x resp =
     (case captured_from_response x resp of
        Inl _ \<Rightarrow> Inl (idempotency_unavailable ''claim response was too large'')
      | Inr captured \<Rightarrow>
          if \<not> is_success (cp_status captured)
          then Inl (idempotency_unavailable ''claim request failed'')
          else case x_json_parse x (cp_body captured) of
            None \<Rightarrow> Inl (idempotency_unavailable ''claim response was not valid json'')
          | Some v \<Rightarrow>
              (case answer_output v of
                 None \<Rightarrow> Inl (idempotency_unavailable ''claim response omitted output'')
               | Some output \<Rightarrow> Inr
                   \<lparr>ic_claimed = bool_field ''claimed'' output,
                    ic_duplicate = bool_field ''duplicate'' output,
                    ic_fencing_token = Option.bind (jget ''fencing_token'' output) as_u64,
                    ic_record = jget ''record'' output\<rparr>))"

definition claim_customer_idempotency :: "externals \<Rightarrow> 'w forward_env \<Rightarrow> verified_identity option \<Rightarrow>
    customer_idempotency \<Rightarrow> route_table \<times> 'w \<Rightarrow>
    (response + idempotency_claim) \<times> (route_table \<times> 'w)" where
  "claim_customer_idempotency x env identity i st =
     (case route_without_customer_idempotency x env identity POST claim_uri json_headers
        (x_json_print x (claim_body i)) st of
      (resp, st) \<Rightarrow> (claim_answer x resp, st))"

definition complete_answer :: "externals \<Rightarrow> response \<Rightarrow> string + unit" where
  "complete_answer x resp =
     (case captured_from_response x resp of
        Inl _ \<Rightarrow> Inl ''complete response was too large''
      | Inr captured \<Rightarrow>
          if \<not> is_success (cp_status captured) then Inl ''complete request failed''
          else case x_json_parse x (cp_body captured) of
            None \<Rightarrow> Inl ''invalid json''
          | Some v \<Rightarrow>
              if (case answer_output v of Some output \<Rightarrow> bool_field ''completed'' output | None \<Rightarrow> False)
              then Inr () else Inl ''complete was rejected'')"

definition complete_customer_idempotency :: "externals \<Rightarrow> 'w forward_env \<Rightarrow> verified_identity option \<Rightarrow>
    customer_idempotency \<Rightarrow> u64 \<Rightarrow> stored_response \<Rightarrow> route_table \<times> 'w \<Rightarrow>
    (string + unit) \<times> (route_table \<times> 'w)" where
  "complete_customer_idempotency x env identity i token stored st =
     (case route_without_customer_idempotency x env identity POST complete_uri json_headers
        (x_json_print x (complete_body i token stored)) st of
      (resp, st) \<Rightarrow> (complete_answer x resp, st))"

text \<open>The answer to a release is only logged.\<close>

definition abandon_customer_idempotency :: "externals \<Rightarrow> 'w forward_env \<Rightarrow> verified_identity option \<Rightarrow>
    customer_idempotency \<Rightarrow> u64 \<Rightarrow> route_table \<times> 'w \<Rightarrow> route_table \<times> 'w" where
  "abandon_customer_idempotency x env identity i token st =
     snd (route_without_customer_idempotency x env identity POST abandon_uri json_headers
       (x_json_print x (abandon_body i token)) st)"

section \<open>The protocol\<close>

definition mark_response :: "string \<Rightarrow> captured_response \<Rightarrow> response" where
  "mark_response v c =
     (let r = captured_into_response c
      in r\<lparr>resp_headers := header_insert fiducia_idempotency_header v (resp_headers r)\<rparr>)"

text \<open>What follows the forwarded request: release the claim, or complete it.\<close>

definition settle_claim :: "externals \<Rightarrow> 'w forward_env \<Rightarrow> verified_identity option \<Rightarrow>
    customer_idempotency \<Rightarrow> u64 \<Rightarrow> response \<Rightarrow> route_table \<times> 'w \<Rightarrow> response \<times> (route_table \<times> 'w)" where
  "settle_claim x env identity i token resp st =
     (case captured_from_response x resp of
        Inl failure \<Rightarrow> (failure, abandon_customer_idempotency x env identity i token st)
      | Inr captured \<Rightarrow>
          if \<not> is_cacheable_idempotent_response (cp_status captured)
          then (mark_response ''not_stored'' captured,
                abandon_customer_idempotency x env identity i token st)
          else case complete_customer_idempotency x env identity i token
              (stored_from_captured i captured) st of
            (Inr _, st) \<Rightarrow> (mark_response ''stored'' captured, st)
          | (Inl _, st) \<Rightarrow> (mark_response ''store_failed'' captured, st))"

definition route_with_customer_idempotency :: "externals \<Rightarrow> 'w forward_env \<Rightarrow>
    verified_identity option \<Rightarrow> http_method \<Rightarrow> uri \<Rightarrow> header_map \<Rightarrow> bytes \<Rightarrow> customer_idempotency \<Rightarrow>
    route_table \<times> 'w \<Rightarrow> response \<times> (route_table \<times> 'w)" where
  "route_with_customer_idempotency x env identity m u h body i st =
     (case claim_customer_idempotency x env identity i st of
        (Inl resp, st) \<Rightarrow> (resp, st)
      | (Inr claim, st) \<Rightarrow>
          (case response_for_duplicate_claim i claim of
             Some resp \<Rightarrow> (resp, st)
           | None \<Rightarrow>
               (case ic_fencing_token claim of
                  None \<Rightarrow> (idempotency_unavailable ''claim did not return a fencing token'', st)
                | Some token \<Rightarrow>
                    (case route_without_customer_idempotency x env identity m u h body st of
                       (resp, st) \<Rightarrow> settle_claim x env identity i token resp st))))"

definition route :: "externals \<Rightarrow> 'w forward_env \<Rightarrow> verified_identity option \<Rightarrow> http_method \<Rightarrow> uri \<Rightarrow>
    header_map \<Rightarrow> bytes \<Rightarrow> route_table \<times> 'w \<Rightarrow> response \<times> (route_table \<times> 'w)" where
  "route x env identity m u h body st =
     (if path_has_dot_segment (uri_path u) then (dot_segment_response u, st)
      else case authorize_route identity m u of
        Inl required \<Rightarrow> (insufficient_scope_response m u required, st)
      | Inr _ \<Rightarrow>
          (case from_request x identity m u h body of
             Inl resp \<Rightarrow> (resp, st)
           | Inr None \<Rightarrow>
               if (case identity of Some i \<Rightarrow> vi_require_idempotency i | None \<Rightarrow> False) \<and>
                  method_supports_customer_idempotency m \<and> \<not> is_idempotency_primitive u
               then (idempotency_key_required m u, st)
               else route_without_customer_idempotency x env identity m u h body st
           | Inr (Some idempotency) \<Rightarrow>
               route_with_customer_idempotency x env identity m u h body idempotency st))"

section \<open>What reaches the nodes\<close>

text \<open>Whether a request on the wire is for the path of a URI.\<close>

definition reaches :: "externals \<Rightarrow> uri \<Rightarrow> out_request \<Rightarrow> bool" where
  "reaches x u out \<longleftrightarrow>
     (case x_url_parse x (or_url out) of Some p \<Rightarrow> url_path p = uri_path u | None \<Rightarrow> False)"

definition org_header :: "verified_identity option \<Rightarrow> string list" where
  "org_header identity = (case identity of None \<Rightarrow> [] | Some v \<Rightarrow> [vi_org_id v])"

definition speaks_for :: "verified_identity option \<Rightarrow> (out_request \<times> sent) list \<Rightarrow> bool" where
  "speaks_for identity entries \<longleftrightarrow>
     list_all (\<lambda>(out, s). header_get_all (or_headers out) ''x-fiducia-org-id'' = org_header identity) entries"

definition sends_ok :: "externals \<Rightarrow> verified_identity option \<Rightarrow> http_method \<Rightarrow> uri \<Rightarrow> (out_request \<times> sent) list \<Rightarrow> bool" where
  "sends_ok x identity m u entries \<longleftrightarrow>
     length entries \<le> 4 \<and> list_all (\<lambda>(out, s). reaches x u out) entries \<and>
     speaks_for identity entries \<and>
     (\<not> method_is_replay_safe m \<longrightarrow>
        list_all (\<lambda>(_, s). surely_unapplied (outcome x s)) (butlast entries))"

lemma upstream_url_reaches:
  "upstream_url x node u = Some url \<Longrightarrow> or_url out = url \<Longrightarrow> reaches x u out"
  by (auto simp: upstream_url_def reaches_def Let_def split: if_splits option.splits)

lemma log_ok_sends:
  assumes "log_ok x env r att M max_hops log"
  shows "sends_ok x (fr_identity r) (fr_method r) (fr_uri r) log"
proof -
  have "reaches x (fr_uri r) out \<and>
      header_get_all (or_headers out) ''x-fiducia-org-id'' = org_header (fr_identity r)" if e: "(out, s) \<in> set log" for out s
  proof -
    from e assms obtain url where "upstream_url x (or_node out) (fr_uri r) = Some url"
      and "out = out_request_for env url (r\<lparr>fr_target := or_node out\<rparr>)"
      unfolding log_ok_def by blast
    moreover have "header_get_all (or_headers (out_request_for env url (r\<lparr>fr_target := node\<rparr>))) ''x-fiducia-org-id'' =
        org_header (fr_identity r)" for node
      using verified_headers [of "''x-fiducia-org-id''" env url "r\<lparr>fr_target := node\<rparr>"]
      by (simp add: verified_names_def identity_headers_get secret_headers_get org_header_def split: option.split)
    ultimately show ?thesis
      by (metis out_request.select_convs(2) out_request_for_def upstream_url_reaches)
  qed
  then show ?thesis
    using assms by (auto simp: sends_ok_def log_ok_def max_hops_def list_all_iff speaks_for_def)
qed

lemma route_without_logged:
  assumes "route_without_customer_idempotency x env identity m u h body (t, w) = (resp, (t', w'))"
  shows "\<exists>entries. route_without_customer_idempotency x (logged env) identity m u h body (t, (w, log)) =
      (resp, (t', (w', log @ entries))) \<and> sends_ok x identity m u entries"
proof -
  obtain shard target t1 where c: "choose_target x identity u body t = ((shard, target), t1)"
    by (metis prod.exhaust)
  show ?thesis
  proof (cases target)
    case None
    then show ?thesis
      using assms c by (auto simp: route_without_customer_idempotency_def sends_ok_def speaks_for_def)
  next
    case (Some node)
    let ?r = "\<lparr>fr_identity = identity, fr_target = node, fr_shard = shard, fr_method = m,
      fr_uri = u, fr_headers = h, fr_body = body\<rparr>"
    have f: "forward_hops max_hops x env {} ?r (t1, w) = (resp, (t', w'))"
      using assms c Some by (simp add: route_without_customer_idempotency_def forward_with_redirect_def)
    from forward_hops_logged [OF f, of UNIV log]
    obtain entries where e: "forward_hops max_hops x (logged env) {} ?r (t1, (w, log)) =
        (resp, (t', (w', log @ entries)))" "log_ok x env ?r {} UNIV max_hops entries"
      by (auto simp: membership_within_def)
    then show ?thesis
      using c Some log_ok_sends [OF e(2)]
      by (simp add: route_without_customer_idempotency_def forward_with_redirect_def)
  qed
qed

text \<open>The log after one exchange of the load balancer with the nodes.\<close>

lemma route_without_log:
  assumes "route_without_customer_idempotency x (logged env) identity m u h body (t, (w, log)) =
    (resp, (t', (w', log')))"
  shows "\<exists>entries. log' = log @ entries \<and> sends_ok x identity m u entries"
proof -
  obtain resp1 t1 w1 where "route_without_customer_idempotency x env identity m u h body (t, w) = (resp1, (t1, w1))"
    by (metis prod.exhaust)
  from route_without_logged [OF this, of log] assms show ?thesis by auto
qed

lemma settle_claim_log:
  assumes "settle_claim x (logged env) identity i token resp (t, (w, log)) = (resp', (t', (w', log')))"
  shows "\<exists>entries. log' = log @ entries \<and> speaks_for identity entries \<and>
    (list_all (\<lambda>(out, s). reaches x complete_uri out) entries \<or>
     list_all (\<lambda>(out, s). reaches x abandon_uri out) entries)"
proof -
  obtain r1 t1 w1 log1 where abandon: "route_without_customer_idempotency x (logged env) identity POST abandon_uri
      json_headers (x_json_print x (abandon_body i token)) (t, (w, log)) = (r1, (t1, (w1, log1)))"
    by (metis prod.exhaust)
  have complete: "\<exists>entries. log2 = log @ entries \<and> speaks_for identity entries \<and>
      list_all (\<lambda>(out, s). reaches x complete_uri out) entries"
    if "complete_customer_idempotency x (logged env) identity i token stored (t, (w, log)) = (a, (t2, (w2, log2)))"
    for stored a t2 w2 log2
    using that route_without_log
    by (fastforce simp: complete_customer_idempotency_def sends_ok_def split: prod.splits)
  have released: "\<exists>entries. log1 = log @ entries \<and> speaks_for identity entries \<and>
      list_all (\<lambda>(out, s). reaches x abandon_uri out) entries"
    using route_without_log [OF abandon] by (auto simp: sends_ok_def)
  show ?thesis
    using assms abandon released complete
    by (auto simp: settle_claim_def abandon_customer_idempotency_def
        split: sum.splits if_splits prod.splits) blast+
qed

lemma other_path_filter:
  assumes "list_all (\<lambda>(out, s). reaches x v out) entries" "uri_path u \<noteq> uri_path v"
  shows "filter (\<lambda>(out, s). reaches x u out) entries = []"
  using assms by (auto simp: filter_empty_conv list_all_iff reaches_def split: option.splits)

lemma protocol_paths:
  assumes "\<not> is_idempotency_primitive u"
  shows "uri_path u \<noteq> uri_path claim_uri" "uri_path u \<noteq> uri_path complete_uri"
    "uri_path u \<noteq> uri_path abandon_uri"
  using assms
  by (auto simp: is_idempotency_primitive_def claim_uri_def complete_uri_def abandon_uri_def starts_with_def)

lemma claim_log:
  assumes "claim_customer_idempotency x (logged env) identity i (t, (w, log)) = (a, (t', (w', log')))"
  shows "\<exists>entries. log' = log @ entries \<and> speaks_for identity entries \<and>
    list_all (\<lambda>(out, s). reaches x claim_uri out) entries"
  using assms route_without_log
  by (fastforce simp: claim_customer_idempotency_def sends_ok_def split: prod.splits)

lemma granted_claim:
  "response_for_duplicate_claim i claim = None \<longleftrightarrow> ic_claimed claim"
  by (auto simp: response_for_duplicate_claim_def Let_def split: option.splits if_splits)

text \<open>Where the protocol ends: before the request is forwarded, or after it.\<close>

lemma route_with_cases:
  assumes "route_with_customer_idempotency x env identity m u h body i st = (resp, st')"
  obtains (refused) a where "claim_customer_idempotency x env identity i st = (a, st')"
      "\<And>claim. a = Inr claim \<Longrightarrow> ic_claimed claim \<Longrightarrow> ic_fencing_token claim = None"
    | (forwarded) claim token st1 r st2 where
      "claim_customer_idempotency x env identity i st = (Inr claim, st1)" "ic_claimed claim"
      "ic_fencing_token claim = Some token"
      "route_without_customer_idempotency x env identity m u h body st1 = (r, st2)"
      "settle_claim x env identity i token r st2 = (resp, st')"
proof (cases "\<exists>claim token st1. claim_customer_idempotency x env identity i st = (Inr claim, st1) \<and>
    ic_claimed claim \<and> ic_fencing_token claim = Some token")
  case True
  then obtain claim token st1 where c: "claim_customer_idempotency x env identity i st = (Inr claim, st1)"
    "ic_claimed claim" "ic_fencing_token claim = Some token" by blast
  obtain r st2 where r: "route_without_customer_idempotency x env identity m u h body st1 = (r, st2)"
    by (metis surj_pair)
  have "settle_claim x env identity i token r st2 = (resp, st')"
    using assms c r granted_claim [of i claim] by (simp add: route_with_customer_idempotency_def)
  with c r show ?thesis by (rule forwarded)
next
  case False
  obtain a st1 where c: "claim_customer_idempotency x env identity i st = (a, st1)"
    by (metis surj_pair)
  have "st1 = st'"
    using assms c False granted_claim
    by (auto simp: route_with_customer_idempotency_def split: sum.splits option.splits)
  moreover have "ic_fencing_token claim = None" if "a = Inr claim" "ic_claimed claim" for claim
    using False c that by (cases "ic_fencing_token claim") auto
  ultimately show ?thesis using c by (intro refused) auto
qed

text \<open>Every request that one call of \<^verbatim>\<open>route\<close> sends is for the caller's organisation.\<close>

lemma speaks_for_append [simp]:
  "speaks_for identity []" "speaks_for identity (a @ b) \<longleftrightarrow> speaks_for identity a \<and> speaks_for identity b"
  by (simp_all add: speaks_for_def)

lemma route_with_log:
  assumes "route_with_customer_idempotency x (logged env) identity m u h body i (t, (w, log)) =
    (resp, (t', (w', log')))"
  shows "\<exists>entries. log' = log @ entries \<and> speaks_for identity entries"
  using assms
proof (cases rule: route_with_cases)
  case (refused a)
  then show ?thesis using claim_log [OF refused(1)] by blast
next
  case (forwarded claim token st1 r st2)
  obtain t1 w1 log1 where st1: "st1 = (t1, (w1, log1))" by (cases st1) auto
  obtain t2 w2 log2 where st2: "st2 = (t2, (w2, log2))" by (cases st2) auto
  show ?thesis
    using claim_log [OF forwarded(1) [unfolded st1]] route_without_log [OF forwarded(4) [unfolded st1 st2]]
      settle_claim_log [OF forwarded(5) [unfolded st2]]
    by (auto simp: sends_ok_def)
qed

lemma route_log:
  assumes "route x (logged env) identity m u h body (t, (w, log)) = (resp, (t', (w', log')))"
  shows "\<exists>entries. log' = log @ entries \<and> speaks_for identity entries"
  using assms route_without_log [of x env identity m u h body t w log resp t' w' log'] route_with_log
  by (fastforce simp: route_def sends_ok_def split: if_splits sum.splits option.splits)

text \<open>The response of a granted claim: the captured one, marked.\<close>

lemma settled_response:
  assumes "claim_customer_idempotency x env identity i st = (Inr claim, st1)" "ic_claimed claim"
    and "ic_fencing_token claim = Some token"
    and "route_without_customer_idempotency x env identity m u h body st1 = (r, st2)"
    and "to_bytes x 8388608 (resp_body r) = Some b"
  shows "\<exists>v. fst (route_with_customer_idempotency x env identity m u h body i st) =
    mark_response v \<lparr>cp_status = resp_status r, cp_headers = resp_headers r, cp_body = b\<rparr>"
proof -
  have "route_with_customer_idempotency x env identity m u h body i st =
      settle_claim x env identity i token r st2"
    using assms(1-4) granted_claim [of i claim] by (simp add: route_with_customer_idempotency_def)
  then show ?thesis
    using assms(5)
    by (auto simp: settle_claim_def captured_from_response_def max_capture_bytes_def
        split: sum.splits prod.splits)
qed

section \<open>Properties\<close>

text \<open>
  C2: a keyed mutation runs only under its claim, and takes effect at most once. Whatever the
  nodes answer, of the requests that one call of \<^verbatim>\<open>route\<close> with an idempotency key puts on the
  wire, those for the request's own path come only after the claim was granted with a fencing
  token; there are at most four, and all but the last were surely not applied.
\<close>

theorem claimed_mutation_applied_once:
  assumes "from_request x identity m u h body = Inr (Some i)"
    and "route x (logged env) identity m u h body (t, (w, [])) = (resp, (t', (w', log)))"
  shows "let mine = filter (\<lambda>(out, s). reaches x u out) log in
    (mine \<noteq> [] \<longrightarrow> (\<exists>claim token st. claim_customer_idempotency x (logged env) identity i (t, (w, [])) =
       (Inr claim, st) \<and> ic_claimed claim \<and> ic_fencing_token claim = Some token)) \<and>
    length mine \<le> 4 \<and> list_all (\<lambda>(_, s). surely_unapplied (outcome x s)) (butlast mine)"
proof -
  have m: "\<not> method_is_replay_safe m" and paths: "\<not> is_idempotency_primitive u"
    using assms(1)
    by (auto simp: from_request_Some method_supports_customer_idempotency_def method_is_replay_safe_def)
  note other = other_path_filter [OF _ protocol_paths(1) [OF paths]]
    other_path_filter [OF _ protocol_paths(2) [OF paths]] other_path_filter [OF _ protocol_paths(3) [OF paths]]
  consider (early) "log = []" | (run) "route_with_customer_idempotency x (logged env) identity m u h body i
      (t, (w, [])) = (resp, (t', (w', log)))"
    using assms by (auto simp: route_def split: if_splits sum.splits)
  then show ?thesis
  proof cases
    case run
    then show ?thesis
    proof (cases rule: route_with_cases)
      case (refused a)
      then have "filter (\<lambda>(out, s). reaches x u out) log = []"
        using claim_log [OF refused(1)] other(1) by auto
      then show ?thesis by simp
    next
      case (forwarded claim token st1 r st2)
      obtain t1 w1 log1 where st1: "st1 = (t1, (w1, log1))" by (cases st1) auto
      obtain t2 w2 log2 where st2: "st2 = (t2, (w2, log2))" by (cases st2) auto
      have "filter (\<lambda>(out, s). reaches x u out) log1 = []"
        using claim_log [OF forwarded(1) [unfolded st1]] other(1) by auto
      moreover obtain entries where e: "log2 = log1 @ entries" "sends_ok x identity m u entries"
        using route_without_log [OF forwarded(4) [unfolded st1 st2]] by blast
      moreover obtain rest where "log = log2 @ rest"
        "list_all (\<lambda>(out, s). reaches x complete_uri out) rest \<or>
         list_all (\<lambda>(out, s). reaches x abandon_uri out) rest"
        using settle_claim_log [OF forwarded(5) [unfolded st2]] by blast
      moreover have "filter (\<lambda>(out, s). reaches x u out) entries = entries"
        using e(2) by (auto simp: sends_ok_def list_all_iff intro: filter_True)
      ultimately have "filter (\<lambda>(out, s). reaches x u out) log = entries"
        using other(2,3) by auto
      then show ?thesis
        using e(2) m forwarded(1-3) by (auto simp: sends_ok_def Let_def st1)
    qed
  qed simp
qed

text \<open>
  C24: what the protocol does to a response. When the claim is granted and the response of the
  forwarded request fits the capture limit, the client gets its status, its body and its headers
  with one more, \<^verbatim>\<open>x-fiducia-idempotency\<close>: \<open>not_stored\<close> for a 5xx, 408 or 429, after the claim
  was released, else \<open>stored\<close> if the completion was accepted and \<open>store_failed\<close> if not.
\<close>

theorem idempotent_response_preserved:
  assumes "claim_customer_idempotency x env identity i st = (Inr claim, st1)" "ic_claimed claim"
    and "ic_fencing_token claim = Some token"
    and "route_without_customer_idempotency x env identity m u h body st1 = (r, st2)"
    and "to_bytes x 8388608 (resp_body r) = Some b"
  shows "\<exists>v st'. route_with_customer_idempotency x env identity m u h body i st =
      (\<lparr>resp_status = resp_status r,
        resp_headers = header_insert ''x-fiducia-idempotency'' v (resp_headers r),
        resp_body = BodyBytes b\<rparr>, st') \<and>
    (if is_server_error (resp_status r) \<or> resp_status r = 408 \<or> resp_status r = 429
     then v = ''not_stored'' \<and> st' = abandon_customer_idempotency x env identity i token st2
     else \<exists>a. complete_customer_idempotency x env identity i token
         (stored_from_captured i \<lparr>cp_status = resp_status r, cp_headers = resp_headers r, cp_body = b\<rparr>) st2 = (a, st') \<and>
       v = (case a of Inr _ \<Rightarrow> ''stored'' | Inl _ \<Rightarrow> ''store_failed''))"
proof -
  let ?c = "\<lparr>cp_status = resp_status r, cp_headers = resp_headers r, cp_body = b\<rparr>"
  have captured: "captured_from_response x r = Inr ?c"
    using assms(5) by (simp add: captured_from_response_def max_capture_bytes_def)
  have marked: "mark_response v ?c = \<lparr>resp_status = resp_status r,
      resp_headers = header_insert ''x-fiducia-idempotency'' v (resp_headers r), resp_body = BodyBytes b\<rparr>" for v
    by (simp add: mark_response_def captured_into_response_def fiducia_idempotency_header_def Let_def)
  have run: "route_with_customer_idempotency x env identity m u h body i st =
      settle_claim x env identity i token r st2"
    using assms(1-4) granted_claim [of i claim] by (simp add: route_with_customer_idempotency_def)
  obtain a st3 where complete: "complete_customer_idempotency x env identity i token
      (stored_from_captured i ?c) st2 = (a, st3)"
    by (metis surj_pair)
  show ?thesis
  proof (cases "is_server_error (resp_status r) \<or> resp_status r = 408 \<or> resp_status r = 429")
    case True
    then show ?thesis
      by (intro exI [of _ "''not_stored''"] exI [of _ "abandon_customer_idempotency x env identity i token st2"])
        (auto simp: run settle_claim_def captured is_cacheable_idempotent_response_def marked)
  next
    case False
    then show ?thesis
      by (intro exI [of _ "case a of Inr _ \<Rightarrow> ''stored'' | Inl _ \<Rightarrow> ''store_failed''"] exI [of _ st3])
        (simp add: run settle_claim_def captured is_cacheable_idempotent_response_def marked complete
          split: sum.split)
  qed
qed

text \<open>
  C13: a retry gets the first response, and is not run again. Let a keyed request be granted its
  claim and end in a response that is final. If the nodes answer the claim of a later request
  with the same identity and key by a duplicate, whose record holds the
  metadata of the first claim and the result of the first completion, then the later request
  ends with its claim: nothing else is sent. If the first response has at most 32 KiB, the later
  one has its status, body and content type, marked as a replay; a larger response was stored in
  part only, and the later request is told so by a 409.
\<close>

theorem retry_replays_first_response:
  assumes "claim_customer_idempotency x env identity i st = (Inr claim, st1)" "ic_claimed claim"
    and "ic_fencing_token claim = Some token"
    and "route_without_customer_idempotency x env identity m u h body st1 = (r, st2)"
    and "to_bytes x 8388608 (resp_body r) = Some b"
    and "100 \<le> resp_status r" "resp_status r < 500" "resp_status r \<noteq> 408" "resp_status r \<noteq> 429"
    and "claim_customer_idempotency x env identity i st3 = (Inr claim', st4)" "\<not> ic_claimed claim'"
    and "ic_duplicate claim'" "ic_record claim' = Some rcd"
    and "jget ''metadata'' rcd = jget ''metadata'' (claim_body i)"
    and "jget ''status'' rcd = Some (JString ''completed'')"
    and "jget ''result'' rcd = jget ''result'' (complete_body i token (stored_from_captured i
      \<lparr>cp_status = resp_status r, cp_headers = resp_headers r, cp_body = b\<rparr>))"
  shows "\<exists>r1 r2. fst (route_with_customer_idempotency x env identity m u h body i st) = r1 \<and>
    resp_body r1 = BodyBytes b \<and>
    route_with_customer_idempotency x env identity m u h body i st3 = (r2, st4) \<and>
    (if length b \<le> 32768
     then resp_status r2 = resp_status r1 \<and> resp_body r2 = resp_body r1 \<and>
       header_get (resp_headers r2) ''content-type'' =
         Option.bind (header_get (resp_headers r1) ''content-type'') header_to_str \<and>
       header_get (resp_headers r2) ''idempotent-replayed'' = Some ''true''
     else r2 = replay_unavailable ''stored response exceeded the replay body limit'' \<and> resp_status r2 = 409)"
proof -
  let ?c = "\<lparr>cp_status = resp_status r, cp_headers = resp_headers r, cp_body = b\<rparr>"
  obtain v where first: "fst (route_with_customer_idempotency x env identity m u h body i st) = mark_response v ?c"
    using settled_response [OF assms(1-5)] by blast
  have "jget ''metadata'' rcd = Some (JObject (map (\<lambda>(k, v). (k, JString v)) (idempotency_metadata i)))"
    "jget ''fingerprint'' (JObject (map (\<lambda>(k, v). (k, JString v)) (idempotency_metadata i))) =
      Some (JString (ci_fingerprint i))"
    "jget ''result'' rcd = Some (stored_to_value (stored_from_captured i ?c))"
    using assms(14,16) by (simp_all add: claim_body_def complete_body_def idempotency_metadata_def)
  from replay_stored [OF assms(11-13) this(1,2) assms(15) this(3)] obtain r2 where
    r2: "response_for_duplicate_claim i claim' = Some r2"
      "if length b \<le> 32768 then resp_status r2 = resp_status r \<and> resp_body r2 = BodyBytes b \<and>
         header_get (resp_headers r2) ''content-type'' = Option.bind (header_get (resp_headers r) ''content-type'') header_to_str \<and>
         header_get (resp_headers r2) ''idempotent-replayed'' = Some ''true''
       else r2 = replay_unavailable ''stored response exceeded the replay body limit''"
    using assms(6,7) by (auto split: if_splits)
  then have "route_with_customer_idempotency x env identity m u h body i st3 = (r2, st4)"
    using assms(10) by (simp add: route_with_customer_idempotency_def)
  moreover have "resp_status (replay_unavailable d) = 409" for d
    by (simp add: replay_unavailable_def error_response_def json_response_def)
  ultimately show ?thesis
    using r2(2) first
    by (simp add: mark_response_def captured_into_response_def Let_def header_get_insert fiducia_idempotency_header_def)
qed

text \<open>
  C23: nothing of a refused request reaches a node. If \<^verbatim>\<open>route\<close> changes anything at all, the
  table or the environment, then the path has no dot segment, the scopes of the identity permit
  the route, and a key that must carry an idempotency key on a mutation carries a valid one.
\<close>

theorem refused_request_sends_nothing:
  assumes "snd (route x env identity m u h body st) \<noteq> st"
  shows "\<not> path_has_dot_segment (uri_path u) \<and> authorize_route identity m u = Inr () \<and>
    (case from_request x identity m u h body of
       Inl _ \<Rightarrow> False
     | Inr None \<Rightarrow> (case identity of None \<Rightarrow> True | Some v \<Rightarrow> \<not> vi_require_idempotency v) \<or>
         \<not> method_supports_customer_idempotency m \<or> is_idempotency_primitive u
     | Inr (Some _) \<Rightarrow> True)"
  using assms by (auto simp: route_def split: if_splits sum.splits option.splits)

text \<open>
  When the forwarded request ends in the ambiguous 502, whose text tells the client to retry with
  the same key because the mutation may have been committed, the claim is released with its token
  and nothing is stored. (Theory \<open>Lost_Reply\<close> shows what the retry then does.)
\<close>

lemma ambiguous_mutation_releases_key:
  assumes "claim_customer_idempotency x env identity i st = (Inr claim, st1)" "ic_claimed claim"
    and "ic_fencing_token claim = Some token"
    and "route_without_customer_idempotency x env identity m u h body st1 = (ambiguous_response, st2)"
    and "length (x_json_print x (JObject [(''error'', JString ''ambiguous_upstream_result''),
      (''detail'', JString ''the mutation may have committed; retry only with the same Idempotency-Key'')])) \<le> 8388608"
  shows "route_with_customer_idempotency x env identity m u h body i st =
    (\<lparr>resp_status = 502,
      resp_headers = [(''content-type'', ''application/json''), (''x-fiducia-idempotency'', ''not_stored'')],
      resp_body = BodyBytes (x_json_print x (JObject [(''error'', JString ''ambiguous_upstream_result''),
        (''detail'', JString ''the mutation may have committed; retry only with the same Idempotency-Key'')]))\<rparr>,
     abandon_customer_idempotency x env identity i token st2)"
proof -
  have "route_with_customer_idempotency x env identity m u h body i st =
      settle_claim x env identity i token ambiguous_response st2"
    using assms(1-4) granted_claim [of i claim] by (simp add: route_with_customer_idempotency_def)
  then show ?thesis
    using assms(5)
    by (simp add: settle_claim_def captured_from_response_def to_bytes_def max_capture_bytes_def
        ambiguous_response_def error_response_def json_response_def is_cacheable_idempotent_response_def
        is_server_error_def mark_response_def captured_into_response_def fiducia_idempotency_header_def
        header_insert_def Let_def)
qed

section \<open>Witnesses\<close>

text \<open>
  Nodes that answer a claim with one byte, which is their state, accept the completion with the
  byte 3, and answer any other path with a given reply. As a claim's answer, 1 grants it with
  token 7; 4 reports a duplicate whose record holds the response of \<open>sample_created\<close>, as the claim
  and the completion of \<open>sample_key\<close> stored it.
\<close>

abbreviation sample_kv :: uri where
  "sample_kv \<equiv> origin_uri ''/v1/kv'' None"

definition sample_key :: customer_idempotency where
  "sample_key = idempotency_for sample_externals (Some sample_identity) PUT sample_kv sample_keyed [] ''k''"

definition sample_stored :: stored_response where
  "sample_stored = stored_from_captured sample_key \<lparr>cp_status = 201, cp_headers = [], cp_body = [2]\<rparr>"

definition sample_record :: json where
  "sample_record = JObject
     [(''metadata'', JObject (map (\<lambda>(k, v). (k, JString v)) (idempotency_metadata sample_key))),
      (''status'', JString ''completed''), (''result'', stored_to_value sample_stored)]"

definition sample_output :: "json \<Rightarrow> json" where
  "sample_output output = JObject [(''result'', JObject [(''output'', output)])]"

definition sample_protocol_x :: externals where
  "sample_protocol_x = sample_externals\<lparr>x_json_parse := (\<lambda>b.
     if b = [1] then Some (sample_output (JObject [(''claimed'', JBool True), (''fencing_token'', JUint 7)]))
     else if b = [3] then Some (sample_output (JObject [(''completed'', JBool True)]))
     else if b = [4] then Some (sample_output (JObject [(''duplicate'', JBool True), (''record'', sample_record)]))
     else None)\<rparr>"

definition sample_reply :: "byte \<Rightarrow> sent \<Rightarrow> string \<Rightarrow> sent" where
  "sample_reply w s path =
     (if path = ''/v1/idempotency/claim''
      then Replied \<lparr>ur_status = 200, ur_headers = [], ur_chunks = [Some [w]]\<rparr>
      else if path = ''/v1/idempotency/complete''
      then Replied \<lparr>ur_status = 200, ur_headers = [], ur_chunks = [Some [3]]\<rparr> else s)"

definition sample_protocol_env :: "sent \<Rightarrow> byte forward_env" where
  "sample_protocol_env s =
     \<lparr>fe_secret = Some ''s'',
      fe_send = (\<lambda>out (t, w). (case sample_url_parse (or_url out) of
         Some p \<Rightarrow> sample_reply w s (url_path p) | None \<Rightarrow> SendFailed, (t, w))),
      fe_now = (\<lambda>_. 0)\<rparr>"

definition sample_paths :: "string list" where
  "sample_paths = [''/v1/kv'', ''/v1/idempotency/claim'', ''/v1/idempotency/complete'', ''/v1/idempotency/abandon'']"

lemma sample_upstream_urls:
  "list_all (\<lambda>node. list_all (\<lambda>path.
     upstream_url sample_protocol_x node (origin_uri path None) = Some (node @ path) \<and>
     map_option url_path (sample_url_parse (node @ path)) = Some path) sample_paths)
     [''http://a:1'', ''http://b'']"
  by code_simp

lemma sample_upstream_url:
  assumes "node \<in> {''http://a:1'', ''http://b''}" "path \<in> set sample_paths"
  shows "upstream_url sample_protocol_x node (origin_uri path None) = Some (node @ path)"
    "map_option url_path (sample_url_parse (node @ path)) = Some path"
  using sample_upstream_urls assms by (auto simp: list_all_iff)

lemma sample_path_segs:
  "map (\<lambda>path. path_segs (origin_uri path None)) sample_paths =
     [[''v1'', ''kv''], [''v1'', ''idempotency'', ''claim''], [''v1'', ''idempotency'', ''complete''],
      [''v1'', ''idempotency'', ''abandon'']]"
  by code_simp

lemma sample_keyless:
  assumes "path \<in> set sample_paths" "x_json_parse sample_protocol_x body = None"
  shows "routing_key_with_body sample_protocol_x (origin_uri path None) body org = None"
  using assms sample_path_segs unfolding sample_paths_def
  by (auto simp: routing_key_with_body_def routing_key_def query_param_def json_body_field_def
      segs_start_def name_keyed_def)

lemma sample_choose:
  assumes "rt_nodes t = [''http://a:1'', ''http://b'']" "path \<in> set sample_paths"
    and "x_json_parse sample_protocol_x body = None"
  shows "\<exists>node. node \<in> {''http://a:1'', ''http://b''} \<and>
    choose_target sample_protocol_x identity (origin_uri path None) body t =
      ((None, Some node), t\<lparr>rt_cursor := rt_cursor t + 1\<rparr>)"
proof -
  have "[''http://a:1'', ''http://b''] ! (n mod Suc (Suc 0)) \<in> set [''http://a:1'', ''http://b'']" for n
    by (rule nth_mem) simp
  then show ?thesis
    using assms(1)
    by (auto simp: choose_target_def sample_keyless [OF assms(2,3)] any_node_pick)
qed

lemma sample_forward:
  assumes "node \<in> {''http://a:1'', ''http://b''}" "path \<in> set sample_paths"
    and "fr_identity r = Some sample_identity" "fr_uri r = origin_uri path None" "fr_target r = node"
  shows "\<exists>out. reaches sample_protocol_x (origin_uri path None) out \<and>
    forward_once sample_protocol_x (logged (sample_protocol_env s)) r (t, (w, log)) =
      (outcome sample_protocol_x (sample_reply w s path), (t, (w, log @ [(out, sample_reply w s path)])))"
proof -
  let ?out = "out_request_for (sample_protocol_env s) (node @ path) r"
  have url: "or_url (out_request_for e (node @ path) r) = node @ path" for e :: "byte forward_env"
    by (simp add: out_request_for_def)
  have ok: "list_all (\<lambda>(_, v). header_value_ok v) (identity_headers (Some sample_identity) @ secret_headers (Some ''s''))"
    by (simp add: identity_headers_def secret_headers_def sample_identity_def header_value_ok_def scopes_header_def)
  have sent: "fe_send (logged (sample_protocol_env s)) ?out (t, (w, log)) =
      (sample_reply w s path, (t, (w, log @ [(?out, sample_reply w s path)])))"
    using sample_upstream_url(2) [OF assms(1,2)]
    by (auto simp: logged_def sample_protocol_env_def url)
  have "forward_once sample_protocol_x (logged (sample_protocol_env s)) r (t, (w, log)) =
      (outcome sample_protocol_x (sample_reply w s path), (t, (w, log @ [(?out, sample_reply w s path)])))"
    using sent ok sample_upstream_url(1) [OF assms(1,2)] assms(3-5)
    by (simp add: forward_once_def outcome_def sample_protocol_env_def split: sent.split)
  moreover have "reaches sample_protocol_x (origin_uri path None) ?out"
    using upstream_url_reaches [OF sample_upstream_url(1) [OF assms(1,2)] url] .
  ultimately show ?thesis by blast
qed

lemma forward_answered:
  assumes "forward_once x env r (record_region_request (fr_target r) t, w) = (u, (t', w'))"
    and "(u = Served resp) \<or> (u = AmbiguousTransport \<and> \<not> method_is_replay_safe (fr_method r) \<and> resp = ambiguous_response)"
  shows "forward_with_redirect x env r (t, w) = (resp, (t', w'))"
  using assms by (auto simp: forward_with_redirect_def max_hops_def eval_nat_numeral after_hop_def Let_def)

lemma sample_exchange:
  assumes "rt_nodes t = [''http://a:1'', ''http://b'']" "path \<in> set sample_paths"
    and "x_json_parse sample_protocol_x body = None" "\<not> method_is_replay_safe m"
    and "outcome sample_protocol_x (sample_reply w s path) = Served resp \<or>
      outcome sample_protocol_x (sample_reply w s path) = AmbiguousTransport \<and> resp = ambiguous_response"
  shows "\<exists>t' out. rt_nodes t' = [''http://a:1'', ''http://b''] \<and>
    reaches sample_protocol_x (origin_uri path None) out \<and>
    route_without_customer_idempotency sample_protocol_x (logged (sample_protocol_env s)) (Some sample_identity)
      m (origin_uri path None) h body (t, (w, log)) =
      (resp, (t', (w, log @ [(out, sample_reply w s path)])))"
proof -
  obtain node where node: "node \<in> {''http://a:1'', ''http://b''}"
    and c: "choose_target sample_protocol_x (Some sample_identity) (origin_uri path None) body t =
      ((None, Some node), t\<lparr>rt_cursor := rt_cursor t + 1\<rparr>)"
    using sample_choose [OF assms(1-3)] by blast
  let ?r = "\<lparr>fr_identity = Some sample_identity, fr_target = node, fr_shard = None, fr_method = m,
    fr_uri = origin_uri path None, fr_headers = h, fr_body = body\<rparr>"
  let ?t = "record_region_request node (t\<lparr>rt_cursor := rt_cursor t + 1\<rparr>)"
  obtain out where out: "reaches sample_protocol_x (origin_uri path None) out"
    "forward_once sample_protocol_x (logged (sample_protocol_env s)) ?r (?t, (w, log)) =
      (outcome sample_protocol_x (sample_reply w s path), (?t, (w, log @ [(out, sample_reply w s path)])))"
    using sample_forward [OF node assms(2), of ?r s ?t w log] by auto
  have "forward_with_redirect sample_protocol_x (logged (sample_protocol_env s)) ?r
      (t\<lparr>rt_cursor := rt_cursor t + 1\<rparr>, (w, log)) = (resp, (?t, (w, log @ [(out, sample_reply w s path)])))"
    by (rule forward_answered) (use out(2) assms(4,5) in auto)
  moreover have "rt_nodes ?t = [''http://a:1'', ''http://b'']"
    using assms(1) by (simp add: record_region_request_def Let_def)
  ultimately show ?thesis
    using out(1) c by (auto simp: route_without_customer_idempotency_def)
qed

text \<open>One protocol run from the sample table, up to the forwarded request.\<close>

lemma sample_put_request:
  "from_request sample_protocol_x (Some sample_identity) PUT sample_kv sample_keyed [] = Inr (Some sample_key)"
  by (auto simp: from_request_Some sample_carried_key method_supports_customer_idempotency_def
      is_idempotency_primitive_def starts_with_def sample_key_def idempotency_for_def sha256_hex_def
      request_fingerprint_def sample_protocol_x_def)

lemma sample_print: "x_json_print sample_protocol_x j = []" "x_json_parse sample_protocol_x [] = None"
  by (simp_all add: sample_protocol_x_def sample_externals_def)

lemma sample_outcomes:
  "outcome sample_protocol_x (sample_reply 1 s ''/v1/idempotency/claim'') =
     Served \<lparr>resp_status = 200, resp_headers = [], resp_body = BodyBytes [1]\<rparr>"
  "outcome sample_protocol_x (Replied \<lparr>ur_status = 201, ur_headers = [], ur_chunks = [Some [2]]\<rparr>) =
     Served \<lparr>resp_status = 201, resp_headers = [], resp_body = BodyBytes [2]\<rparr>"
  by (simp_all add: outcome_def sample_reply_def read_reply_def response_headers_def
      is_event_stream_response_def header_get_def max_upstream_response_bytes_def
      classify_upstream_response_def header_value_def json_not_leader_def sample_protocol_x_def
      sample_externals_def)

lemma sample_claim_answer:
  "claim_answer sample_protocol_x \<lparr>resp_status = 200, resp_headers = [], resp_body = BodyBytes [1]\<rparr> =
     Inr \<lparr>ic_claimed = True, ic_duplicate = False, ic_fencing_token = Some 7, ic_record = None\<rparr>"
  by (simp add: claim_answer_def captured_from_response_def to_bytes_def max_capture_bytes_def
      is_success_def sample_protocol_x_def sample_output_def answer_output_def bool_field_def)

lemma sample_protocol_run:
  assumes "outcome sample_protocol_x s = Served resp \<or>
      outcome sample_protocol_x s = AmbiguousTransport \<and> resp = ambiguous_response"
  shows "\<exists>claim st1 t2 log out.
    claim_customer_idempotency sample_protocol_x (logged (sample_protocol_env s)) (Some sample_identity) sample_key
      (sample_table, (1, [])) = (Inr claim, st1) \<and> ic_claimed claim \<and> ic_fencing_token claim = Some 7 \<and>
    route_without_customer_idempotency sample_protocol_x (logged (sample_protocol_env s)) (Some sample_identity)
      PUT sample_kv sample_keyed [] st1 = (resp, (t2, (1, log @ [(out, s)]))) \<and>
    reaches sample_protocol_x sample_kv out"
proof -
  have m: "\<not> method_is_replay_safe POST" "\<not> method_is_replay_safe PUT"
    by (simp_all add: method_is_replay_safe_def)
  obtain t1 out1 where 1: "rt_nodes t1 = [''http://a:1'', ''http://b'']"
    "route_without_customer_idempotency sample_protocol_x (logged (sample_protocol_env s)) (Some sample_identity)
       POST (origin_uri ''/v1/idempotency/claim'' None) json_headers [] (sample_table, (1, [])) =
     (\<lparr>resp_status = 200, resp_headers = [], resp_body = BodyBytes [1]\<rparr>,
      (t1, (1, [] @ [(out1, sample_reply 1 s ''/v1/idempotency/claim'')])))"
    using sample_exchange [of sample_table "''/v1/idempotency/claim''" "[]" POST 1 s _ json_headers "[]"]
      sample_outcomes(1) sample_print m
    by (auto simp: sample_table_eq sample_paths_def)
  have kv: "sample_reply 1 s ''/v1/kv'' = s" by (simp add: sample_reply_def)
  obtain t2 out2 where 2: "reaches sample_protocol_x sample_kv out2"
    "route_without_customer_idempotency sample_protocol_x (logged (sample_protocol_env s)) (Some sample_identity)
       PUT sample_kv sample_keyed [] (t1, (1, [(out1, sample_reply 1 s ''/v1/idempotency/claim'')])) =
     (resp, (t2, (1, [(out1, sample_reply 1 s ''/v1/idempotency/claim'')] @ [(out2, s)])))"
    using sample_exchange [OF 1(1), of "''/v1/kv''" "[]" PUT 1 s resp sample_keyed
        "[(out1, sample_reply 1 s ''/v1/idempotency/claim'')]"] assms sample_print m kv
    by (auto simp: sample_paths_def)
  have "claim_customer_idempotency sample_protocol_x (logged (sample_protocol_env s)) (Some sample_identity) sample_key
      (sample_table, (1, [])) =
      (Inr \<lparr>ic_claimed = True, ic_duplicate = False, ic_fencing_token = Some 7, ic_record = None\<rparr>,
       (t1, (1, [(out1, sample_reply 1 s ''/v1/idempotency/claim'')])))"
    using 1(2) by (simp add: claim_customer_idempotency_def claim_uri_def sample_print sample_claim_answer)
  with 2 show ?thesis
    by (intro exI [of _ "\<lparr>ic_claimed = True, ic_duplicate = False, ic_fencing_token = Some 7, ic_record = None\<rparr>"]
        exI [of _ "(t1, (1, [(out1, sample_reply 1 s ''/v1/idempotency/claim'')]))"] exI [of _ t2]
        exI [of _ "[(out1, sample_reply 1 s ''/v1/idempotency/claim'')]"] exI [of _ out2]) simp
qed

text \<open>A node that answers 201 with the byte 2, and one whose connection breaks off.\<close>

definition sample_created :: sent where
  "sample_created = Replied \<lparr>ur_status = 201, ur_headers = [], ur_chunks = [Some [2]]\<rparr>"

lemma sample_created_run:
  obtains claim st1 t2 log out where
    "claim_customer_idempotency sample_protocol_x (logged (sample_protocol_env sample_created)) (Some sample_identity)
       sample_key (sample_table, (1, [])) = (Inr claim, st1)" "ic_claimed claim" "ic_fencing_token claim = Some 7"
    "route_without_customer_idempotency sample_protocol_x (logged (sample_protocol_env sample_created))
       (Some sample_identity) PUT sample_kv sample_keyed [] st1 =
       (\<lparr>resp_status = 201, resp_headers = [], resp_body = BodyBytes [2]\<rparr>, (t2, (1, log @ [(out, sample_created)])))"
    "reaches sample_protocol_x sample_kv out"
  using sample_protocol_run [of sample_created "\<lparr>resp_status = 201, resp_headers = [], resp_body = BodyBytes [2]\<rparr>"]
    sample_outcomes(2) unfolding sample_created_def by blast

lemma sample_route:
  "route sample_protocol_x env (Some sample_identity) PUT sample_kv sample_keyed [] st =
     route_with_customer_idempotency sample_protocol_x env (Some sample_identity) PUT sample_kv sample_keyed []
       sample_key st"
proof -
  have "\<not> path_has_dot_segment ''/v1/kv''" by (simp add: path_has_dot_segment_def to_ascii_lowercase_def)
  then show ?thesis
    by (simp add: route_def sample_identity_authorized sample_put_request)
qed

theorem idempotent_response_preserved_witness:
  "\<exists>v st. route_with_customer_idempotency sample_protocol_x (logged (sample_protocol_env sample_created))
      (Some sample_identity) PUT sample_kv sample_keyed [] sample_key (sample_table, (1, [])) =
    (\<lparr>resp_status = 201, resp_headers = header_insert ''x-fiducia-idempotency'' v [], resp_body = BodyBytes [2]\<rparr>, st) \<and>
    v \<in> {''stored'', ''store_failed''}"
proof (rule sample_created_run)
  fix claim st1 t2 log out
  assume run: "claim_customer_idempotency sample_protocol_x (logged (sample_protocol_env sample_created)) (Some sample_identity)
       sample_key (sample_table, (1, [])) = (Inr claim, st1)" "ic_claimed claim" "ic_fencing_token claim = Some 7"
    "route_without_customer_idempotency sample_protocol_x (logged (sample_protocol_env sample_created))
       (Some sample_identity) PUT sample_kv sample_keyed [] st1 =
       (\<lparr>resp_status = 201, resp_headers = [], resp_body = BodyBytes [2]\<rparr>, (t2, (1, log @ [(out, sample_created)])))"
  have b: "to_bytes sample_protocol_x 8388608
      (resp_body \<lparr>resp_status = 201, resp_headers = [], resp_body = BodyBytes [2]\<rparr>) = Some [2]"
    by (simp add: to_bytes_def)
  have "(case a of Inr (y :: unit) \<Rightarrow> ''stored'' | Inl (z :: string) \<Rightarrow> ''store_failed'') \<in> {''stored'', ''store_failed''}" for a
    by (cases a) simp_all
  with idempotent_response_preserved [OF run b] show ?thesis
    unfolding is_server_error_def by simp blast
qed

theorem claimed_mutation_applied_once_witness:
  "\<exists>resp t' w' log. route sample_protocol_x (logged (sample_protocol_env sample_created)) (Some sample_identity) PUT
      sample_kv sample_keyed [] (sample_table, (1, [])) = (resp, (t', (w', log))) \<and>
    length (filter (\<lambda>(out, s). reaches sample_protocol_x sample_kv out) log) \<in> {1 .. 4}"
proof (rule sample_created_run)
  fix claim st1 t2 log2 out
  assume run: "claim_customer_idempotency sample_protocol_x (logged (sample_protocol_env sample_created)) (Some sample_identity)
       sample_key (sample_table, (1, [])) = (Inr claim, st1)" "ic_claimed claim" "ic_fencing_token claim = Some 7"
    "route_without_customer_idempotency sample_protocol_x (logged (sample_protocol_env sample_created))
       (Some sample_identity) PUT sample_kv sample_keyed [] st1 =
       (\<lparr>resp_status = 201, resp_headers = [], resp_body = BodyBytes [2]\<rparr>, (t2, (1, log2 @ [(out, sample_created)])))"
    and out: "reaches sample_protocol_x sample_kv out"
  obtain resp t' w' log where settled: "settle_claim sample_protocol_x (logged (sample_protocol_env sample_created))
      (Some sample_identity) sample_key 7 \<lparr>resp_status = 201, resp_headers = [], resp_body = BodyBytes [2]\<rparr>
      (t2, (1, log2 @ [(out, sample_created)])) = (resp, (t', (w', log)))"
    by (metis surj_pair)
  have r: "route sample_protocol_x (logged (sample_protocol_env sample_created)) (Some sample_identity) PUT
      sample_kv sample_keyed [] (sample_table, (1, [])) = (resp, (t', (w', log)))"
    using run settled granted_claim [of sample_key claim]
    by (simp add: sample_route route_with_customer_idempotency_def)
  have "(out, sample_created) \<in> set log"
    using settle_claim_log [OF settled] by auto
  then have "filter (\<lambda>(out, s). reaches sample_protocol_x sample_kv out) log \<noteq> []"
    using out by (auto simp: filter_empty_conv)
  then have "1 \<le> length (filter (\<lambda>(out, s). reaches sample_protocol_x sample_kv out) log)"
    by (simp add: Suc_le_eq)
  with r show ?thesis
    using claimed_mutation_applied_once [OF sample_put_request r] by (auto simp: Let_def)
qed

theorem refused_request_sends_nothing_witness:
  "snd (route sample_protocol_x (logged (sample_protocol_env sample_created)) (Some sample_identity) PUT
     sample_kv sample_keyed [] (sample_table, (1, []))) \<noteq> (sample_table, (1, [])) \<and>
   authorize_route (Some sample_identity) PUT sample_kv = Inr ()"
proof (rule sample_created_run)
  fix claim st1 t2 log2 out
  assume run: "claim_customer_idempotency sample_protocol_x (logged (sample_protocol_env sample_created)) (Some sample_identity)
       sample_key (sample_table, (1, [])) = (Inr claim, st1)" "ic_claimed claim" "ic_fencing_token claim = Some 7"
    "route_without_customer_idempotency sample_protocol_x (logged (sample_protocol_env sample_created))
       (Some sample_identity) PUT sample_kv sample_keyed [] st1 =
       (\<lparr>resp_status = 201, resp_headers = [], resp_body = BodyBytes [2]\<rparr>, (t2, (1, log2 @ [(out, sample_created)])))"
  obtain resp t' w' log where settled: "settle_claim sample_protocol_x (logged (sample_protocol_env sample_created))
      (Some sample_identity) sample_key 7 \<lparr>resp_status = 201, resp_headers = [], resp_body = BodyBytes [2]\<rparr>
      (t2, (1, log2 @ [(out, sample_created)])) = (resp, (t', (w', log)))"
    by (metis surj_pair)
  have "log \<noteq> []" using settle_claim_log [OF settled] by auto
  then have "snd (route sample_protocol_x (logged (sample_protocol_env sample_created)) (Some sample_identity) PUT
     sample_kv sample_keyed [] (sample_table, (1, []))) \<noteq> (sample_table, (1, []))"
    using run settled granted_claim [of sample_key claim]
    by (simp add: sample_route route_with_customer_idempotency_def)
  with refused_request_sends_nothing [OF this] show ?thesis by simp
qed

text \<open>The first run is that of \<open>sample_created_run\<close>; for the retry the nodes report the duplicate.\<close>

lemma sample_duplicate_answer:
  "claim_answer sample_protocol_x \<lparr>resp_status = 200, resp_headers = [], resp_body = BodyBytes [4]\<rparr> =
     Inr \<lparr>ic_claimed = False, ic_duplicate = True, ic_fencing_token = None, ic_record = Some sample_record\<rparr>"
  by (simp add: claim_answer_def captured_from_response_def to_bytes_def max_capture_bytes_def
      is_success_def sample_protocol_x_def sample_output_def answer_output_def bool_field_def)

lemma sample_duplicate_run:
  "\<exists>st4. claim_customer_idempotency sample_protocol_x (logged (sample_protocol_env s)) (Some sample_identity)
     sample_key (sample_table, (4, [])) =
     (Inr \<lparr>ic_claimed = False, ic_duplicate = True, ic_fencing_token = None, ic_record = Some sample_record\<rparr>, st4)"
proof -
  have "outcome sample_protocol_x (sample_reply 4 s ''/v1/idempotency/claim'') =
      Served \<lparr>resp_status = 200, resp_headers = [], resp_body = BodyBytes [4]\<rparr>"
    by (simp add: outcome_def sample_reply_def read_reply_def response_headers_def
      is_event_stream_response_def header_get_def max_upstream_response_bytes_def
      classify_upstream_response_def header_value_def json_not_leader_def sample_protocol_x_def
      sample_externals_def)
  then show ?thesis
    using sample_exchange [of sample_table "''/v1/idempotency/claim''" "[]" POST 4 s _ json_headers "[]"] sample_print
    by (auto simp: sample_table_eq sample_paths_def method_is_replay_safe_def claim_customer_idempotency_def
        claim_uri_def sample_duplicate_answer)
qed

theorem retry_replays_first_response_witness:
  "\<exists>r2 st4. route_with_customer_idempotency sample_protocol_x (logged (sample_protocol_env sample_created))
      (Some sample_identity) PUT sample_kv sample_keyed [] sample_key (sample_table, (4, [])) = (r2, st4) \<and>
    resp_body r2 = resp_body (fst (route_with_customer_idempotency sample_protocol_x
      (logged (sample_protocol_env sample_created)) (Some sample_identity) PUT sample_kv sample_keyed [] sample_key
      (sample_table, (1, [])))) \<and>
    header_get (resp_headers r2) ''idempotent-replayed'' = Some ''true''"
proof (rule sample_created_run)
  fix claim st1 t2 log out
  assume run: "claim_customer_idempotency sample_protocol_x (logged (sample_protocol_env sample_created)) (Some sample_identity)
       sample_key (sample_table, (1, [])) = (Inr claim, st1)" "ic_claimed claim" "ic_fencing_token claim = Some 7"
    "route_without_customer_idempotency sample_protocol_x (logged (sample_protocol_env sample_created))
       (Some sample_identity) PUT sample_kv sample_keyed [] st1 =
       (\<lparr>resp_status = 201, resp_headers = [], resp_body = BodyBytes [2]\<rparr>, (t2, (1, log @ [(out, sample_created)])))"
  obtain st4 where dup: "claim_customer_idempotency sample_protocol_x (logged (sample_protocol_env sample_created))
      (Some sample_identity) sample_key (sample_table, (4, [])) =
      (Inr \<lparr>ic_claimed = False, ic_duplicate = True, ic_fencing_token = None, ic_record = Some sample_record\<rparr>, st4)"
    using sample_duplicate_run by blast
  have b: "to_bytes sample_protocol_x 8388608
      (resp_body \<lparr>resp_status = 201, resp_headers = [], resp_body = BodyBytes [2]\<rparr>) = Some [2]"
    by (simp add: to_bytes_def)
  show ?thesis
    using retry_replays_first_response [OF run b _ _ _ _ dup, of sample_record]
    by (simp del: split_paired_Ex add: sample_record_def claim_body_def complete_body_def sample_stored_def)
      (auto simp del: split_paired_Ex)
qed

end
