(* ===== verification/Leadership.thy ===== *)
theory Leadership
  imports Proxy
begin

text \<open>
  What \<^verbatim>\<open>forward_with_redirect\<close> of \<^verbatim>\<open>src/src/proxy.rs\<close> is for: a request reaches the leader of its
  shard although the load balancer's table is stale, some nodes are down and followers may not
  know the leader; and the table has learnt the leader afterwards. The cluster is described by
  what its nodes answer (\<open>led_by\<close>); nothing is assumed of how the nodes compute it.
\<close>

section \<open>A cluster with a leader\<close>

text \<open>
  While the request is forwarded, the members \<open>ns\<close> stay the members, and other tasks pick at
  most \<open>2 ^ 32\<close> nodes during one exchange. The leader serves the request, with an answer of which
  \<open>good\<close> holds. Any other member cannot be connected to or says that it is not the leader; unless
  it is in \<open>dumb\<close>, it says so with a hint that the table resolves to the leader.
\<close>

definition led_by :: "externals \<Rightarrow> 'w forward_env \<Rightarrow> forward_request \<Rightarrow> string list \<Rightarrow> string \<Rightarrow>
    string set \<Rightarrow> (response \<Rightarrow> bool) \<Rightarrow> bool" where
  "led_by x env r ns leader dumb good \<longleftrightarrow>
     (\<forall>node \<in> set ns. \<forall>t w u t' w'. rt_nodes t = ns \<longrightarrow>
        forward_once x env (r\<lparr>fr_target := node\<rparr>) (t, w) = (u, (t', w')) \<longrightarrow>
        rt_nodes t' = ns \<and> unat (rt_cursor t') \<le> unat (rt_cursor t) + 2 ^ 32 \<and>
        (if node = leader then \<exists>resp. u = Served resp \<and> good resp
         else surely_unapplied u \<and>
           (node \<notin> dumb \<longrightarrow> (\<exists>h. u = NotLeader (Some h) \<and>
              (\<forall>t. rt_nodes t = ns \<longrightarrow> validate_node_hint x h t = Some leader)))))"

lemma led_byD:
  assumes "led_by x env r ns leader dumb good" "rt_nodes t = ns" "fr_target r \<in> set ns"
    and "forward_once x env r (t, w) = (u, (t', w'))"
  shows "rt_nodes t' = ns" "unat (rt_cursor t') \<le> unat (rt_cursor t) + 2 ^ 32"
    "fr_target r = leader \<Longrightarrow> \<exists>resp. u = Served resp \<and> good resp"
    "fr_target r \<noteq> leader \<Longrightarrow> surely_unapplied u"
    "fr_target r \<noteq> leader \<Longrightarrow> fr_target r \<notin> dumb \<Longrightarrow> \<exists>h. u = NotLeader (Some h) \<and>
       (\<forall>t. rt_nodes t = ns \<longrightarrow> validate_node_hint x h t = Some leader)"
  using assms(1) [unfolded led_by_def, rule_format, of "fr_target r" t w u t' w'] assms(2-4) by auto

lemma led_by_target [simp]:
  "led_by x env (r\<lparr>fr_target := n\<rparr>) ns leader dumb good = led_by x env r ns leader dumb good"
  by (simp add: led_by_def)

section \<open>One hop\<close>

lemma region_request_frame [simp]:
  "rt_nodes (record_region_request u t) = rt_nodes t"
  "rt_leaders (record_region_request u t) = rt_leaders t"
  "rt_leader_hints (record_region_request u t) = rt_leader_hints t"
  "rt_shard_count (record_region_request u t) = rt_shard_count t"
  by (simp_all add: record_region_request_def Let_def)

text \<open>The cursor moves by at most one per node looked at.\<close>

lemma any_node_loop_cursor:
  "any_node_loop k e t = (r, t') \<Longrightarrow> unat (rt_cursor t) + k < 2 ^ 64 \<Longrightarrow>
   unat (rt_cursor t') \<le> unat (rt_cursor t) + k"
proof (induction k e t rule: any_node_loop.induct)
  case (2 k e t)
  then have "unat (rt_cursor t + 1) = unat (rt_cursor t) + 1" by (intro unat_cursor_succ) simp
  with 2 show ?case by (fastforce simp: Let_def split: if_splits)
qed simp

text \<open>While a member is left, the loop goes on to one, and the membership stays.\<close>

lemma try_other_next:
  assumes "try_other e t = (hp, t')" "rt_nodes t = ns" "\<not> set ns \<subseteq> e"
    and "unat (rt_cursor t) + length ns < 2 ^ 64"
  obtains target where "hp = Retry target" "target \<in> set ns - e" "rt_nodes t' = ns"
    "unat (rt_cursor t') \<le> unat (rt_cursor t) + length ns"
proof -
  obtain r where p: "any_node_excluding e t = (r, t')" "hp = hop_of r"
    using assms(1) by (auto simp: try_other_eq map_prod_def split: prod.splits)
  have "r \<noteq> None" "\<And>u. r = Some u \<Longrightarrow> u \<in> set ns - e"
    using any_node_excluding_spec [of t e] assms(2-4) p by auto
  then obtain target where r: "r = Some target" "target \<in> set ns - e" by blast
  have "rt_nodes t' = ns"
    by (subst any_node_excluding_frame(1) [OF p(1)]) (simp add: assms(2))
  moreover have "unat (rt_cursor t') \<le> unat (rt_cursor t) + length ns"
    using p(1) assms(2,4) any_node_loop_cursor [of "length ns" e t r t']
    by (auto simp: any_node_excluding_def split: if_splits)
  ultimately show ?thesis using that p(2) r by simp
qed

text \<open>A true hint: the leader is next, and it is the table's leader of the shard.\<close>

lemma after_hop_true_hint:
  assumes "validate_node_hint x h t = Some leader" "leader \<notin> e"
  shows "after_hop x now e shard m (NotLeader (Some h)) t = (Retry leader,
    case shard of None \<Rightarrow> t
    | Some s \<Rightarrow> t\<lparr>rt_leaders := hinsert s leader (rt_leaders t),
        rt_leader_hints := hinsert s now (rt_leader_hints t)\<rparr>)"
  using assms by (simp add: after_hop_def redirected_leader_target_def accept_leader_hint_eq split: option.split)

lemma accept_leader_hint_cursor:
  "rt_cursor (snd (accept_leader_hint x now s h t)) = rt_cursor t"
  by (simp add: accept_leader_hint_eq split: option.split)

text \<open>What the loop does after a member that surely did not apply the request: it goes on.\<close>

lemma after_hop_goes_on:
  assumes "after_hop x now e shard m u t = (hp, t')" "surely_unapplied u"
    and "rt_nodes t = ns" "\<not> set ns \<subseteq> e" "unat (rt_cursor t) + length ns < 2 ^ 64"
  obtains target where "hp = Retry target" "target \<in> set ns - e" "rt_nodes t' = ns"
    "unat (rt_cursor t') \<le> unat (rt_cursor t) + length ns"
proof (cases "\<exists>h. u = NotLeader (Some h)")
  case False
  then have "try_other e t = (hp, t')"
    using assms(1,2) by (auto simp: after_hop_def surely_unapplied_def split: upstream.splits option.splits)
  from try_other_next [OF this assms(3-5)] that show ?thesis by blast
next
  case True
  then obtain h where u: "u = NotLeader (Some h)" by blast
  obtain r t1 where h: "redirected_leader_target x now shard h t = (r, t1)" by fastforce
  have r: "\<And>n. r = Some n \<Longrightarrow> n \<in> set ns"
    using rs.hint_member [of x "(now, shard, h)" t] h assms(3) by simp
  have "t1 = snd (redirected_leader_target x now shard h t)" using h by simp
  then have t1: "rt_nodes t1 = ns" "rt_cursor t1 = rt_cursor t"
    using assms(3)
    by (auto simp: redirected_leader_target_def accept_leader_hint_nodes accept_leader_hint_cursor
        split: option.split)
  show ?thesis
  proof (cases "\<exists>n. r = Some n \<and> n \<notin> e")
    case True
    then obtain n where n: "r = Some n" "n \<notin> e" by blast
    then have "hp = Retry n" "t' = t1" using assms(1) h by (simp_all add: after_hop_def u)
    then show ?thesis using n r t1 by (intro that) simp_all
  next
    case False
    then have "try_other e t1 = (hp, t')"
      using assms(1) h by (auto simp: after_hop_def u split: option.splits)
    moreover have "unat (rt_cursor t1) + length ns < 2 ^ 64" using assms(5) t1(2) by simp
    ultimately obtain target where "hp = Retry target" "target \<in> set ns - e" "rt_nodes t' = ns"
      "unat (rt_cursor t') \<le> unat (rt_cursor t1) + length ns"
      using try_other_next [OF _ t1(1) assms(4)] by blast
    then show ?thesis using t1(2) by (intro that) simp_all
  qed
qed

section \<open>The leader is reached\<close>

text \<open>
  The hops that are enough: one if the request is at the leader; otherwise one for every member
  not tried, or one for every such member that does not name the leader, one for one that does,
  and one for the leader.
\<close>

definition hops_suffice :: "nat \<Rightarrow> string list \<Rightarrow> string \<Rightarrow> string set \<Rightarrow> string set \<Rightarrow> string \<Rightarrow> bool" where
  "hops_suffice n ns leader dumb att target \<longleftrightarrow>
     0 < n \<and> (target = leader \<or> card (set ns - att) \<le> n \<or> card (dumb - att) + 2 \<le> n)"

lemma hops_suffice_next:
  assumes "hops_suffice (Suc n) ns leader dumb att target" "target \<noteq> leader"
    and "target \<in> set ns - att" "leader \<in> set ns - att" "finite dumb"
    and "target \<in> dumb \<or> nxt = leader"
  shows "hops_suffice n ns leader dumb (insert target att) nxt"
proof -
  have "card {target, leader} \<le> card (set ns - att)"
    by (rule card_mono) (use assms(3,4) in auto)
  then have two: "2 \<le> card (set ns - att)" using assms(2) by simp
  have "card (set ns - insert target att) < card (set ns - att)"
    by (rule psubset_card_mono) (use assms(3) in auto)
  moreover have "card (dumb - insert target att) < card (dumb - att)" if "target \<in> dumb"
    by (rule psubset_card_mono) (use assms(3,5) that in auto)
  ultimately show ?thesis
    using assms(1,2,6) two by (auto simp: hops_suffice_def)
qed

lemma forward_hops_reaches:
  assumes "led_by x env r ns leader dumb good" "finite dumb" "length ns \<le> 2 ^ 32"
    and "rt_nodes t = ns" "fr_target r \<in> set ns - att" "leader \<in> set ns - att"
    and "hops_suffice n ns leader dumb att (fr_target r)" "unat (rt_cursor t) + n * 2 ^ 33 < 2 ^ 64"
  shows "good (fst (forward_hops n x env att r (t, w)))"
  using assms(1,4-8)
proof (induction n arbitrary: att r t w)
  case 0
  then show ?case by (simp add: hops_suffice_def)
next
  case (Suc n)
  let ?att = "insert (fr_target r) att" and ?t = "record_region_request (fr_target r) t"
  obtain u t1 w1 where once: "forward_once x env r (?t, w) = (u, (t1, w1))" by (metis prod.exhaust)
  have t: "rt_nodes ?t = ns" "rt_cursor ?t = rt_cursor t"
    using Suc.prems(2) by (simp_all add: record_region_request_def Let_def)
  note led = led_byD [OF Suc.prems(1) t(1) _ once]
  obtain hp t2 where hop: "after_hop x (fe_now env w1) ?att (fr_shard r) (fr_method r) u t1 = (hp, t2)"
    by fastforce
  show ?case
  proof (cases "fr_target r = leader")
    case True
    then obtain resp where "u = Served resp" "good resp" using led(3) Suc.prems(3) by auto
    then show ?thesis using once by (simp add: Let_def after_hop_def)
  next
    case False
    have unapplied: "surely_unapplied u" using led(4) False Suc.prems(3) by simp
    have left: "\<not> set ns \<subseteq> ?att" using False Suc.prems(4) by auto
    have cur: "unat (rt_cursor t1) \<le> unat (rt_cursor t) + 2 ^ 32" "rt_nodes t1 = ns"
      using led(1,2) t(2) Suc.prems(3) by simp_all
    then have room: "unat (rt_cursor t1) + length ns < 2 ^ 64"
      using Suc.prems(6) assms(3) by simp
    obtain target where nxt: "hp = Retry target" "target \<in> set ns - ?att" "rt_nodes t2 = ns"
      "unat (rt_cursor t2) \<le> unat (rt_cursor t1) + length ns"
      using after_hop_goes_on [OF hop unapplied cur(2) left room] by blast
    have "target = leader" if d: "fr_target r \<notin> dumb"
    proof -
      obtain h where "u = NotLeader (Some h)" "validate_node_hint x h t1 = Some leader"
        using led(5) [OF _ False d] Suc.prems(3) cur(2) by blast
      then show ?thesis
        using hop after_hop_true_hint [of x h t1 leader ?att] nxt(1) False Suc.prems(4) by auto
    qed
    then have "hops_suffice n ns leader dumb ?att target"
      using hops_suffice_next [OF Suc.prems(5) False Suc.prems(3,4) assms(2)] by blast
    moreover have "unat (rt_cursor t2) + n * 2 ^ 33 < 2 ^ 64"
      using nxt(4) cur(1) assms(3) Suc.prems(6) by simp
    ultimately have "good (fst (forward_hops n x env ?att (r\<lparr>fr_target := target\<rparr>) (t2, w1)))"
      using Suc.IH [of "r\<lparr>fr_target := target\<rparr>" t2 ?att w1] Suc.prems(1,4) nxt(2,3) False by simp
    then show ?thesis using once hop nxt(1) by (simp add: Let_def)
  qed
qed

section \<open>Redirects are learnt\<close>

text \<open>Exchanges during which no other task touches the table.\<close>

definition table_untouched :: "'w forward_env \<Rightarrow> bool" where
  "table_untouched env \<longleftrightarrow> (\<forall>out t w. fst (snd (fe_send env out (t, w))) = t)"

text \<open>One exchange with a member that answers, with the log.\<close>

lemma led_once_logged:
  assumes "led_by x env r ns leader dumb good" "table_untouched env" "rt_nodes t = ns" "fr_target r \<in> set ns"
    and "fr_target r = leader \<or> fr_target r \<notin> dumb"
  shows "\<exists>u w' e. forward_once x (logged env) r (t, (w, log)) = (u, (t, (w', log @ [e]))) \<and>
    or_node (fst e) = fr_target r \<and>
    (if fr_target r = leader then \<exists>resp. u = Served resp \<and> good resp
     else \<exists>h. u = NotLeader (Some h) \<and> validate_node_hint x h t = Some leader)"
proof -
  obtain u t' w' where once: "forward_once x env r (t, w) = (u, (t', w'))" by (metis prod.exhaust)
  note led = led_byD [OF assms(1,3,4) once]
  have u: "u \<notin> {NotSent, AmbiguousTransport}" using led(3,5) assms(5) by auto
  obtain e s where e: "forward_once x (logged env) r (t, (w, log)) = (u, (t', (w', log @ [e])))"
    "or_node (fst e) = fr_target r" "fe_send env (fst e) (t, w) = (s, (t', w'))"
    using forward_once_logged [OF once, of log] u by auto
  have "t' = t" using assms(2) e(3) unfolding table_untouched_def by (metis fst_conv snd_conv)
  have "if fr_target r = leader then \<exists>resp. u = Served resp \<and> good resp
     else \<exists>h. u = NotLeader (Some h) \<and> validate_node_hint x h t = Some leader"
    using led(3,5) assms(3,5) by auto
  with e(1,2) \<open>t' = t\<close> show ?thesis by blast
qed

lemma hops_at_leader:
  assumes "led_by x env r ns leader dumb good" "table_untouched env" "rt_nodes t = ns"
    and "fr_target r = leader" "leader \<in> set ns"
  shows "\<exists>resp w' e. forward_hops (Suc n) x (logged env) att r (t, (w, log)) =
      (resp, (record_region_request leader t, (w', log @ [e]))) \<and> good resp \<and> or_node (fst e) = leader"
proof -
  let ?t = "record_region_request leader t"
  have "rt_nodes ?t = ns" "fr_target r \<in> set ns" using assms(3-5) by simp_all
  then obtain u w' e where "forward_once x (logged env) r (?t, (w, log)) = (u, (?t, (w', log @ [e])))"
    "or_node (fst e) = leader" "\<exists>resp. u = Served resp \<and> good resp"
    using led_once_logged [OF assms(1,2), of ?t w log] assms(4) by (metis (full_types))
  moreover from this(3) obtain resp where "u = Served resp" "good resp" by blast
  ultimately show ?thesis
    using assms(4) by (intro exI [of _ resp] exI [of _ w'] exI [of _ e]) (simp add: Let_def after_hop_def)
qed

text \<open>The request at a member that names the leader: two exchanges, and the hint is in the table.\<close>

lemma redirected_once:
  assumes "led_by x env r ns leader dumb good" "table_untouched env" "rt_nodes t = ns"
    and "fr_target r \<in> set ns - {leader} - dumb" "leader \<in> set ns" "fr_shard r = Some s"
  obtains resp t' w' e e' now where
    "forward_with_redirect x (logged env) r (t, (w, log)) = (resp, (t', (w', log @ [e, e'])))"
    "good resp" "or_node (fst e) = fr_target r" "or_node (fst e') = leader"
    "rt_nodes t' = ns" "rt_shard_count t' = rt_shard_count t"
    "rt_leaders t' = hinsert s leader (rt_leaders t)"
    "rt_leader_hints t' = hinsert s now (rt_leader_hints t)"
proof -
  let ?t = "record_region_request (fr_target r) t"
  have old: "rt_nodes ?t = ns" "fr_target r \<in> set ns" "fr_target r = leader \<or> fr_target r \<notin> dumb"
    "fr_target r \<noteq> leader"
    using assms(3,4) by auto
  obtain u w1 e where e: "forward_once x (logged env) r (?t, (w, log)) = (u, (?t, (w1, log @ [e])))"
    "or_node (fst e) = fr_target r" "\<exists>h. u = NotLeader (Some h) \<and> validate_node_hint x h ?t = Some leader"
    using led_once_logged [OF assms(1,2) old(1-3), of w log, unfolded if_not_P [OF old(4)]] by blast
  then obtain h where h: "u = NotLeader (Some h)" "validate_node_hint x h ?t = Some leader" by blast
  let ?t1 = "?t\<lparr>rt_leaders := hinsert s leader (rt_leaders ?t),
    rt_leader_hints := hinsert s (fe_now env w1) (rt_leader_hints ?t)\<rparr>"
  have hop: "after_hop x (fe_now env w1) {fr_target r} (Some s) (fr_method r) u ?t = (Retry leader, ?t1)"
    unfolding h(1) using after_hop_true_hint [OF h(2), of "{fr_target r}"] old(4) by auto
  obtain resp w' e' where at: "forward_hops (Suc 2) x (logged env) {fr_target r} (r\<lparr>fr_target := leader\<rparr>)
      (?t1, (w1, log @ [e])) = (resp, (record_region_request leader ?t1, (w', (log @ [e]) @ [e'])))"
    "good resp" "or_node (fst e') = leader"
    using hops_at_leader [of x env "r\<lparr>fr_target := leader\<rparr>" ns leader dumb good ?t1 2 "{fr_target r}" w1 "log @ [e]"]
      assms(1-3,5) by auto
  have "forward_with_redirect x (logged env) r (t, (w, log)) =
      (resp, (record_region_request leader ?t1, (w', log @ [e, e'])))"
    using e(1) hop at(1) assms(6)
    by (simp add: forward_with_redirect_def max_hops_def eval_nat_numeral Let_def)
  then show ?thesis
    by (rule that) (use at(2,3) e(2) assms(3) in simp_all)
qed

section \<open>Properties\<close>

text \<open>
  C3: a request finds its leader. Wherever the table sends it first, if there are at most four
  members, or at most two of the members are down or cannot name the leader, then the request is
  answered by the leader: it never ends in \<^verbatim>\<open>no_leader\<close> or in an ambiguous result. (The bound is
  the code's \<^verbatim>\<open>MAX_HOPS\<close>; the round-robin cursor is assumed to be far from its wrap-around.)
\<close>

theorem leader_is_reached:
  assumes "led_by x env r ns leader dumb good" "dumb \<subseteq> set ns" "length ns \<le> 2 ^ 32"
    and "length ns \<le> 4 \<or> card dumb \<le> 2"
    and "rt_nodes t = ns" "fr_target r \<in> set ns" "leader \<in> set ns" "unat (rt_cursor t) < 2 ^ 63"
  shows "good (fst (forward_with_redirect x env r (t, w)))"
proof -
  have "finite dumb" using assms(2) finite_subset by blast
  moreover have "hops_suffice max_hops ns leader dumb {} (fr_target r)"
    using assms(4) card_length [of ns] by (auto simp: hops_suffice_def max_hops_def)
  ultimately show ?thesis
    unfolding forward_with_redirect_def
    by (intro forward_hops_reaches [OF assms(1)]) (use assms(3,5-8) in \<open>simp_all add: max_hops_def\<close>)
qed

text \<open>
  C4: a leader change is one redirect. If the table routes a request to a former leader that
  names the new one, the request costs two exchanges, the former leader's and the leader's; the
  next request for the shard goes to the leader at once; and a snapshot of the control plane that
  was asked for before the redirect does not undo it, while the leader is a member.
\<close>

theorem leader_change_is_one_redirect:
  assumes "choose_target x identity u body t = ((Some s, Some old), t)" "table_inv x t" "table_untouched env"
    and "led_by x env \<lparr>fr_identity = identity, fr_target = old, fr_shard = Some s, fr_method = m,
        fr_uri = u, fr_headers = h, fr_body = body\<rparr> (rt_nodes t) leader dumb good"
    and "old \<noteq> leader" "old \<notin> dumb" "leader \<in> set (rt_nodes t)"
  shows "let (resp, (t1, (w1, log1))) =
        route_without_customer_idempotency x (logged env) identity m u h body (t, (w, []));
      (resp', (t2, (w2, log2))) =
        route_without_customer_idempotency x (logged env) identity m u h body (t1, (w1, []))
    in good resp \<and> map (or_node \<circ> fst) log1 = [old, leader] \<and>
       good resp' \<and> map (or_node \<circ> fst) log2 = [leader] \<and>
       (\<exists>now. hget (rt_leader_hints t1) s = Some now \<and>
         (\<forall>ns shards fetched_at. snapshot_ok x (rt_shard_count t) ns shards \<longrightarrow> fetched_at \<le> now \<longrightarrow>
            leader \<in> snd ` set (members x ns) \<longrightarrow>
            leader_for (snd (apply_brain_snapshot_at x ns shards fetched_at t1)) s = Some leader))"
proof -
  let ?r = "\<lparr>fr_identity = identity, fr_target = old, fr_shard = Some s, fr_method = m,
    fr_uri = u, fr_headers = h, fr_body = body\<rparr>"
  let ?route = "route_without_customer_idempotency x (logged env) identity m u h body"
  obtain key where key: "routing_key_with_body x u body (map_option vi_org_id identity) = Some key"
    "s = x_shard_for x key (rt_shard_count t)" "leader_for t s = Some old"
    using assms(1) by (auto simp: choose_target_def Let_def split: option.splits prod.splits)
  then have old: "fr_target ?r \<in> set (rt_nodes t) - {leader} - dumb"
    using assms(2,5,6) by (auto simp: table_inv_def)
  obtain resp t1 w1 e e' now where run: "forward_with_redirect x (logged env) ?r (t, (w, [])) =
      (resp, (t1, (w1, [e, e'])))" "good resp" "or_node (fst e) = old" "or_node (fst e') = leader"
    and t1: "rt_nodes t1 = rt_nodes t" "rt_shard_count t1 = rt_shard_count t"
      "rt_leaders t1 = hinsert s leader (rt_leaders t)" "rt_leader_hints t1 = hinsert s now (rt_leader_hints t)"
    by (rule redirected_once [OF assms(4,3) refl old assms(7), of s w "[]"], simp, rule that) simp_all
  have lead: "leader_for t1 s = Some leader" "hget (rt_leader_hints t1) s = Some now"
    by (simp_all add: leader_for_def t1 hmap_simps)
  have again: "choose_target x identity u body t1 = ((Some s, Some leader), t1)"
    using key(1,2) lead by (simp add: choose_target_def t1)
  have led: "led_by x env (?r\<lparr>fr_target := leader\<rparr>) (rt_nodes t) leader dumb good"
    using assms(4) by (simp only: led_by_target)
  have four: "max_hops = Suc 3" by (simp add: max_hops_def)
  obtain resp' w2 e2 where run': "forward_with_redirect x (logged env) (?r\<lparr>fr_target := leader\<rparr>) (t1, (w1, [])) =
      (resp', (record_region_request leader t1, (w2, [e2])))" "good resp'" "or_node (fst e2) = leader"
    using hops_at_leader [OF led assms(3) t1(1) _ assms(7), of 3 "{}" w1 "[]"]
    by (auto simp: forward_with_redirect_def four simp del: forward_hops.simps)
  have "leader_for (snd (apply_brain_snapshot_at x ns shards fetched_at t1)) s = Some leader"
    if "snapshot_ok x (rt_shard_count t) ns shards" "fetched_at \<le> now" "leader \<in> snd ` set (members x ns)"
    for ns shards fetched_at
  proof -
    have "hinvar (rt_leader_hints t1)" using assms(2) by (simp add: t1 hmap_simps table_inv_def)
    then show ?thesis
      using apply_accepted(9) [of x t1 ns shards fetched_at _ _ s] that lead t1(2)
      by (metis (no_types, lifting) prod.collapse)
  qed
  then show ?thesis
    using run run' again assms(1) lead
    by (auto simp: route_without_customer_idempotency_def Let_def)
qed

section \<open>Witnesses\<close>

text \<open>
  Two nodes. The table has \<open>http://b\<close> as the leader of shard 1, which since became
  \<open>http://a:1\<close>; \<open>http://b\<close> says so.
\<close>

definition sample_led_env :: "unit forward_env" where
  "sample_led_env =
     \<lparr>fe_secret = None,
      fe_send = (\<lambda>out st. (if or_node out = ''http://b''
         then Replied \<lparr>ur_status = 421, ur_headers = [(''x-fiducia-leader'', ''http://a:1/'')], ur_chunks = []\<rparr>
         else Replied \<lparr>ur_status = 200, ur_headers = [], ur_chunks = [Some [1]]\<rparr>, st)),
      fe_now = (\<lambda>_. 7)\<rparr>"

definition sample_led_request :: forward_request where
  "sample_led_request =
     \<lparr>fr_identity = None, fr_target = ''http://b'', fr_shard = Some 1, fr_method = POST,
      fr_uri = origin_uri ''/v1/locks'' None, fr_headers = [], fr_body = []\<rparr>"

lemma sample_led_once:
  "forward_once sample_externals sample_led_env (sample_led_request\<lparr>fr_target := ''http://b''\<rparr>) (t, w) =
     (NotLeader (Some ''http://a:1/''), (t, w))"
  "forward_once sample_externals sample_led_env (sample_led_request\<lparr>fr_target := ''http://a:1''\<rparr>) (t, w) =
     (Served \<lparr>resp_status = 200, resp_headers = [], resp_body = BodyBytes [1]\<rparr>, (t, w))"
  by (simp_all add: forward_once_def upstream_url_def sample_led_request_def sample_externals_def
      sample_url_parse_def sample_url_def starts_with_def uri_path_and_query_def origin_uri_def
      trim_end_matches_def uri_path_def identity_headers_def secret_headers_def
      header_value_ok_def sample_led_env_def
      out_request_for_def read_reply_def response_headers_def is_hop_by_hop_def to_ascii_lowercase_def
      header_insert_def is_event_stream_response_def is_success_def classify_upstream_response_def
      header_value_def header_get_def header_to_str_def eq_ignore_ascii_case_def json_not_leader_def
      max_upstream_response_bytes_def)

lemma sample_led_hint:
  "rt_nodes t = [''http://a:1'', ''http://b''] \<Longrightarrow>
   validate_node_hint sample_externals ''http://a:1/'' t = Some ''http://a:1''"
proof -
  have "normalize_node_url sample_externals ''http://a:1/'' = Some ''http://a:1''"
    "normalize_node_url sample_externals ''http://a:1'' = Some ''http://a:1''"
    by code_simp+
  then show "rt_nodes t = [''http://a:1'', ''http://b''] \<Longrightarrow> ?thesis"
    by (simp add: validate_node_hint_def known_node_def)
qed

lemma sample_led:
  "led_by sample_externals sample_led_env sample_led_request [''http://a:1'', ''http://b''] ''http://a:1'' {}
     (\<lambda>resp. resp_status resp = 200)"
  by (auto simp: led_by_def sample_led_once surely_unapplied_def sample_led_hint)

theorem leader_is_reached_witness:
  "fr_target sample_led_request \<noteq> ''http://a:1'' \<and>
   resp_status (fst (forward_with_redirect sample_externals sample_led_env sample_led_request (sample_table, ()))) = 200"
  using leader_is_reached [OF sample_led, of sample_table "()"]
  by (simp add: sample_table_eq sample_led_request_def)

theorem leader_change_is_one_redirect_witness:
  "let (resp, (t1, (w1, log1))) = route_without_customer_idempotency sample_externals (logged sample_led_env)
        None POST (origin_uri ''/v1/locks'' None) [] [] (sample_table, ((), []));
      (resp', (t2, (w2, log2))) = route_without_customer_idempotency sample_externals (logged sample_led_env)
        None POST (origin_uri ''/v1/locks'' None) [] [] (t1, (w1, []))
    in map (or_node \<circ> fst) log1 = [''http://b'', ''http://a:1''] \<and> map (or_node \<circ> fst) log2 = [''http://a:1'']"
proof -
  have "routing_key sample_externals (origin_uri ''/v1/locks'' None) org = Some ''lock-coordination''" for org
    by (simp add: routing_key_def path_segs_origin segs_start_def sample_externals_def)
  then have c: "choose_target sample_externals None (origin_uri ''/v1/locks'' None) [] sample_table =
      ((Some 1, Some ''http://b''), sample_table)"
    by (simp add: choose_target_def routing_key_with_body_def sample_table_eq leader_for_def sample_externals_def)
  have inv: "table_inv sample_externals sample_table"
    using sample_table_reachable by (rule tbl.reachable_inv)
  have quiet: "table_untouched sample_led_env" by (simp add: table_untouched_def sample_led_env_def)
  from leader_change_is_one_redirect [OF c inv quiet, of POST "[]" "''http://a:1''" "{}" "\<lambda>resp. resp_status resp = 200" "()"]
    sample_led
  show ?thesis by (auto simp: sample_led_request_def sample_table_eq split: prod.splits)
qed

end
