(* ===== verification/Cluster.thy ===== *)
theory Cluster
  imports Json Proxy "HOL-Library.Monad_Syntax"
begin

text \<open>
  The test cluster of \<^verbatim>\<open>src/src/proxy.rs\<close> (module \<^verbatim>\<open>tests\<close>): \<open>fake_node\<close>, the repository's own
  reference for the node's half of the idempotency protocol, and the load balancer run against
  it. A handler that panics answers nothing, so the connection breaks off (\<open>SendFailed\<close>).

  The specification at the end, \<open>keyed_call\<close>, says what a client of a keyed request sees: the
  first final response is kept and replayed, and until there is one, every call runs the mutation.
\<close>

section \<open>The node\<close>

record fake_record =
  fk_key :: string
  fk_owner :: string
  fk_fencing_token :: u64
  fk_status :: string
  fk_metadata :: "(string, string) hmap"
  fk_result :: "json option"

record fake_node =
  fn_records :: "(string, fake_record) hmap"
  fn_mutations :: "header_map list"
  fn_mutation_statuses :: "16 word list"
  fn_abandons :: "string list"

definition fake_node_default :: fake_node where
  "fake_node_default =
     \<lparr>fn_records = [], fn_mutations = [], fn_mutation_statuses = [], fn_abandons = []\<rparr>"

definition mutation_count :: "fake_node \<Rightarrow> nat" where
  "mutation_count s = length (fn_mutations s)"

definition abandon_count :: "fake_node \<Rightarrow> nat" where
  "abandon_count s = length (fn_abandons s)"

definition last_mutation_headers :: "fake_node \<Rightarrow> header_map" where
  "last_mutation_headers s = (case rev (fn_mutations s) of h # _ \<Rightarrow> h | [] \<Rightarrow> [])"

definition queue_mutation_status :: "nat \<Rightarrow> fake_node \<Rightarrow> fake_node" where
  "queue_mutation_status st s =
     s\<lparr>fn_mutation_statuses := fn_mutation_statuses s @ [of_nat st]\<rparr>"

definition record_json :: "fake_record \<Rightarrow> json" where
  "record_json r = JObject
     [(''key'', JString (fk_key r)), (''owner'', JString (fk_owner r)),
      (''fencing_token'', JUint (fk_fencing_token r)), (''status'', JString (fk_status r)),
      (''first_seen_ms'', JUint 1), (''lease_expires_ms'', JUint 2),
      (''metadata'', JObject (map (\<lambda>(k, v). (k, JString v)) (fk_metadata r))),
      (''result'', case fk_result r of Some v \<Rightarrow> v | None \<Rightarrow> JNull)]"

definition committed_json :: "json \<Rightarrow> json" where
  "committed_json output = JObject
     [(''committed'', JBool True),
      (''result'', JObject [(''shard'', JUint 0), (''log_index'', JUint 1), (''revision'', JUint 1),
         (''output'', output)])]"

definition committed_output :: "json \<Rightarrow> response" where
  "committed_output output = json_response 200 (committed_json output)"

definition abandon_output :: "string option \<Rightarrow> string \<Rightarrow> json" where
  "abandon_output reason key = JObject
     ((case reason of None \<Rightarrow> [(''abandoned'', JBool True)]
       | Some r \<Rightarrow> [(''abandoned'', JBool False), (''reason'', JString r)]) @
      [(''key'', JString key), (''revision'', JUint 3)])"

definition fake_abandon :: "externals \<Rightarrow> bytes \<Rightarrow> fake_node \<Rightarrow> (response \<times> fake_node) option" where
  "fake_abandon x body s = do {
     value \<leftarrow> x_json_parse x body;
     key \<leftarrow> Option.bind (jget ''key'' value) as_str;
     token \<leftarrow> Option.bind (jget ''fencing_token'' value) as_u64;
     Some (case hget (fn_records s) key of
         Some r \<Rightarrow>
           if fk_fencing_token r = token \<and> fk_status r \<noteq> ''completed''
           then (committed_output (abandon_output None key),
             s\<lparr>fn_records := hremove key (fn_records s), fn_abandons := fn_abandons s @ [key]\<rparr>)
           else (committed_output (abandon_output (Some ''not_holder'') key), s)
       | None \<Rightarrow> (committed_output (abandon_output (Some ''not_found'') key), s))
   }"

text \<open>\<^verbatim>\<open>headers.get("content-type")\<close> must be \<^verbatim>\<open>application/json\<close>, or the handler panics.\<close>

definition assert_json :: "header_map \<Rightarrow> unit option" where
  "assert_json h =
     (if Option.bind (header_get h ''content-type'') header_to_str = Some ''application/json''
      then Some () else None)"

fun string_fields :: "json \<Rightarrow> (string, string) hmap option" where
  "string_fields (JObject fs) =
     Some (foldl (\<lambda>m (k, v). case as_str v of Some t \<Rightarrow> hinsert k t m | None \<Rightarrow> m) [] fs)"
| "string_fields _ = None"

definition duplicate_output :: "string \<Rightarrow> fake_record \<Rightarrow> json" where
  "duplicate_output key r = JObject
     [(''claimed'', JBool False), (''duplicate'', JBool True), (''key'', JString key),
      (''record'', record_json r), (''revision'', JUint 2)]"

definition claimed_output :: "string \<Rightarrow> fake_record \<Rightarrow> json" where
  "claimed_output key r = JObject
     [(''claimed'', JBool True), (''duplicate'', JBool False), (''key'', JString key),
      (''fencing_token'', JUint 99), (''record'', record_json r), (''revision'', JUint 1)]"

definition fake_claim :: "externals \<Rightarrow> header_map \<Rightarrow> bytes \<Rightarrow> fake_node \<Rightarrow> (response \<times> fake_node) option" where
  "fake_claim x h body s = do {
     assert_json h;
     value \<leftarrow> x_json_parse x body;
     key \<leftarrow> Option.bind (jget ''key'' value) as_str;
     owner \<leftarrow> Option.bind (jget ''owner'' value) as_str;
     metadata \<leftarrow> Option.bind (jget ''metadata'' value) string_fields;
     Some (case hget (fn_records s) key of
         Some r \<Rightarrow> (committed_output (duplicate_output key r), s)
       | None \<Rightarrow>
           (let r = \<lparr>fk_key = key, fk_owner = owner, fk_fencing_token = 99, fk_status = ''claimed'',
              fk_metadata = metadata, fk_result = None\<rparr>
            in (committed_output (claimed_output key r),
                s\<lparr>fn_records := hinsert key r (fn_records s)\<rparr>)))
   }"

definition rejected_output :: "string \<Rightarrow> string \<Rightarrow> json" where
  "rejected_output reason key = JObject
     [(''completed'', JBool False), (''reason'', JString reason), (''key'', JString key),
      (''revision'', JUint 3)]"

definition completed_output :: "string \<Rightarrow> fake_record \<Rightarrow> json" where
  "completed_output key r = JObject
     [(''completed'', JBool True), (''duplicate'', JBool False), (''key'', JString key),
      (''record'', record_json r), (''revision'', JUint 3)]"

definition fake_complete :: "externals \<Rightarrow> header_map \<Rightarrow> bytes \<Rightarrow> fake_node \<Rightarrow> (response \<times> fake_node) option" where
  "fake_complete x h body s = do {
     assert_json h;
     value \<leftarrow> x_json_parse x body;
     key \<leftarrow> Option.bind (jget ''key'' value) as_str;
     owner \<leftarrow> Option.bind (jget ''owner'' value) as_str;
     token \<leftarrow> Option.bind (jget ''fencing_token'' value) as_u64;
     let result = jget ''result'' value;
     Some (case hget (fn_records s) key of
         None \<Rightarrow> (committed_output (rejected_output ''not_found'' key), s)
       | Some r \<Rightarrow>
           if fk_owner r \<noteq> owner \<or> fk_fencing_token r \<noteq> token
           then (committed_output (rejected_output ''not_holder'' key), s)
           else (let r = r\<lparr>fk_status := ''completed'', fk_result := result\<rparr>
                 in (committed_output (completed_output key r),
                     s\<lparr>fn_records := hinsert key r (fn_records s)\<rparr>)))
   }"

definition mutation_json :: "http_method \<Rightarrow> uri \<Rightarrow> nat \<Rightarrow> nat \<Rightarrow> json" where
  "mutation_json m u status n = JObject
     [(''ok'', JBool (is_success status)), (''method'', JString (method_str m)),
      (''target'', JString (request_target u)), (''mutation_count'', JUint (of_nat n))]"

text \<open>The scripted status of the next mutation: 200 when there is none, or none valid.\<close>

definition next_status :: "16 word list \<Rightarrow> nat" where
  "next_status q = (case q of [] \<Rightarrow> 200
     | code # _ \<Rightarrow> (case status_from_u16 code of Some st \<Rightarrow> st | None \<Rightarrow> 200))"

definition fake_mutation :: "http_method \<Rightarrow> uri \<Rightarrow> header_map \<Rightarrow> fake_node \<Rightarrow> response \<times> fake_node" where
  "fake_mutation m u h s =
     (let mutations = fn_mutations s @ [h] in
      (let status = next_status (fn_mutation_statuses s)
       in json_response status (mutation_json m u status (length mutations)),
       s\<lparr>fn_mutations := mutations, fn_mutation_statuses := tl (fn_mutation_statuses s)\<rparr>))"

definition fake_node_handler :: "externals \<Rightarrow> http_method \<Rightarrow> uri \<Rightarrow> header_map \<Rightarrow> bytes \<Rightarrow> fake_node \<Rightarrow>
    (response \<times> fake_node) option" where
  "fake_node_handler x m u h body s =
     (if m = POST \<and> uri_path u = ''/v1/idempotency/claim'' then fake_claim x h body s
      else if m = POST \<and> uri_path u = ''/v1/idempotency/complete'' then fake_complete x h body s
      else if m = POST \<and> uri_path u = ''/v1/idempotency/abandon'' then fake_abandon x body s
      else Some (fake_mutation m u h s))"

text \<open>
  The cluster as the load balancer meets it: a request reaches the handler with the path and
  query of its URL, and the answer comes back as one chunk.
\<close>

definition wire_reply :: "externals \<Rightarrow> response \<Rightarrow> upstream_reply" where
  "wire_reply x r =
     \<lparr>ur_status = resp_status r, ur_headers = resp_headers r,
      ur_chunks = (case resp_body r of BodyBytes b \<Rightarrow> [Some b] | BodyJson j \<Rightarrow> [Some (x_json_print x j)]
        | BodyStream cs \<Rightarrow> cs)\<rparr>"

definition cluster_env :: "externals \<Rightarrow> string option \<Rightarrow> fake_node forward_env" where
  "cluster_env x secret =
     \<lparr>fe_secret = secret,
      fe_send = (\<lambda>out (t, s).
        case x_url_parse x (or_url out) of None \<Rightarrow> (SendFailed, (t, s))
        | Some p \<Rightarrow>
            (case fake_node_handler x (or_method out) (origin_uri (url_path p) (url_query p))
                (or_headers out) (or_body out) s of
               None \<Rightarrow> (SendFailed, (t, s))
             | Some (r, s) \<Rightarrow> (Replied (wire_reply x r), (t, s)))),
      fe_now = (\<lambda>_. 0)\<rparr>"

definition fake_cluster :: "externals \<Rightarrow> string \<Rightarrow> route_table \<times> fake_node" where
  "fake_cluster x addr = (table_new x 4 [''http://'' @ addr], fake_node_default)"

section \<open>One exchange with the cluster\<close>

text \<open>
  What the runs below rely on: the JSON library's law; a \<^verbatim>\<open>ProposeError\<close> has a field \<open>reason\<close>; the
  table has a leader for every key and every member's URL can be formed; the verified headers can
  be sent. \<open>same_routes\<close> is what an exchange leaves of the table.
\<close>

definition propose_laws :: "externals \<Rightarrow> bool" where
  "propose_laws x \<longleftrightarrow>
     (\<forall>fs. jget ''reason'' (JObject fs) = None \<longrightarrow> x_propose_error x (JObject fs) = None)"

definition routable :: "externals \<Rightarrow> route_table \<Rightarrow> bool" where
  "routable x t \<longleftrightarrow> rt_nodes t \<noteq> [] \<and>
     (\<forall>key. \<exists>node \<in> set (rt_nodes t). leader_for t (x_shard_for x key (rt_shard_count t)) = Some node)"

definition reachable_at :: "externals \<Rightarrow> uri \<Rightarrow> string \<Rightarrow> bool" where
  "reachable_at x u node \<longleftrightarrow>
     (\<exists>url p. upstream_url x node u = Some url \<and> x_url_parse x url = Some p \<and> url_query p = uri_query u)"

definition cluster_ok :: "externals \<Rightarrow> string option \<Rightarrow> verified_identity option \<Rightarrow> uri \<Rightarrow> route_table \<Rightarrow> bool" where
  "cluster_ok x secret identity u t \<longleftrightarrow>
     serde_laws x \<and> propose_laws x \<and> routable x t \<and>
     (\<forall>v \<in> {u, claim_uri, complete_uri, abandon_uri}. \<forall>node \<in> set (rt_nodes t). reachable_at x v node) \<and>
     list_all (\<lambda>(_, v). header_value_ok v) (identity_headers identity @ secret_headers secret)"

definition same_routes :: "route_table \<Rightarrow> route_table \<Rightarrow> bool" where
  "same_routes t t' \<longleftrightarrow>
     rt_nodes t' = rt_nodes t \<and> rt_leaders t' = rt_leaders t \<and> rt_shard_count t' = rt_shard_count t"

lemma same_routes_refl [simp]: "same_routes t t"
  by (simp add: same_routes_def)

lemma same_routes_trans [trans]: "same_routes t t1 \<Longrightarrow> same_routes t1 t2 \<Longrightarrow> same_routes t t2"
  by (simp add: same_routes_def)

lemma cluster_ok_same_routes:
  "cluster_ok x secret identity u t \<Longrightarrow> same_routes t t' \<Longrightarrow> cluster_ok x secret identity u t'"
  by (simp add: cluster_ok_def same_routes_def routable_def leader_for_def)

definition wire_headers :: "string option \<Rightarrow> verified_identity option \<Rightarrow> header_map \<Rightarrow> header_map" where
  "wire_headers secret identity h = client_headers h @ identity_headers identity @ secret_headers secret"

text \<open>
  An answer that the load balancer passes on and reads: not a redirect, an object, within the
  load balancer's limit of 8 MiB and the JSON library's limit of nesting.
\<close>

definition fits :: "externals \<Rightarrow> json \<Rightarrow> bool" where
  "fits x j \<longleftrightarrow> length (x_json_print x j) \<le> 8388608 \<and> json_depth j \<le> 127"

definition plain_answer :: "externals \<Rightarrow> nat \<Rightarrow> json \<Rightarrow> bool" where
  "plain_answer x st j \<longleftrightarrow> st \<noteq> 307 \<and> st \<noteq> 421 \<and> json_text j \<and> fits x j \<and>
     (\<exists>fs. j = JObject fs \<and> map_of fs ''error'' = None \<and> map_of fs ''reason'' = None)"

definition served :: "externals \<Rightarrow> nat \<Rightarrow> json \<Rightarrow> response" where
  "served x st j = \<lparr>resp_status = st, resp_headers = [(''content-type'', ''application/json'')],
     resp_body = BodyBytes (x_json_print x j)\<rparr>"

lemma outcome_plain_answer:
  assumes "serde_laws x" "propose_laws x" "plain_answer x st j"
  shows "outcome x (Replied (wire_reply x (json_response st j))) = Served (served x st j)"
proof -
  obtain fs where j: "j = JObject fs" "map_of fs ''error'' = None" "map_of fs ''reason'' = None"
    and st: "st \<noteq> 307" "st \<noteq> 421" "length (x_json_print x j) \<le> 8388608" "json_text j" "json_depth j \<le> 127"
    using assms(3) by (auto simp: plain_answer_def fits_def)
  obtain gs where gs: "json_canon j = JObject gs" by (simp add: j(1))
  have "x_json_parse x (x_json_print x j) = Some (JObject gs)"
    using assms(1) st(4,5) by (simp add: serde_laws_def gs)
  moreover have "jget ''error'' (JObject gs) = None" "jget ''reason'' (JObject gs) = None"
    using jget_canon [of "''error''" j] jget_canon [of "''reason''" j] unfolding gs
    by (simp_all add: j)
  ultimately have "json_not_leader x (x_json_print x j) = None"
    using assms(2) by (simp add: json_not_leader_def propose_laws_def)
  moreover have "response_headers [(''content-type'', ''application/json'')] = [(''content-type'', ''application/json'')]"
    by (simp add: response_headers_def is_hop_by_hop_def to_ascii_lowercase_def header_insert_def)
  moreover have "\<not> is_event_stream_response st [(''content-type'', ''application/json'')]"
    by (simp add: is_event_stream_response_def header_get_def header_to_str_def trim_def str_simps
        is_whitespace_def eq_ignore_ascii_case_def to_ascii_lowercase_def)
  ultimately show ?thesis
    using st(1-3)
    by (simp add: outcome_def wire_reply_def json_response_def read_reply_def served_def
        classify_upstream_response_def header_value_def header_get_def max_upstream_response_bytes_def)
qed

lemma choose_routable:
  assumes "routable x t"
  obtains node shard t' where "choose_target x identity u body t = ((shard, Some node), t')"
    "node \<in> set (rt_nodes t)" "same_routes t t'"
proof (cases "routing_key_with_body x u body (map_option vi_org_id identity)")
  case None
  have nodes: "rt_nodes t \<noteq> []" using assms by (simp add: routable_def)
  then have "rt_nodes t ! (unat (rt_cursor t) mod length (rt_nodes t)) \<in> set (rt_nodes t)" by simp
  with None nodes show ?thesis
    by (intro that [of None "rt_nodes t ! (unat (rt_cursor t) mod length (rt_nodes t))" "t\<lparr>rt_cursor := rt_cursor t + 1\<rparr>"])
      (simp_all add: choose_target_def any_node_pick same_routes_def)
next
  case (Some key)
  moreover obtain node where "node \<in> set (rt_nodes t)"
    "leader_for t (x_shard_for x key (rt_shard_count t)) = Some node"
    using assms unfolding routable_def by blast
  ultimately show ?thesis
    using that by (simp add: choose_target_def Let_def)
qed

lemma cluster_reaches:
  assumes "cluster_ok x secret identity u t" "v \<in> {u, claim_uri, complete_uri, abandon_uri}"
    and "fake_node_handler x m (origin_uri (uri_path v) (uri_query v)) (wire_headers secret identity h) body s =
      Some (r, s')"
  obtains node shard t1 url p where "choose_target x identity v body t = ((shard, Some node), t1)"
    "same_routes t (record_region_request node t1)" "upstream_url x node v = Some url"
    "x_url_parse x url = Some p" "url_path p = uri_path v"
    "\<And>t2 r'. r' = \<lparr>fr_identity = identity, fr_target = node, fr_shard = shard, fr_method = m, fr_uri = v,
        fr_headers = h, fr_body = body\<rparr> \<Longrightarrow>
      fe_send (cluster_env x secret) (out_request_for (cluster_env x secret) url r') (t2, s) =
        (Replied (wire_reply x r), (t2, s'))"
proof -
  have routable: "routable x t" and reach: "\<And>node. node \<in> set (rt_nodes t) \<Longrightarrow> reachable_at x v node"
    using assms(1,2) unfolding cluster_ok_def by blast+
  obtain node shard t1 where c: "choose_target x identity v body t = ((shard, Some node), t1)"
    "node \<in> set (rt_nodes t)" "same_routes t t1"
    by (rule choose_routable [OF routable])
  obtain url p where url: "upstream_url x node v = Some url" "x_url_parse x url = Some p" "url_query p = uri_query v"
    using reach [OF c(2)] unfolding reachable_at_def by blast
  have path: "url_path p = uri_path v"
    using url(1,2) by (auto simp: upstream_url_def Let_def split: if_splits option.splits)
  have "same_routes t1 (record_region_request node t1)"
    by (simp add: same_routes_def record_region_request_def Let_def)
  then show ?thesis
    using assms(3) url path same_routes_trans [OF c(3)]
    by (intro that [OF c(1) _ url(1,2) path]) (auto simp: cluster_env_def out_request_for_def wire_headers_def)
qed

lemma cluster_exchange:
  assumes "cluster_ok x secret identity u t" "v \<in> {u, claim_uri, complete_uri, abandon_uri}"
    and "fake_node_handler x m (origin_uri (uri_path v) (uri_query v)) (wire_headers secret identity h) body s =
      Some (json_response st j, s')"
    and "plain_answer x st j"
  obtains t' where "route_without_customer_idempotency x (cluster_env x secret) identity m v h body (t, s) =
      (served x st j, (t', s'))" "same_routes t t'"
proof -
  have laws: "serde_laws x" "propose_laws x"
    and sendable: "list_all (\<lambda>(_, v). header_value_ok v) (identity_headers identity @ secret_headers secret)"
    using assms(1) unfolding cluster_ok_def by blast+
  obtain node shard t1 url p where c: "choose_target x identity v body t = ((shard, Some node), t1)"
    "same_routes t (record_region_request node t1)" "upstream_url x node v = Some url"
    "x_url_parse x url = Some p"
    and send: "\<And>t2 r'. r' = \<lparr>fr_identity = identity, fr_target = node, fr_shard = shard, fr_method = m, fr_uri = v,
        fr_headers = h, fr_body = body\<rparr> \<Longrightarrow>
      fe_send (cluster_env x secret) (out_request_for (cluster_env x secret) url r') (t2, s) =
        (Replied (wire_reply x (json_response st j)), (t2, s'))"
    by (rule cluster_reaches [OF assms(1-3)]) (rule that, assumption+)
  let ?r = "\<lparr>fr_identity = identity, fr_target = node, fr_shard = shard, fr_method = m, fr_uri = v,
    fr_headers = h, fr_body = body\<rparr>"
  let ?t = "record_region_request node t1"
  have secret: "fe_secret (cluster_env x secret) = secret" by (simp add: cluster_env_def)
  have "forward_once x (cluster_env x secret) ?r (?t, s) = (Served (served x st j), (?t, s'))"
    using outcome_plain_answer [OF laws assms(4)] sendable send [OF refl]
    by (simp add: forward_once_def c(3) secret Let_def outcome_def)
  then have "route_without_customer_idempotency x (cluster_env x secret) identity m v h body (t, s) =
      (served x st j, (?t, s'))"
    by (simp add: route_without_customer_idempotency_def c(1) forward_with_redirect_def max_hops_def
        eval_nat_numeral after_hop_def)
  then show ?thesis using that c(2) by blast
qed

section \<open>The node's handlers on the protocol's bodies\<close>

lemma set_hinsert: "set (hinsert k v m) \<subseteq> insert (k, v) (set m)"
  by (induction m) (auto simp: hinsert_def)

lemma string_fields_get:
  assumes "string_fields (JObject fs) = Some m" "distinct (map fst fs)"
  shows "hget m k = Option.bind (hget fs k) as_str"
proof -
  have "hget (foldl (\<lambda>m (k, v). case as_str v of Some t \<Rightarrow> hinsert k t m | None \<Rightarrow> m) m0 fs) k =
      (case Option.bind (hget fs k) as_str of Some v \<Rightarrow> Some v | None \<Rightarrow> hget m0 k)" for m0
    using assms(2)
  proof (induction fs arbitrary: m0)
    case (Cons f fs)
    obtain k' w where f: "f = (k', w)" by fastforce
    then have "hget fs k' = None" using Cons.prems by (simp add: map_of_eq_None_iff)
    then show ?case
      using Cons by (cases "as_str w"; cases "k = k'") (auto simp: f hmap_simps split: option.split)
  qed simp
  from this [of "[]"] assms(1) show ?thesis
    by (cases "Option.bind (hget fs k) as_str") auto
qed

lemma string_fields_from:
  assumes "string_fields (JObject fs) = Some m" "(k, v) \<in> set m"
  shows "(k, JString v) \<in> set fs"
proof -
  have "(k, v) \<in> set m0 \<or> (k, JString v) \<in> set fs"
    if "(k, v) \<in> set (foldl (\<lambda>m (k, v). case as_str v of Some t \<Rightarrow> hinsert k t m | None \<Rightarrow> m) m0 fs)" for m0
    using that
  proof (induction fs arbitrary: m0)
    case (Cons f fs)
    obtain k' w where f: "f = (k', w)" by fastforce
    show ?case
      using Cons.prems Cons.IH [of "case as_str w of Some t \<Rightarrow> hinsert k' t m0 | None \<Rightarrow> m0"]
        set_hinsert [of k' _ m0]
      by (cases w) (auto simp: f)
  qed simp
  with assms show ?thesis by fastforce
qed

definition metadata_json :: "customer_idempotency \<Rightarrow> json" where
  "metadata_json i = JObject (map (\<lambda>(k, v). (k, JString v)) (idempotency_metadata i))"

definition stored_metadata :: "customer_idempotency \<Rightarrow> (string, string) hmap" where
  "stored_metadata i = the (string_fields (json_canon (metadata_json i)))"

definition claimed_record :: "customer_idempotency \<Rightarrow> fake_record" where
  "claimed_record i =
     \<lparr>fk_key = ci_internal_key i, fk_owner = ci_owner i, fk_fencing_token = 99,
      fk_status = ''claimed'', fk_metadata = stored_metadata i, fk_result = None\<rparr>"

definition completed_record :: "customer_idempotency \<Rightarrow> stored_response \<Rightarrow> fake_record" where
  "completed_record i stored = (claimed_record i)
     \<lparr>fk_status := ''completed'', fk_result := Some (json_canon (stored_to_value stored))\<rparr>"

definition idempotency_text :: "customer_idempotency \<Rightarrow> bool" where
  "idempotency_text i \<longleftrightarrow> list_all valid_utf8
     [ci_key_hash i, ci_internal_key i, ci_owner i, ci_fingerprint i, ci_method i, ci_target i, ci_org_hash i]"

definition stored_text :: "stored_response \<Rightarrow> bool" where
  "stored_text s \<longleftrightarrow> valid_utf8 (st_fingerprint s) \<and> valid_utf8 (st_body_hex s) \<and>
     (case st_content_type s of None \<Rightarrow> True | Some t \<Rightarrow> valid_utf8 t)"

text \<open>The literals of the protocol's bodies.\<close>

lemma literal_text [simp]:
  "valid_utf8 ''key''" "valid_utf8 ''owner''" "valid_utf8 ''fencing_token''" "valid_utf8 ''status''"
  "valid_utf8 ''first_seen_ms''" "valid_utf8 ''lease_expires_ms''" "valid_utf8 ''metadata''"
  "valid_utf8 ''result''" "valid_utf8 ''claimed''" "valid_utf8 ''completed''" "valid_utf8 ''committed''"
  "valid_utf8 ''shard''" "valid_utf8 ''log_index''" "valid_utf8 ''revision''" "valid_utf8 ''output''"
  "valid_utf8 ''abandoned''" "valid_utf8 ''reason''" "valid_utf8 ''not_holder''" "valid_utf8 ''not_found''"
  "valid_utf8 ''duplicate''" "valid_utf8 ''record''" "valid_utf8 ''ok''" "valid_utf8 ''method''"
  "valid_utf8 ''target''" "valid_utf8 ''mutation_count''" "valid_utf8 ''ttl_ms''" "valid_utf8 ''retention_ms''"
  "valid_utf8 ''scope''" "valid_utf8 ''customer''" "valid_utf8 ''org_hash''" "valid_utf8 ''key_hash''"
  "valid_utf8 ''fingerprint''" "valid_utf8 ''content_type''" "valid_utf8 ''body_hex''" "valid_utf8 ''truncated''"
  by (simp_all add: is_ascii_valid_utf8 is_ascii_def)

lemma stored_text_value: "stored_text s \<Longrightarrow> json_text (stored_to_value s)"
  by (auto simp: stored_text_def stored_to_value_def split: option.split)

lemma json_text_metadata: "idempotency_text i \<Longrightarrow> json_text (metadata_json i)"
  by (simp add: metadata_json_def idempotency_text_def idempotency_metadata_def)

lemma string_fields_metadata:
  "string_fields (json_canon (metadata_json i)) = Some (stored_metadata i)"
  by (simp add: stored_metadata_def metadata_json_def)

lemma stored_metadata_get: "hget (stored_metadata i) ''fingerprint'' = Some (ci_fingerprint i)"
proof -
  obtain fs where fs: "json_canon (metadata_json i) = JObject fs" "distinct (map fst fs)"
    by (simp add: metadata_json_def distinct_canon_fields)
  have "hget fs ''fingerprint'' = Some (JString (ci_fingerprint i))"
    using jget_canon [of "''fingerprint''" "metadata_json i"]
    by (simp add: fs(1)) (simp add: metadata_json_def idempotency_metadata_def)
  then show ?thesis
    using string_fields_get [OF string_fields_metadata [of i, unfolded fs(1)] fs(2)] by simp
qed

lemma stored_metadata_text:
  assumes "idempotency_text i" "(k, v) \<in> set (stored_metadata i)"
  shows "valid_utf8 k \<and> valid_utf8 v"
proof -
  obtain fs where fs: "json_canon (metadata_json i) = JObject fs" by (simp add: metadata_json_def)
  have "(k, JString v) \<in> set fs"
    using string_fields_from [OF string_fields_metadata [of i, unfolded fs] assms(2)] .
  moreover have "json_text (JObject fs)"
    using json_text_canon [OF json_text_metadata [OF assms(1)]] by (simp only: fs)
  ultimately show ?thesis by (force simp: list_all_iff)
qed

lemma json_text_record:
  assumes "idempotency_text i"
  shows "json_text (record_json (claimed_record i))"
    "stored_text stored \<Longrightarrow> json_text (record_json (completed_record i stored))"
proof -
  have m: "json_text (JObject (map (\<lambda>(k, v). (k, JString v)) (stored_metadata i)))"
    using stored_metadata_text [OF assms] by (auto simp: list_all_iff)
  have r: "json_text (record_json r)" if "fk_metadata r = stored_metadata i" "valid_utf8 (fk_key r)"
    "valid_utf8 (fk_owner r)" "valid_utf8 (fk_status r)" "case fk_result r of None \<Rightarrow> True | Some v \<Rightarrow> json_text v" for r
  proof -
    have fields: "json_text (JObject [(''key'', JString k), (''owner'', JString w), (''fencing_token'', JUint n),
        (''status'', JString st), (''first_seen_ms'', JUint 1), (''lease_expires_ms'', JUint 2),
        (''metadata'', M), (''result'', v)])"
      if "valid_utf8 k" "valid_utf8 w" "valid_utf8 st" "json_text M" "json_text v" for k w n st M v
      using that by simp
    have "json_text (case fk_result r of Some v \<Rightarrow> v | None \<Rightarrow> JNull)"
      using that(5) by (cases "fk_result r") simp_all
    from fields [OF that(2-4) m this] show ?thesis by (simp only: record_json_def that(1))
  qed
  show "json_text (record_json (claimed_record i))"
    "stored_text stored \<Longrightarrow> json_text (record_json (completed_record i stored))"
    using assms stored_text_value [of stored]
    by (auto intro!: r simp: claimed_record_def completed_record_def idempotency_text_def)
qed

lemma fake_claim_body:
  assumes "serde_laws x" "idempotency_text i"
    and "Option.bind (header_get h ''content-type'') header_to_str = Some ''application/json''"
  shows "fake_claim x h (x_json_print x (claim_body i)) s = Some
    (case hget (fn_records s) (ci_internal_key i) of
       Some r \<Rightarrow> (committed_output (duplicate_output (ci_internal_key i) r), s)
     | None \<Rightarrow> (committed_output (claimed_output (ci_internal_key i) (claimed_record i)),
         s\<lparr>fn_records := hinsert (ci_internal_key i) (claimed_record i) (fn_records s)\<rparr>))"
proof -
  have "json_text (claim_body i)"
    using json_text_metadata [OF assms(2)] assms(2)
    by (simp add: claim_body_def metadata_json_def idempotency_text_def)
  moreover have "json_depth (claim_body i) \<le> 127" by (simp add: claim_body_def idempotency_metadata_def)
  ultimately have "x_json_parse x (x_json_print x (claim_body i)) = Some (json_canon (claim_body i))"
    using assms(1) by (simp add: serde_laws_def)
  moreover have "jget ''metadata'' (claim_body i) = Some (metadata_json i)"
    "jget ''key'' (claim_body i) = Some (JString (ci_internal_key i))"
    "jget ''owner'' (claim_body i) = Some (JString (ci_owner i))"
    by (simp_all add: claim_body_def metadata_json_def)
  ultimately show ?thesis
    using assms(3) string_fields_metadata [of i]
    by (simp add: fake_claim_def assert_json_def claimed_record_def Let_def split: option.split)
qed

lemma fake_complete_body:
  assumes "serde_laws x" "idempotency_text i" "stored_text stored"
    and "Option.bind (header_get h ''content-type'') header_to_str = Some ''application/json''"
    and "hget (fn_records s) (ci_internal_key i) = Some (claimed_record i)"
  shows "fake_complete x h (x_json_print x (complete_body i 99 stored)) s = Some
    (committed_output (completed_output (ci_internal_key i) (completed_record i stored)),
     s\<lparr>fn_records := hinsert (ci_internal_key i) (completed_record i stored) (fn_records s)\<rparr>)"
proof -
  have "json_text (complete_body i 99 stored)"
    using stored_text_value [OF assms(3)] assms(2)
    by (simp add: complete_body_def idempotency_text_def)
  moreover have "json_depth (complete_body i 99 stored) \<le> 127" by (simp add: complete_body_def stored_to_value_def split: option.split)
  ultimately have "x_json_parse x (x_json_print x (complete_body i 99 stored)) = Some (json_canon (complete_body i 99 stored))"
    using assms(1) by (simp add: serde_laws_def)
  moreover have "jget ''key'' (complete_body i 99 stored) = Some (JString (ci_internal_key i))"
    "jget ''owner'' (complete_body i 99 stored) = Some (JString (ci_owner i))"
    "jget ''fencing_token'' (complete_body i 99 stored) = Some (JUint 99)"
    "jget ''result'' (complete_body i 99 stored) = Some (stored_to_value stored)"
    by (simp_all add: complete_body_def)
  ultimately show ?thesis
    using assms(4,5)
    by (simp add: fake_complete_def assert_json_def completed_record_def Let_def)
      (simp add: claimed_record_def)
qed

lemma fake_abandon_body:
  assumes "serde_laws x" "idempotency_text i"
    and "hget (fn_records s) (ci_internal_key i) = Some (claimed_record i)"
  shows "fake_abandon x (x_json_print x (abandon_body i 99)) s = Some
    (committed_output (abandon_output None (ci_internal_key i)),
     s\<lparr>fn_records := hremove (ci_internal_key i) (fn_records s),
       fn_abandons := fn_abandons s @ [ci_internal_key i]\<rparr>)"
proof -
  have "json_text (abandon_body i 99)"
    using assms(2) by (simp add: abandon_body_def idempotency_text_def)
  moreover have "json_depth (abandon_body i 99) \<le> 127" by (simp add: abandon_body_def)
  ultimately have "x_json_parse x (x_json_print x (abandon_body i 99)) = Some (json_canon (abandon_body i 99))"
    using assms(1) by (simp add: serde_laws_def)
  moreover have "jget ''key'' (abandon_body i 99) = Some (JString (ci_internal_key i))"
    "jget ''fencing_token'' (abandon_body i 99) = Some (JUint 99)"
    by (simp_all add: abandon_body_def)
  ultimately show ?thesis
    using assms(3) by (simp add: fake_abandon_def) (simp add: claimed_record_def)
qed

section \<open>The protocol's exchanges with the cluster\<close>

lemma protocol_headers:
  "Option.bind (header_get (wire_headers secret identity json_headers) ''content-type'') header_to_str =
     Some ''application/json''"
proof -
  have "client_headers json_headers = [(''content-type'', ''application/json'')]"
    by code_simp
  then show ?thesis
    by (simp add: wire_headers_def header_get_def header_to_str_def)
qed

lemma plain_committed:
  "json_text o' \<Longrightarrow> fits x (committed_json o') \<Longrightarrow> plain_answer x 200 (committed_json o')"
  by (simp add: plain_answer_def committed_json_def)

lemma captured_served:
  assumes "fits x j"
  shows "captured_from_response x (served x st j) = Inr
    \<lparr>cp_status = st, cp_headers = [(''content-type'', ''application/json'')], cp_body = x_json_print x j\<rparr>"
  using assms by (simp add: captured_from_response_def served_def to_bytes_def fits_def max_capture_bytes_def)

lemma committed_parsed:
  assumes "serde_laws x" "json_text o'" "fits x (committed_json o')"
  obtains v where "x_json_parse x (x_json_print x (committed_json o')) = Some v"
    "answer_output v = Some (json_canon o')"
proof -
  have "x_json_parse x (x_json_print x (committed_json o')) = Some (json_canon (committed_json o'))"
    using assms by (simp add: serde_laws_def fits_def committed_json_def)
  moreover have "answer_output (json_canon (committed_json o')) = Some (json_canon o')"
  proof -
    have "jget ''result'' (committed_json o') =
        Some (JObject [(''shard'', JUint 0), (''log_index'', JUint 1), (''revision'', JUint 1), (''output'', o')])"
      by (simp add: committed_json_def)
    then show ?thesis
      using jget_canon [of "''output''" "JObject [(''shard'', JUint 0), (''log_index'', JUint 1), (''revision'', JUint 1), (''output'', o')]"]
      by (simp add: answer_output_def del: json_canon.simps)
  qed
  ultimately show ?thesis by (rule that)
qed

lemma bool_field_canon [simp]: "bool_field f (json_canon v) = bool_field f v"
  by (simp add: bool_field_def) (cases "jget f v"; simp)

lemma claim_answer_committed:
  assumes "serde_laws x" "json_text o'" "fits x (committed_json o')"
  shows "claim_answer x (served x 200 (committed_json o')) = Inr
    \<lparr>ic_claimed = bool_field ''claimed'' o', ic_duplicate = bool_field ''duplicate'' o',
     ic_fencing_token = Option.bind (jget ''fencing_token'' o') as_u64,
     ic_record = map_option json_canon (jget ''record'' o')\<rparr>"
proof -
  obtain v where v: "x_json_parse x (x_json_print x (committed_json o')) = Some v"
    "answer_output v = Some (json_canon o')"
    by (rule committed_parsed [OF assms])
  show ?thesis
    unfolding claim_answer_def captured_served [OF assms(3)] using v
    by (simp add: is_success_def) (cases "jget ''fencing_token'' o'"; simp)
qed

lemma complete_answer_committed:
  assumes "serde_laws x" "json_text o'" "fits x (committed_json o')"
  shows "complete_answer x (served x 200 (committed_json o')) =
    (if bool_field ''completed'' o' then Inr () else Inl ''complete was rejected'')"
proof -
  obtain v where v: "x_json_parse x (x_json_print x (committed_json o')) = Some v"
    "answer_output v = Some (json_canon o')"
    by (rule committed_parsed [OF assms])
  show ?thesis
    unfolding complete_answer_def captured_served [OF assms(3)] using v
    by (simp add: is_success_def)
qed

text \<open>A claim finds the key free, or some record of it.\<close>

lemma claim_free:
  assumes ok: "cluster_ok x secret identity u t" and i: "idempotency_text i"
    and free: "hget (fn_records s) (ci_internal_key i) = None"
    and fit: "fits x (committed_json (claimed_output (ci_internal_key i) (claimed_record i)))"
  obtains t' claim where "claim_customer_idempotency x (cluster_env x secret) identity i (t, s) =
      (Inr claim, (t', s\<lparr>fn_records := hinsert (ci_internal_key i) (claimed_record i) (fn_records s)\<rparr>))"
    "ic_claimed claim" "ic_fencing_token claim = Some 99" "same_routes t t'"
proof -
  have laws: "serde_laws x" using ok by (simp add: cluster_ok_def)
  let ?out = "claimed_output (ci_internal_key i) (claimed_record i)"
  have utf8: "json_text ?out"
    using json_text_record(1) [OF i] i by (simp add: claimed_output_def idempotency_text_def)
  have "fake_node_handler x POST (origin_uri (uri_path claim_uri) (uri_query claim_uri))
      (wire_headers secret identity json_headers) (x_json_print x (claim_body i)) s =
      Some (json_response 200 (committed_json ?out),
        s\<lparr>fn_records := hinsert (ci_internal_key i) (claimed_record i) (fn_records s)\<rparr>)"
    using fake_claim_body [OF laws i protocol_headers]
    by (simp add: fake_node_handler_def claim_uri_def free committed_output_def)
  from cluster_exchange [OF ok _ this plain_committed [OF utf8 fit]] obtain t' where
    "route_without_customer_idempotency x (cluster_env x secret) identity POST claim_uri json_headers
       (x_json_print x (claim_body i)) (t, s) =
      (served x 200 (committed_json ?out),
       (t', s\<lparr>fn_records := hinsert (ci_internal_key i) (claimed_record i) (fn_records s)\<rparr>))" "same_routes t t'"
    by auto
  then show ?thesis
    using claim_answer_committed [OF laws utf8 fit] that
    by (simp add: claim_customer_idempotency_def)
      (simp add: claimed_output_def bool_field_def)
qed

lemma claim_held:
  assumes ok: "cluster_ok x secret identity u t" and i: "idempotency_text i"
    and held: "hget (fn_records s) (ci_internal_key i) = Some r"
    and r: "json_text (record_json r)" "fits x (committed_json (duplicate_output (ci_internal_key i) r))"
  obtains t' claim where "claim_customer_idempotency x (cluster_env x secret) identity i (t, s) =
      (Inr claim, (t', s))"
    "\<not> ic_claimed claim" "ic_duplicate claim" "ic_record claim = Some (json_canon (record_json r))" "same_routes t t'"
proof -
  have laws: "serde_laws x" using ok by (simp add: cluster_ok_def)
  let ?out = "duplicate_output (ci_internal_key i) r"
  have utf8: "json_text ?out"
    using r(1) i by (simp add: duplicate_output_def idempotency_text_def)
  have "fake_node_handler x POST (origin_uri (uri_path claim_uri) (uri_query claim_uri))
      (wire_headers secret identity json_headers) (x_json_print x (claim_body i)) s =
      Some (json_response 200 (committed_json ?out), s)"
    using fake_claim_body [OF laws i protocol_headers]
    by (simp add: fake_node_handler_def claim_uri_def held committed_output_def)
  from cluster_exchange [OF ok _ this plain_committed [OF utf8 r(2)]] obtain t' where
    "route_without_customer_idempotency x (cluster_env x secret) identity POST claim_uri json_headers
       (x_json_print x (claim_body i)) (t, s) = (served x 200 (committed_json ?out), (t', s))" "same_routes t t'"
    by auto
  then show ?thesis
    using claim_answer_committed [OF laws utf8 r(2)] that
    by (simp add: claim_customer_idempotency_def)
      (simp add: duplicate_output_def bool_field_def)
qed

lemma complete_claimed:
  assumes ok: "cluster_ok x secret identity u t" and i: "idempotency_text i" and st: "stored_text stored"
    and mine: "hget (fn_records s) (ci_internal_key i) = Some (claimed_record i)"
    and fit: "fits x (committed_json (completed_output (ci_internal_key i) (completed_record i stored)))"
  obtains t' where "complete_customer_idempotency x (cluster_env x secret) identity i 99 stored (t, s) =
      (Inr (), (t', s\<lparr>fn_records := hinsert (ci_internal_key i) (completed_record i stored) (fn_records s)\<rparr>))"
    "same_routes t t'"
proof -
  have laws: "serde_laws x" using ok by (simp add: cluster_ok_def)
  let ?out = "completed_output (ci_internal_key i) (completed_record i stored)"
  have utf8: "json_text ?out"
    using json_text_record(2) [OF i st] i by (simp add: completed_output_def idempotency_text_def)
  have "fake_node_handler x POST (origin_uri (uri_path complete_uri) (uri_query complete_uri))
      (wire_headers secret identity json_headers) (x_json_print x (complete_body i 99 stored)) s =
      Some (json_response 200 (committed_json ?out),
        s\<lparr>fn_records := hinsert (ci_internal_key i) (completed_record i stored) (fn_records s)\<rparr>)"
    using fake_complete_body [OF laws i st protocol_headers mine]
    by (simp add: fake_node_handler_def complete_uri_def committed_output_def)
  from cluster_exchange [OF ok _ this plain_committed [OF utf8 fit]] obtain t' where
    "route_without_customer_idempotency x (cluster_env x secret) identity POST complete_uri json_headers
       (x_json_print x (complete_body i 99 stored)) (t, s) =
      (served x 200 (committed_json ?out),
       (t', s\<lparr>fn_records := hinsert (ci_internal_key i) (completed_record i stored) (fn_records s)\<rparr>))"
    "same_routes t t'"
    by auto
  then show ?thesis
    using complete_answer_committed [OF laws utf8 fit] that
    by (simp add: complete_customer_idempotency_def)
      (simp add: completed_output_def bool_field_def)
qed

lemma abandon_claimed:
  assumes ok: "cluster_ok x secret identity u t" and i: "idempotency_text i"
    and mine: "hget (fn_records s) (ci_internal_key i) = Some (claimed_record i)"
    and fit: "fits x (committed_json (abandon_output None (ci_internal_key i)))"
  obtains t' where "abandon_customer_idempotency x (cluster_env x secret) identity i 99 (t, s) =
      (t', s\<lparr>fn_records := hremove (ci_internal_key i) (fn_records s),
        fn_abandons := fn_abandons s @ [ci_internal_key i]\<rparr>)"
    "same_routes t t'"
proof -
  have laws: "serde_laws x" using ok by (simp add: cluster_ok_def)
  let ?out = "abandon_output None (ci_internal_key i)"
  have utf8: "json_text ?out" using i by (simp add: abandon_output_def idempotency_text_def)
  have "fake_node_handler x POST (origin_uri (uri_path abandon_uri) (uri_query abandon_uri))
      (wire_headers secret identity json_headers) (x_json_print x (abandon_body i 99)) s =
      Some (json_response 200 (committed_json ?out),
        s\<lparr>fn_records := hremove (ci_internal_key i) (fn_records s),
          fn_abandons := fn_abandons s @ [ci_internal_key i]\<rparr>)"
    using fake_abandon_body [OF laws i mine]
    by (simp add: fake_node_handler_def abandon_uri_def committed_output_def)
  from cluster_exchange [OF ok _ this plain_committed [OF utf8 fit]] obtain t' where
    "route_without_customer_idempotency x (cluster_env x secret) identity POST abandon_uri json_headers
       (x_json_print x (abandon_body i 99)) (t, s) =
      (served x 200 (committed_json ?out),
       (t', s\<lparr>fn_records := hremove (ci_internal_key i) (fn_records s),
          fn_abandons := fn_abandons s @ [ci_internal_key i]\<rparr>))"
    "same_routes t t'"
    by (metis insertCI)
  then show ?thesis using that by (simp add: abandon_customer_idempotency_def)
qed

section \<open>The specification of a keyed request\<close>

record keyed_state =
  ks_count :: nat
  ks_queue :: "16 word list"
  ks_stored :: "stored_response option"

text \<open>The node sees the request in origin form.\<close>

definition mutation_captured :: "externals \<Rightarrow> http_method \<Rightarrow> uri \<Rightarrow> nat \<Rightarrow> nat \<Rightarrow> captured_response" where
  "mutation_captured x m u st n =
     \<lparr>cp_status = st, cp_headers = [(''content-type'', ''application/json'')],
      cp_body = x_json_print x (mutation_json m (origin_uri (uri_path u) (uri_query u)) st n)\<rparr>"

definition keyed_call :: "externals \<Rightarrow> customer_idempotency \<Rightarrow> http_method \<Rightarrow> uri \<Rightarrow> keyed_state \<Rightarrow>
    response \<times> keyed_state" where
  "keyed_call x i m u k =
     (case ks_stored k of
        Some stored \<Rightarrow> (into_replay_response stored, k)
      | None \<Rightarrow>
          (let st = next_status (ks_queue k); n = Suc (ks_count k); c = mutation_captured x m u st n;
               k = k\<lparr>ks_count := n, ks_queue := tl (ks_queue k)\<rparr>
           in if is_cacheable_idempotent_response st
              then (mark_response ''stored'' c, k\<lparr>ks_stored := Some (stored_from_captured i c)\<rparr>)
              else (mark_response ''not_stored'' c, k)))"

text \<open>How the node's state shows the specification's, for one key.\<close>

definition stores_mutation :: "externals \<Rightarrow> customer_idempotency \<Rightarrow> http_method \<Rightarrow> uri \<Rightarrow> stored_response \<Rightarrow> bool" where
  "stores_mutation x i m u stored \<longleftrightarrow>
     (\<exists>st n. stored = stored_from_captured i (mutation_captured x m u st n))"

definition shows_keyed :: "externals \<Rightarrow> customer_idempotency \<Rightarrow> http_method \<Rightarrow> uri \<Rightarrow> fake_node \<Rightarrow> keyed_state \<Rightarrow> bool" where
  "shows_keyed x i m u s k \<longleftrightarrow>
     mutation_count s = ks_count k \<and> fn_mutation_statuses s = ks_queue k \<and>
     hget (fn_records s) (ci_internal_key i) = map_option (completed_record i) (ks_stored k) \<and>
     (\<forall>stored. ks_stored k = Some stored \<longrightarrow> stores_mutation x i m u stored)"

text \<open>No answer of the node exceeds the load balancer's limit, and no scripted status redirects.\<close>

definition answers_fit :: "externals \<Rightarrow> customer_idempotency \<Rightarrow> http_method \<Rightarrow> uri \<Rightarrow> bool" where
  "answers_fit x i m u \<longleftrightarrow>
     fits x (committed_json (claimed_output (ci_internal_key i) (claimed_record i))) \<and>
     fits x (committed_json (duplicate_output (ci_internal_key i) (claimed_record i))) \<and>
     fits x (committed_json (abandon_output None (ci_internal_key i))) \<and>
     (\<forall>st n. fits x (mutation_json m (origin_uri (uri_path u) (uri_query u)) st n)) \<and>
     (\<forall>stored. stores_mutation x i m u stored \<longrightarrow>
        fits x (committed_json (completed_output (ci_internal_key i) (completed_record i stored))) \<and>
        fits x (committed_json (duplicate_output (ci_internal_key i) (completed_record i stored))))"

definition no_redirects :: "16 word list \<Rightarrow> bool" where
  "no_redirects q \<longleftrightarrow> list_all (\<lambda>code. next_status [code] \<noteq> 307 \<and> next_status [code] \<noteq> 421) q"

lemma no_redirects_next: "no_redirects q \<Longrightarrow> next_status q \<noteq> 307 \<and> next_status q \<noteq> 421 \<and> no_redirects (tl q)"
  by (cases q) (auto simp: no_redirects_def next_status_def)

lemma ascii_text: "is_ascii (to_hex bs)" "is_ascii (a @ b) \<longleftrightarrow> is_ascii a \<and> is_ascii b"
proof -
  have "code_of (from_digit16 n) < 128" if "n < 16" for n
    using that by (simp add: from_digit16_def)
  moreover have "unat b div 16 < 16" for b :: byte using unsigned_less [of b, where 'a = nat] by simp
  ultimately show "is_ascii (to_hex bs)"
    by (induction bs) (simp_all add: is_ascii_def to_hex_Cons, simp add: to_hex_def)
  show "is_ascii (a @ b) \<longleftrightarrow> is_ascii a \<and> is_ascii b" by (simp add: is_ascii_def)
qed

lemma hex_text:
  "valid_utf8 (to_hex a)" "valid_utf8 (''customer/'' @ to_hex a)"
  "valid_utf8 (''customer/'' @ to_hex a @ ''/'' @ to_hex b)" "valid_utf8 ''application/json''"
proof -
  have "is_ascii ''customer/''" "is_ascii ''/''" "is_ascii ''application/json''" by (simp_all add: is_ascii_def)
  then show "valid_utf8 (to_hex a)" "valid_utf8 (''customer/'' @ to_hex a)"
    "valid_utf8 (''customer/'' @ to_hex a @ ''/'' @ to_hex b)" "valid_utf8 ''application/json''"
    by (simp_all only: is_ascii_valid_utf8 ascii_text)
qed

lemma idempotency_for_text:
  assumes "from_request x identity m u h body = Inr (Some i)" "valid_utf8 (request_target u)"
  shows "idempotency_text i" "json_text (mutation_json m (origin_uri (uri_path u) (uri_query u)) st n) \<longleftrightarrow>
    valid_utf8 (request_target (origin_uri (uri_path u) (uri_query u)))"
proof -
  have m: "is_ascii (method_str m)" and i: "\<exists>key. i = idempotency_for x identity m u h body key"
    using assms(1) by (auto simp: from_request_Some method_supports_customer_idempotency_def is_ascii_def)
  show "idempotency_text i"
    using i is_ascii_valid_utf8 [OF m] assms(2)
    by (auto simp: idempotency_for_def idempotency_text_def Let_def sha256_hex_def request_fingerprint_def
        hex_text simp del: append_Cons)
  show "json_text (mutation_json m (origin_uri (uri_path u) (uri_query u)) st n) \<longleftrightarrow>
    valid_utf8 (request_target (origin_uri (uri_path u) (uri_query u)))"
    using is_ascii_valid_utf8 [OF m] by (simp add: mutation_json_def)
qed

lemma stored_mutation_text:
  assumes "idempotency_text i" "stores_mutation x i m u stored"
  shows "stored_text stored" "st_fingerprint stored = ci_fingerprint i"
  using assms
  by (auto simp: stores_mutation_def stored_text_def stored_from_captured_def Let_def idempotency_text_def
      mutation_captured_def header_get_def header_to_str_def hex_text)

section \<open>The load balancer implements the specification\<close>

text \<open>A keyed request that \<^verbatim>\<open>route\<close> does not refuse, at a cluster that can be reached.\<close>

definition keyed_request :: "externals \<Rightarrow> string option \<Rightarrow> verified_identity option \<Rightarrow> http_method \<Rightarrow> uri \<Rightarrow>
    header_map \<Rightarrow> bytes \<Rightarrow> customer_idempotency \<Rightarrow> route_table \<Rightarrow> bool" where
  "keyed_request x secret identity m u h body i t \<longleftrightarrow>
     from_request x identity m u h body = Inr (Some i) \<and> authorize_route identity m u = Inr () \<and>
     \<not> path_has_dot_segment (uri_path u) \<and> uri_pq u \<noteq> None \<and> valid_utf8 (request_target u) \<and>
     cluster_ok x secret identity u t \<and> answers_fit x i m u"

lemma keyed_request_same_routes:
  "keyed_request x secret identity m u h body i t \<Longrightarrow> same_routes t t' \<Longrightarrow>
   keyed_request x secret identity m u h body i t'"
  using cluster_ok_same_routes by (auto simp: keyed_request_def)

lemma keyed_requestD:
  assumes "keyed_request x secret identity m u h body i t"
  shows "cluster_ok x secret identity u t" "idempotency_text i" "answers_fit x i m u"
    "\<not> is_idempotency_primitive u"
    "route x env identity m u h body st = route_with_customer_idempotency x env identity m u h body i st"
proof -
  show "cluster_ok x secret identity u t" "answers_fit x i m u" using assms by (simp_all add: keyed_request_def)
  have req: "from_request x identity m u h body = Inr (Some i)" "valid_utf8 (request_target u)"
    using assms by (simp_all add: keyed_request_def)
  show "idempotency_text i" by (rule idempotency_for_text(1) [OF req])
  show "\<not> is_idempotency_primitive u" using req(1) by (simp add: from_request_Some)
  show "route x env identity m u h body st = route_with_customer_idempotency x env identity m u h body i st"
    using assms by (simp add: keyed_request_def route_def)
qed

lemma run_plain:
  assumes "cluster_ok x secret identity u t" "no_redirects (fn_mutation_statuses s)" "\<not> is_idempotency_primitive u"
    and "uri_pq u \<noteq> None" "valid_utf8 (request_target u)" "valid_utf8 (method_str m)"
    and "\<And>st n. fits x (mutation_json m (origin_uri (uri_path u) (uri_query u)) st n)"
  obtains t' where "route_without_customer_idempotency x (cluster_env x secret) identity m u h body (t, s) =
      (served x (next_status (fn_mutation_statuses s))
         (mutation_json m (origin_uri (uri_path u) (uri_query u)) (next_status (fn_mutation_statuses s))
           (Suc (mutation_count s))),
       (t', s\<lparr>fn_mutations := fn_mutations s @ [wire_headers secret identity h],
          fn_mutation_statuses := tl (fn_mutation_statuses s)\<rparr>))"
    "same_routes t t'"
proof -
  let ?st = "next_status (fn_mutation_statuses s)" and ?v = "origin_uri (uri_path u) (uri_query u)"
  let ?j = "mutation_json m ?v ?st (Suc (mutation_count s))"
  obtain p q where "uri_pq u = Some (p, q)" using assms(4) by auto
  then have "request_target ?v = request_target u"
    by (simp add: request_target_def uri_path_and_query_def uri_path_def uri_query_def origin_uri_def
        split: option.split)
  then have "json_text ?j" using assms(5,6) by (simp add: mutation_json_def)
  moreover have "fits x ?j" by (rule assms(7))
  ultimately have "plain_answer x ?st ?j"
    using no_redirects_next [OF assms(2)] by (simp add: plain_answer_def mutation_json_def)
  moreover have "fake_node_handler x m ?v (wire_headers secret identity h) body s =
      Some (json_response ?st ?j,
        s\<lparr>fn_mutations := fn_mutations s @ [wire_headers secret identity h],
          fn_mutation_statuses := tl (fn_mutation_statuses s)\<rparr>)"
    using assms(3) by (auto simp: fake_node_handler_def fake_mutation_def Let_def mutation_count_def
        is_idempotency_primitive_def starts_with_def)
  ultimately show ?thesis
    using cluster_exchange [OF assms(1), of u] that by blast
qed

lemma run_mutation:
  assumes "keyed_request x secret identity m u h body i t" "no_redirects (fn_mutation_statuses s)"
  obtains t' where "route_without_customer_idempotency x (cluster_env x secret) identity m u h body (t, s) =
      (served x (next_status (fn_mutation_statuses s))
         (mutation_json m (origin_uri (uri_path u) (uri_query u)) (next_status (fn_mutation_statuses s))
           (Suc (mutation_count s))),
       (t', s\<lparr>fn_mutations := fn_mutations s @ [wire_headers secret identity h],
          fn_mutation_statuses := tl (fn_mutation_statuses s)\<rparr>))"
    "same_routes t t'"
proof -
  note D = keyed_requestD [OF assms(1)]
  have "is_ascii (method_str m)"
    using assms(1) by (auto simp: keyed_request_def from_request_Some method_supports_customer_idempotency_def is_ascii_def)
  then have "valid_utf8 (method_str m)" by (rule is_ascii_valid_utf8)
  with assms(1) have "uri_pq u \<noteq> None" "valid_utf8 (request_target u)" "valid_utf8 (method_str m)"
    by (simp_all add: keyed_request_def)
  moreover have "fits x (mutation_json m (origin_uri (uri_path u) (uri_query u)) st n)" for st n
    using D(3) by (simp add: answers_fit_def)
  ultimately obtain t' where "route_without_customer_idempotency x (cluster_env x secret) identity m u h body (t, s) =
      (served x (next_status (fn_mutation_statuses s))
         (mutation_json m (origin_uri (uri_path u) (uri_query u)) (next_status (fn_mutation_statuses s))
           (Suc (mutation_count s))),
       (t', s\<lparr>fn_mutations := fn_mutations s @ [wire_headers secret identity h],
          fn_mutation_statuses := tl (fn_mutation_statuses s)\<rparr>))" "same_routes t t'"
    by (rule run_plain [OF D(1) assms(2) D(4)])
  then show ?thesis by (rule that)
qed

lemma served_eq: "captured_from_response x (served x st (mutation_json m (origin_uri (uri_path u) (uri_query u)) st n)) =
    Inr (mutation_captured x m u st n)" if "answers_fit x i m u"
proof -
  have "fits x (mutation_json m (origin_uri (uri_path u) (uri_query u)) st n)"
    using that unfolding answers_fit_def by blast
  from captured_served [OF this] show ?thesis by (simp add: mutation_captured_def)
qed

lemma settle_cluster:
  fixes st n :: nat
  assumes req: "keyed_request x secret identity m u h body i t"
    and mine: "hget (fn_records s) (ci_internal_key i) = Some (claimed_record i)"
  defines "r \<equiv> served x st (mutation_json m (origin_uri (uri_path u) (uri_query u)) st n)"
    and "c \<equiv> mutation_captured x m u st n"
  obtains t' where
    "settle_claim x (cluster_env x secret) identity i 99 r (t, s) =
       (if is_cacheable_idempotent_response st
        then (mark_response ''stored'' c,
          (t', s\<lparr>fn_records := hinsert (ci_internal_key i) (completed_record i (stored_from_captured i c)) (fn_records s)\<rparr>))
        else (mark_response ''not_stored'' c,
          (t', s\<lparr>fn_records := hremove (ci_internal_key i) (fn_records s),
             fn_abandons := fn_abandons s @ [ci_internal_key i]\<rparr>)))"
    "same_routes t t'"
proof -
  note D = keyed_requestD [OF req]
  note captured = served_eq [OF D(3), of st n, folded r_def c_def]
  have st: "cp_status c = st" by (simp add: c_def mutation_captured_def)
  show ?thesis
  proof (cases "is_cacheable_idempotent_response st")
    case True
    let ?stored = "stored_from_captured i c"
    have stores: "stores_mutation x i m u ?stored" unfolding stores_mutation_def c_def by blast
    then have "fits x (committed_json (completed_output (ci_internal_key i) (completed_record i ?stored)))"
      using D(3) unfolding answers_fit_def by blast
    from complete_claimed [OF D(1,2) stored_mutation_text(1) [OF D(2) stores] mine this] obtain t' where
      "complete_customer_idempotency x (cluster_env x secret) identity i 99 ?stored (t, s) =
         (Inr (), (t', s\<lparr>fn_records := hinsert (ci_internal_key i) (completed_record i ?stored) (fn_records s)\<rparr>))"
      "same_routes t t'" .
    with True show ?thesis by (intro that [of t']) (simp_all add: settle_claim_def captured st)
  next
    case False
    have "fits x (committed_json (abandon_output None (ci_internal_key i)))"
      using D(3) by (simp add: answers_fit_def)
    from abandon_claimed [OF D(1,2) mine this] obtain t' where
      "abandon_customer_idempotency x (cluster_env x secret) identity i 99 (t, s) =
         (t', s\<lparr>fn_records := hremove (ci_internal_key i) (fn_records s),
            fn_abandons := fn_abandons s @ [ci_internal_key i]\<rparr>)"
      "same_routes t t'" .
    with False show ?thesis by (intro that [of t']) (simp_all add: settle_claim_def captured st)
  qed
qed

text \<open>The node's state after the first call of a key: the mutation has run, and its record is kept if it is final.\<close>

definition after_first_call :: "externals \<Rightarrow> string option \<Rightarrow> verified_identity option \<Rightarrow> http_method \<Rightarrow> uri \<Rightarrow>
    header_map \<Rightarrow> customer_idempotency \<Rightarrow> fake_node \<Rightarrow> fake_node" where
  "after_first_call x secret identity m u h i s =
     (let c = mutation_captured x m u (next_status (fn_mutation_statuses s)) (Suc (mutation_count s));
          claimed = hinsert (ci_internal_key i) (claimed_record i) (fn_records s);
          s = s\<lparr>fn_mutations := fn_mutations s @ [wire_headers secret identity h],
            fn_mutation_statuses := tl (fn_mutation_statuses s)\<rparr>
      in if is_cacheable_idempotent_response (cp_status c)
         then s\<lparr>fn_records := hinsert (ci_internal_key i) (completed_record i (stored_from_captured i c)) claimed\<rparr>
         else s\<lparr>fn_records := hremove (ci_internal_key i) claimed,
           fn_abandons := fn_abandons s @ [ci_internal_key i]\<rparr>)"

lemma first_call:
  assumes req: "keyed_request x secret identity m u h body i t" and "no_redirects (fn_mutation_statuses s)"
    and fresh: "hget (fn_records s) (ci_internal_key i) = None"
  shows "\<exists>t'. route x (cluster_env x secret) identity m u h body (t, s) =
      (mark_response (if is_cacheable_idempotent_response (next_status (fn_mutation_statuses s)) then ''stored'' else ''not_stored'')
         (mutation_captured x m u (next_status (fn_mutation_statuses s)) (Suc (mutation_count s))),
       (t', after_first_call x secret identity m u h i s)) \<and> same_routes t t'"
proof -
  note D = keyed_requestD [OF req]
  have fit: "fits x (committed_json (claimed_output (ci_internal_key i) (claimed_record i)))"
    using D(3) by (simp add: answers_fit_def)
  let ?s1 = "s\<lparr>fn_records := hinsert (ci_internal_key i) (claimed_record i) (fn_records s)\<rparr>"
  obtain t1 claim where claim: "claim_customer_idempotency x (cluster_env x secret) identity i (t, s) = (Inr claim, (t1, ?s1))"
    "ic_claimed claim" "ic_fencing_token claim = Some 99" "same_routes t t1"
    by (rule claim_free [OF D(1,2) fresh fit])
  let ?st = "next_status (fn_mutation_statuses s)" and ?n = "Suc (mutation_count s)"
  let ?s2 = "?s1\<lparr>fn_mutations := fn_mutations s @ [wire_headers secret identity h],
      fn_mutation_statuses := tl (fn_mutation_statuses s)\<rparr>"
  let ?r = "served x ?st (mutation_json m (origin_uri (uri_path u) (uri_query u)) ?st ?n)"
  obtain t2 where run: "route_without_customer_idempotency x (cluster_env x secret) identity m u h body (t1, ?s1) =
      (?r, (t2, ?s2))" "same_routes t1 t2"
    using run_mutation [OF keyed_request_same_routes [OF req claim(4)], of ?s1] assms(2)
    by (auto simp: mutation_count_def)
  have t2: "same_routes t t2" by (rule same_routes_trans [OF claim(4) run(2)])
  have route: "route x (cluster_env x secret) identity m u h body (t, s) =
      settle_claim x (cluster_env x secret) identity i 99 ?r (t2, ?s2)"
    using claim run(1) granted_claim [of i claim] by (simp add: D(5) route_with_customer_idempotency_def)
  have "hget (fn_records ?s2) (ci_internal_key i) = Some (claimed_record i)" by (simp add: hmap_simps)
  from settle_cluster [OF keyed_request_same_routes [OF req t2] this, of ?st ?n] obtain t3 where
    "settle_claim x (cluster_env x secret) identity i 99 ?r (t2, ?s2) =
       (if is_cacheable_idempotent_response ?st
        then (mark_response ''stored'' (mutation_captured x m u ?st ?n),
          (t3, ?s2\<lparr>fn_records := hinsert (ci_internal_key i)
             (completed_record i (stored_from_captured i (mutation_captured x m u ?st ?n))) (fn_records ?s2)\<rparr>))
        else (mark_response ''not_stored'' (mutation_captured x m u ?st ?n),
          (t3, ?s2\<lparr>fn_records := hremove (ci_internal_key i) (fn_records ?s2),
             fn_abandons := fn_abandons ?s2 @ [ci_internal_key i]\<rparr>)))" "same_routes t2 t3"
    by blast
  moreover have "cp_status (mutation_captured x m u ?st ?n) = ?st" by (simp add: mutation_captured_def)
  ultimately show ?thesis
    using same_routes_trans [OF t2] by (auto simp: route after_first_call_def Let_def)
qed

lemma keyed_call_first:
  assumes req: "keyed_request x secret identity m u h body i t" and "no_redirects (ks_queue k)"
    and shown: "shows_keyed x i m u s k" and fresh: "ks_stored k = None"
  shows "\<exists>t' s'. route x (cluster_env x secret) identity m u h body (t, s) = (fst (keyed_call x i m u k), (t', s')) \<and>
    same_routes t t' \<and> shows_keyed x i m u s' (snd (keyed_call x i m u k))"
proof -
  have s: "mutation_count s = ks_count k" "fn_mutation_statuses s = ks_queue k"
    "hget (fn_records s) (ci_internal_key i) = None"
    using shown fresh by (simp_all add: shows_keyed_def)
  let ?s = "after_first_call x secret identity m u h i s"
  have "fst (keyed_call x i m u k) = mark_response
      (if is_cacheable_idempotent_response (next_status (ks_queue k)) then ''stored'' else ''not_stored'')
      (mutation_captured x m u (next_status (ks_queue k)) (Suc (ks_count k)))"
    using fresh by (simp add: keyed_call_def Let_def)
  moreover have "shows_keyed x i m u ?s (snd (keyed_call x i m u k))"
    using fresh s
    by (auto simp: keyed_call_def after_first_call_def Let_def shows_keyed_def mutation_count_def hmap_simps
        stores_mutation_def mutation_captured_def)
  ultimately show ?thesis
    using first_call [OF req, of s] assms(2) s by auto
qed

text \<open>A request whose key the node holds is answered from the record, whatever it says.\<close>

definition held_response :: "customer_idempotency \<Rightarrow> fake_record \<Rightarrow> response" where
  "held_response i r =
     (if hget (fk_metadata r) ''fingerprint'' \<noteq> Some (ci_fingerprint i)
      then idempotency_conflict ''idempotency key was already used with a different request''
      else if fk_status r = ''completed''
      then (case Option.bind (fk_result r) stored_from_value of
              Some stored \<Rightarrow>
                if st_fingerprint stored = ci_fingerprint i then into_replay_response stored
                else idempotency_unavailable ''stored response was not replayable''
            | None \<Rightarrow> idempotency_unavailable ''stored response was not replayable'')
      else in_progress_response)"

lemma held_duplicate:
  assumes "\<not> ic_claimed claim" "ic_duplicate claim" "ic_record claim = Some (json_canon (record_json r))"
  shows "response_for_duplicate_claim i claim = Some (held_response i r)"
proof -
  have "jget ''metadata'' (record_json r) = Some (JObject (map (\<lambda>(k, v). (k, JString v)) (fk_metadata r)))"
    "jget ''status'' (record_json r) = Some (JString (fk_status r))"
    "jget ''result'' (record_json r) = Some (case fk_result r of Some v \<Rightarrow> v | None \<Rightarrow> JNull)"
    by (simp_all add: record_json_def)
  moreover have "Option.bind (hget (map (\<lambda>(k, v). (k, JString v)) m) k) as_str = hget m k" for m and k :: string
    by (induction m) auto
  moreover have "stored_from_value JNull = None" by (simp add: stored_from_value_def)
  moreover have "Option.bind (map_option json_canon a) as_str = Option.bind a as_str" for a
    by (cases a) simp_all
  ultimately show ?thesis
    using assms
    by (cases "fk_result r")
      (auto simp: response_for_duplicate_claim_def held_response_def simp del: json_canon.simps
        split: option.split)
qed

lemma held_key_route:
  assumes req: "keyed_request x secret identity m u h body i t"
    and held: "hget (fn_records s) (ci_internal_key i) = Some r"
    and r: "json_text (record_json r)" "fits x (committed_json (duplicate_output (ci_internal_key i) r))"
  obtains t' where "route x (cluster_env x secret) identity m u h body (t, s) = (held_response i r, (t', s))"
    "same_routes t t'"
proof -
  note D = keyed_requestD [OF req]
  obtain t' claim where c: "claim_customer_idempotency x (cluster_env x secret) identity i (t, s) = (Inr claim, (t', s))"
    "\<not> ic_claimed claim" "ic_duplicate claim" "ic_record claim = Some (json_canon (record_json r))" "same_routes t t'"
    by (rule claim_held [OF D(1,2) held r])
  then show ?thesis
    using that held_duplicate [OF c(2-4)] by (simp add: D(5) route_with_customer_idempotency_def)
qed

lemma held_completed:
  "stores_mutation x i m u stored \<Longrightarrow> held_response i (completed_record i stored) = into_replay_response stored"
  by (auto simp: held_response_def completed_record_def claimed_record_def stored_metadata_get storedc.decode_encode
      stores_mutation_def stored_from_captured_def Let_def)

lemma keyed_call_again:
  assumes req: "keyed_request x secret identity m u h body i t"
    and shown: "shows_keyed x i m u s k" and stored: "ks_stored k = Some stored"
  shows "\<exists>t'. route x (cluster_env x secret) identity m u h body (t, s) = (into_replay_response stored, (t', s)) \<and>
    same_routes t t'"
proof -
  note D = keyed_requestD [OF req]
  have held: "hget (fn_records s) (ci_internal_key i) = Some (completed_record i stored)"
    and stores: "stores_mutation x i m u stored"
    using shown stored by (simp_all add: shows_keyed_def)
  have "json_text (record_json (completed_record i stored))"
    using json_text_record(2) [OF D(2) stored_mutation_text(1) [OF D(2) stores]] .
  moreover have "fits x (committed_json (duplicate_output (ci_internal_key i) (completed_record i stored)))"
    using D(3) stores unfolding answers_fit_def by blast
  ultimately show ?thesis
    using held_key_route [OF req held] held_completed [OF stores] by metis
qed

lemma keyed_call_step:
  assumes "keyed_request x secret identity m u h body i t" "no_redirects (ks_queue k)"
    and "shows_keyed x i m u s k"
  shows "\<exists>t' s'. route x (cluster_env x secret) identity m u h body (t, s) = (fst (keyed_call x i m u k), (t', s')) \<and>
    same_routes t t' \<and> shows_keyed x i m u s' (snd (keyed_call x i m u k))"
proof (cases "ks_stored k")
  case None
  then show ?thesis using keyed_call_first [OF assms] by blast
next
  case (Some stored)
  then show ?thesis
    using keyed_call_again [OF assms(1,3) Some] assms(3) by (auto simp: keyed_call_def)
qed

text \<open>A client that sends the same request again and again.\<close>

fun repeat_call :: "nat \<Rightarrow> ('s \<Rightarrow> response \<times> 's) \<Rightarrow> 's \<Rightarrow> response list \<times> 's" where
  "repeat_call 0 f s = ([], s)"
| "repeat_call (Suc n) f s = (let (r, s) = f s; (rs, s) = repeat_call n f s in (r # rs, s))"

lemma keyed_call_queue:
  "ks_queue (snd (keyed_call x i m u k)) \<in> {ks_queue k, tl (ks_queue k)}"
  by (simp add: keyed_call_def Let_def split: option.split)

lemma repeat_call_refines:
  assumes "keyed_request x secret identity m u h body i t" "no_redirects (ks_queue k)"
    and "shows_keyed x i m u s k"
  shows "\<exists>t' s'. repeat_call n (route x (cluster_env x secret) identity m u h body) (t, s) =
      (fst (repeat_call n (keyed_call x i m u) k), (t', s')) \<and>
    same_routes t t' \<and> shows_keyed x i m u s' (snd (repeat_call n (keyed_call x i m u) k))"
  using assms
proof (induction n arbitrary: t s k)
  case (Suc n)
  obtain r k1 where k1: "keyed_call x i m u k = (r, k1)" by fastforce
  obtain t1 s1 where 1: "route x (cluster_env x secret) identity m u h body (t, s) = (r, (t1, s1))"
    "same_routes t t1" "shows_keyed x i m u s1 k1"
    using keyed_call_step [OF Suc.prems] unfolding k1 fst_conv snd_conv by blast
  have "no_redirects (ks_queue k1)"
    using Suc.prems(2) no_redirects_next [OF Suc.prems(2)] keyed_call_queue [of x i m u k] by (auto simp: k1)
  from Suc.IH [OF keyed_request_same_routes [OF Suc.prems(1) 1(2)] this 1(3)] obtain t' s' where
    2: "repeat_call n (route x (cluster_env x secret) identity m u h body) (t1, s1) =
      (fst (repeat_call n (keyed_call x i m u) k1), (t', s'))"
    "same_routes t1 t'" "shows_keyed x i m u s' (snd (repeat_call n (keyed_call x i m u) k1))"
    by blast
  have "repeat_call (Suc n) (keyed_call x i m u) k =
      (r # fst (repeat_call n (keyed_call x i m u) k1), snd (repeat_call n (keyed_call x i m u) k1))"
    by (simp add: k1 split_beta)
  moreover have "repeat_call (Suc n) (route x (cluster_env x secret) identity m u h body) (t, s) =
      (r # fst (repeat_call n (keyed_call x i m u) k1), (t', s'))"
    by (simp add: 1(1) 2(1))
  ultimately show ?case
    using 2(3) same_routes_trans [OF 1(2) 2(2)] by (metis fst_conv snd_conv)
qed simp

definition transient_code :: "16 word \<Rightarrow> bool" where
  "transient_code code \<longleftrightarrow> \<not> is_cacheable_idempotent_response (next_status [code])"

lemma transient_code_hd:
  "q \<noteq> [] \<Longrightarrow> transient_code (hd q) \<longleftrightarrow> \<not> is_cacheable_idempotent_response (next_status q)"
  by (cases q) (simp_all add: transient_code_def next_status_def)

lemma next_status_range: "100 \<le> next_status q \<and> next_status q < 1000"
  by (auto simp: next_status_def status_from_u16_def split: list.split option.splits if_splits)

text \<open>After a final response every call is its replay; before it, every call runs the mutation.\<close>

lemma repeat_stored:
  "ks_stored k = Some stored \<Longrightarrow>
   repeat_call n (keyed_call x i m u) k = (replicate n (into_replay_response stored), k)"
  by (induction n) (simp_all add: keyed_call_def)

definition call_sequence :: "externals \<Rightarrow> customer_idempotency \<Rightarrow> http_method \<Rightarrow> uri \<Rightarrow> nat \<Rightarrow> nat \<Rightarrow>
    16 word list \<Rightarrow> nat \<Rightarrow> response" where
  "call_sequence x i m u c d q j =
     (let n = Suc (c + min j d); captured = mutation_captured x m u (next_status (drop (min j d) q)) n
      in if j < d then mark_response ''not_stored'' captured
         else if j = d then mark_response ''stored'' captured
         else into_replay_response (stored_from_captured i captured))"

lemma repeat_keyed:
  assumes "ks_stored k = None" "d = length (takeWhile transient_code (ks_queue k))"
  shows "ks_count (snd (repeat_call n (keyed_call x i m u) k)) = ks_count k + min n (Suc d) \<and>
    fst (repeat_call n (keyed_call x i m u) k) = map (call_sequence x i m u (ks_count k) d (ks_queue k)) [0 ..< n]"
  using assms
proof (induction n arbitrary: k d)
  case (Suc n)
  let ?st = "next_status (ks_queue k)"
  have upt: "map f [0 ..< Suc n] = f 0 # map (\<lambda>j. f (Suc j)) [0 ..< n]" for f :: "nat \<Rightarrow> response"
    by (simp add: upt_conv_Cons map_Suc_upt [symmetric] comp_def del: upt_Suc)
  show ?case
  proof (cases "is_cacheable_idempotent_response ?st")
    case True
    have "d = 0"
      using True Suc.prems(2) transient_code_hd [of "ks_queue k"] by (cases "ks_queue k") auto
    then obtain k1 where k1: "keyed_call x i m u k =
        (call_sequence x i m u (ks_count k) d (ks_queue k) 0, k1)" "ks_count k1 = Suc (ks_count k)"
      "ks_stored k1 = Some (stored_from_captured i (mutation_captured x m u ?st (Suc (ks_count k))))"
      using True Suc.prems(1) by (simp add: keyed_call_def Let_def call_sequence_def)
    have "call_sequence x i m u (ks_count k) d (ks_queue k) (Suc j) =
        into_replay_response (stored_from_captured i (mutation_captured x m u ?st (Suc (ks_count k))))" for j
      by (simp add: call_sequence_def \<open>d = 0\<close> Let_def)
    then show ?thesis
      unfolding upt using k1(1,2) repeat_stored [OF k1(3), of n x i m u]
      by (simp add: \<open>d = 0\<close> map_replicate_const)
  next
    case False
    then obtain c q where q: "ks_queue k = c # q" "transient_code c"
      using transient_code_hd [of "ks_queue k"]
      by (cases "ks_queue k") (auto simp: next_status_def is_cacheable_idempotent_response_def is_server_error_def)
    then obtain d' where d: "d = Suc d'" "d' = length (takeWhile transient_code q)" using Suc.prems(2) by simp
    let ?k = "k\<lparr>ks_count := Suc (ks_count k), ks_queue := q\<rparr>"
    have "call_sequence x i m u (ks_count k) d (c # q) (Suc j) = call_sequence x i m u (Suc (ks_count k)) d' q j" for j
      by (simp add: call_sequence_def d min_def Let_def)
    moreover have "keyed_call x i m u k = (call_sequence x i m u (ks_count k) d (c # q) 0, ?k)"
      using False Suc.prems(1) by (simp add: keyed_call_def Let_def call_sequence_def q d)
    ultimately show ?thesis
      unfolding upt using Suc.IH [of ?k d'] Suc.prems(1) d by (simp add: split_beta q(1))
  qed
qed simp

section \<open>Properties\<close>

text \<open>
  C14: the load balancer with the reference node implements the specification of a keyed call.
  A request that \<^verbatim>\<open>route\<close> does not refuse gets the response of \<open>keyed_call\<close>, and the node's
  state afterwards shows the specification's: a key with a final response is answered by its
  replay and runs nothing; a key without one runs the mutation once and keeps the response if it
  is final. The routing table keeps its routes.
\<close>

theorem route_implements_keyed_call:
  assumes "keyed_request x secret identity m u h body i t" "no_redirects (ks_queue k)"
    and "shows_keyed x i m u s k"
  shows "\<exists>t' s'. route x (cluster_env x secret) identity m u h body (t, s) = (fst (keyed_call x i m u k), (t', s')) \<and>
    same_routes t t' \<and> shows_keyed x i m u s' (snd (keyed_call x i m u k))"
  by (rule keyed_call_step [OF assms])

text \<open>
  C5: retries run a mutation until it is final, and never again. A client that sends the same
  keyed request \<open>n\<close> times, to nodes whose first \<open>d\<close> scripted statuses are transient (5xx, 408 or
  429), has the mutation run exactly \<open>min n (d + 1)\<close> times: the first \<open>d\<close> answers are the
  transient ones, and all further answers have the status and the body of the first final one.
\<close>

theorem retries_run_until_final:
  assumes "keyed_request x secret identity m u h body i t" "no_redirects (fn_mutation_statuses s)"
    and "hget (fn_records s) (ci_internal_key i) = None"
    and "d = length (takeWhile transient_code (fn_mutation_statuses s))"
    and "\<And>st n. length (x_json_print x (mutation_json m (origin_uri (uri_path u) (uri_query u)) st n)) \<le> 32768"
  shows "\<exists>rs t' s'. repeat_call n (route x (cluster_env x secret) identity m u h body) (t, s) = (rs, (t', s')) \<and>
    length rs = n \<and> mutation_count s' = mutation_count s + min n (Suc d) \<and>
    (\<forall>j < n. if j < d then \<not> is_cacheable_idempotent_response (resp_status (rs ! j))
       else resp_status (rs ! j) = resp_status (rs ! d) \<and> resp_body (rs ! j) = resp_body (rs ! d) \<and>
         is_cacheable_idempotent_response (resp_status (rs ! j)))"
proof -
  let ?q = "fn_mutation_statuses s"
  let ?k = "\<lparr>ks_count = mutation_count s, ks_queue = ?q, ks_stored = None\<rparr>"
  let ?seq = "call_sequence x i m u (mutation_count s) d ?q"
  have "shows_keyed x i m u s ?k" using assms(3) by (simp add: shows_keyed_def)
  then obtain t' s' where run: "repeat_call n (route x (cluster_env x secret) identity m u h body) (t, s) =
      (map ?seq [0 ..< n], (t', s'))" "mutation_count s' = mutation_count s + min n (Suc d)"
    using repeat_call_refines [OF assms(1), of ?k s n] assms(2) repeat_keyed [of ?k d n x i m u] assms(4)
    by (auto simp: shows_keyed_def)
  have transient: "\<not> is_cacheable_idempotent_response (next_status (drop j ?q))" if "j < d" for j
  proof -
    have j: "j < length ?q" using that assms(4) length_takeWhile_le [of transient_code ?q] by simp
    have "transient_code (?q ! j)"
      using that assms(4) by (metis nth_mem set_takeWhileD takeWhile_nth)
    then show ?thesis using transient_code_hd [of "drop j ?q"] j by (simp add: hd_drop_conv_nth)
  qed
  have final: "is_cacheable_idempotent_response (next_status (drop d ?q))"
  proof (cases "d < length ?q")
    case True
    then have "\<not> transient_code (?q ! d)" using assms(4) nth_length_takeWhile by blast
    then show ?thesis using transient_code_hd [of "drop d ?q"] True by (simp add: hd_drop_conv_nth)
  next
    case False
    then show ?thesis
      by (simp add: next_status_def is_cacheable_idempotent_response_def is_server_error_def)
  qed
  let ?c = "mutation_captured x m u (next_status (drop d ?q)) (Suc (mutation_count s + d))"
  have seq: "?seq j = (if j = d then mark_response ''stored'' ?c else into_replay_response (stored_from_captured i ?c))"
    if "d \<le> j" for j
    using that by (simp add: call_sequence_def Let_def)
  have marked: "resp_status (mark_response v c) = cp_status c" "resp_body (mark_response v c) = BodyBytes (cp_body c)" for v c
    by (simp_all add: mark_response_def captured_into_response_def Let_def)
  have c: "cp_status ?c = next_status (drop d ?q)" "length (cp_body ?c) \<le> 32768"
    using assms(5) by (simp_all add: mutation_captured_def)
  have same: "resp_status (?seq j) = cp_status ?c \<and> resp_body (?seq j) = BodyBytes (cp_body ?c)" if "d \<le> j" for j
    using seq [OF that] into_replay_stored(1,2) [of ?c i] c next_status_range [of "drop d ?q"]
    by (simp add: marked)
  have early: "\<not> is_cacheable_idempotent_response (resp_status (?seq j))" if "j < d" for j
    using transient [OF that] that
    by (simp add: call_sequence_def Let_def marked) (simp add: mutation_captured_def)
  show ?thesis
    using run same early final c(1)
    by (intro exI [of _ "map ?seq [0 ..< n]"] exI [of _ t'] exI [of _ s']) (auto simp: not_less)
qed

text \<open>
  C22: a key the node holds runs nothing. Whatever the record of a request's key says, whether
  another call is running under it or has completed it, the request ends with its claim: the
  node's state stays as it is, and the answer is

    \<^item> 409 conflict, if the record is of another request;
    \<^item> 409 in progress, if it is of this request and not completed;
    \<^item> for a completed record with a readable response to this request, the replay of its status, body
      and mark, or 409 replay unavailable if only a part of the body was stored or the stored body is
      corrupt;
    \<^item> 503 idempotency unavailable, if the completed record has no result, one that cannot be read, or the
      response to another request.
\<close>

theorem held_key_runs_nothing:
  assumes "keyed_request x secret identity m u h body i t"
    and "hget (fn_records s) (ci_internal_key i) = Some r"
    and "json_text (record_json r)" "fits x (committed_json (duplicate_output (ci_internal_key i) r))"
  shows "\<exists>resp t'. route x (cluster_env x secret) identity m u h body (t, s) = (resp, (t', s)) \<and>
    same_routes t t' \<and>
    (if hget (fk_metadata r) ''fingerprint'' \<noteq> Some (ci_fingerprint i)
     then resp = idempotency_conflict ''idempotency key was already used with a different request'' \<and>
       resp_status resp = 409
     else if fk_status r \<noteq> ''completed'' then resp = in_progress_response \<and> resp_status resp = 409
     else case Option.bind (fk_result r) stored_from_value of
       None \<Rightarrow> resp = idempotency_unavailable ''stored response was not replayable'' \<and> resp_status resp = 503
     | Some stored \<Rightarrow>
         if st_fingerprint stored \<noteq> ci_fingerprint i
         then resp = idempotency_unavailable ''stored response was not replayable'' \<and> resp_status resp = 503
         else if st_truncated stored
         then resp = replay_unavailable ''stored response exceeded the replay body limit'' \<and> resp_status resp = 409
         else case hex_to_bytes (st_body_hex stored) of
           None \<Rightarrow> resp = replay_unavailable ''stored response body failed to decode'' \<and> resp_status resp = 409
         | Some b \<Rightarrow> resp_body resp = BodyBytes b \<and>
             resp_status resp = (if unat (st_status stored) \<in> {100 ..< 1000} then unat (st_status stored) else 200) \<and>
             header_get (resp_headers resp) ''idempotent-replayed'' = Some ''true'')"
proof -
  obtain t' where "route x (cluster_env x secret) identity m u h body (t, s) = (held_response i r, (t', s))"
    "same_routes t t'"
    using held_key_route [OF assms] .
  moreover have "resp_status (idempotency_conflict d) = 409" "resp_status in_progress_response = 409"
    "resp_status (idempotency_unavailable d) = 503" "resp_status (replay_unavailable d) = 409" for d
    by (simp_all add: idempotency_conflict_def in_progress_response_def idempotency_unavailable_def
        replay_unavailable_def error_response_def json_response_def Let_def)
  ultimately show ?thesis
    by (intro exI [of _ "held_response i r"] exI [of _ t'])
      (auto simp: held_response_def into_replay_response_def Let_def status_from_u16_def header_get_insert
        idempotency_replayed_header_def fiducia_idempotency_header_def split: option.split)
qed

section \<open>Witnesses\<close>

text \<open>The cluster of the tests at one address, with the sample codec for JSON.\<close>

definition sample_cluster_x :: externals where
  "sample_cluster_x = sample_externals
     \<lparr>x_json_parse := (\<lambda>bs. map_option (json_canon \<circ> fst) (sample_parse (length bs) bs)),
      x_json_print := sample_print\<rparr>"

definition sample_cluster :: "route_table \<times> fake_node" where
  "sample_cluster = fake_cluster sample_cluster_x ''a:1''"

lemma routable_of_inv:
  assumes "table_inv x t" "rt_nodes t \<noteq> []" "0 < rt_shard_count t"
    and "\<And>key. x_shard_for x key (rt_shard_count t) < rt_shard_count t"
  shows "routable x t"
  using assms unfolding routable_def table_inv_def by blast

lemma sample_cluster_nodes:
  "rt_nodes (fst sample_cluster) = [''http://a:1'']" "rt_shard_count (fst sample_cluster) = 4"
proof -
  have "seed_nodes sample_cluster_x [] [''http://'' @ ''a:1''] = [''http://a:1'']"
    by code_simp
  then show "rt_nodes (fst sample_cluster) = [''http://a:1'']" "rt_shard_count (fst sample_cluster) = 4"
    by (simp_all add: sample_cluster_def fake_cluster_def table_new_def Let_def)
qed

lemma sample_serde: "serde_laws sample_cluster_x" "propose_laws sample_cluster_x"
  by (simp_all add: serde_laws_def propose_laws_def sample_cluster_x_def sample_externals_def
      option.map_comp [symmetric] jsonc.decode_encode)

lemma sample_cluster_urls:
  "list_all (\<lambda>path. upstream_url sample_cluster_x ''http://a:1'' (origin_uri path None) = Some (''http://a:1'' @ path) \<and>
     map_option url_query (sample_url_parse (''http://a:1'' @ path)) = Some None) sample_paths"
  by code_simp

lemma sample_cluster_ok: "cluster_ok sample_cluster_x (Some ''s'') (Some sample_identity) sample_kv (fst sample_cluster)"
proof -
  have "table_inv sample_cluster_x (fst sample_cluster)"
    by (simp add: sample_cluster_def fake_cluster_def table_inv_new)
  moreover have "of_nat (length key) mod (4 :: u32) < 4" for key :: string
    by (simp add: word_mod_less_divisor)
  ultimately have "routable sample_cluster_x (fst sample_cluster)"
    by (intro routable_of_inv) (simp_all add: sample_cluster_nodes, simp add: sample_cluster_x_def sample_externals_def)
  moreover have "reachable_at sample_cluster_x (origin_uri path None) ''http://a:1''" if "path \<in> set sample_paths" for path
    using sample_cluster_urls that
    by (auto simp: list_all_iff reachable_at_def sample_cluster_x_def sample_externals_def)
  moreover have "list_all (\<lambda>(_, v). header_value_ok v) (identity_headers (Some sample_identity) @ secret_headers (Some ''s''))"
    by code_simp
  ultimately show ?thesis
    by (simp add: cluster_ok_def sample_serde sample_cluster_nodes claim_uri_def complete_uri_def abandon_uri_def
        sample_paths_def)
qed

lemma length_print_str [simp]: "length (print_str s) = 2 * length s + 1"
  by (simp add: print_str_def length_concat comp_def sum_list_triv as_bytes_def)

lemma length_to_hex: "length (to_hex bs) = 2 * length bs"
  by (induction bs) (simp_all add: to_hex_Cons, simp add: to_hex_def)

lemma sample_record_size: "length (sample_print (record_json (claimed_record sample_key))) < 2000"
  by code_simp

lemma canon_stored:
  "json_canon (stored_to_value s) = JObject
     [(''body_hex'', JString (st_body_hex s)),
      (''content_type'', case st_content_type s of Some t \<Rightarrow> JString t | None \<Rightarrow> JNull),
      (''fingerprint'', JString (st_fingerprint s)), (''status'', JUint (ucast (st_status s))),
      (''truncated'', JBool (st_truncated s))]"
proof -
  have "sort [''fingerprint'', ''status'', ''content_type'', ''body_hex'', ''truncated''] =
      [''body_hex'', ''content_type'', ''fingerprint'', ''status'', ''truncated'']"
    by code_simp
  then show ?thesis by (simp add: stored_to_value_def canon_fields_def split: option.split)
qed

lemma sample_mutation_size: "length (sample_print (mutation_json PUT sample_kv st n)) \<le> 300"
proof -
  have "request_target sample_kv = ''/v1/kv''"
    by (simp add: request_target_def uri_path_and_query_def origin_uri_def)
  then show ?thesis by (simp add: mutation_json_def length_print_bits)
qed

lemma sample_completed_size:
  assumes "stores_mutation sample_cluster_x sample_key PUT sample_kv stored"
  shows "length (sample_print (record_json (completed_record sample_key stored))) < 6000"
proof -
  obtain st n where stored: "stored = stored_from_captured sample_key (mutation_captured sample_cluster_x PUT sample_kv st n)"
    using assms unfolding stores_mutation_def by blast
  have "length (st_body_hex stored) \<le> 600"
    using sample_mutation_size [of st n]
    by (simp add: stored stored_from_captured_def Let_def length_to_hex max_replay_body_bytes_def mutation_captured_def
        sample_cluster_x_def)
  moreover have "length (ci_fingerprint sample_key) < 100" by code_simp
  moreover have "st_fingerprint stored = ci_fingerprint sample_key" "st_content_type stored = Some ''application/json''"
    by (simp_all add: stored stored_from_captured_def Let_def mutation_captured_def header_get_def header_to_str_def)
  ultimately have result: "length (sample_print (json_canon (stored_to_value stored))) < 2000"
    by (simp add: canon_stored length_print_bits)
  have "length (sample_print (record_json (completed_record sample_key stored))) <
      length (sample_print (record_json (claimed_record sample_key))) +
      length (sample_print (json_canon (stored_to_value stored))) + 100"
    by (simp add: record_json_def completed_record_def claimed_record_def)
  then show ?thesis using result sample_record_size by linarith
qed

lemma sample_record_depth:
  "json_depth (record_json (claimed_record sample_key)) \<le> 100"
  "json_depth (record_json (completed_record sample_key stored)) \<le> 100"
proof -
  have fields: "fold max (map (snd \<circ> (map_prod id json_depth \<circ> (\<lambda>(k, v). (k, JString v)))) m) 0 = 0" for m :: "(string \<times> string) list"
    by (induction m) auto
  show "json_depth (record_json (claimed_record sample_key)) \<le> 100"
    "json_depth (record_json (completed_record sample_key stored)) \<le> 100"
    using fields
    by (simp_all add: record_json_def claimed_record_def completed_record_def canon_stored split: option.split)
qed

lemma sample_output_size:
  assumes "length (sample_print (record_json r)) < 6000" "json_depth (record_json r) \<le> 100"
  shows "fits sample_cluster_x (committed_json (claimed_output (ci_internal_key sample_key) r))"
    "fits sample_cluster_x (committed_json (completed_output (ci_internal_key sample_key) r))"
    "fits sample_cluster_x (committed_json (duplicate_output (ci_internal_key sample_key) r))"
    "fits sample_cluster_x (committed_json (abandon_output None (ci_internal_key sample_key)))"
proof -
  have "length (ci_internal_key sample_key) < 100" by code_simp
  with assms show "fits sample_cluster_x (committed_json (claimed_output (ci_internal_key sample_key) r))"
    "fits sample_cluster_x (committed_json (completed_output (ci_internal_key sample_key) r))"
    "fits sample_cluster_x (committed_json (duplicate_output (ci_internal_key sample_key) r))"
    "fits sample_cluster_x (committed_json (abandon_output None (ci_internal_key sample_key)))"
    by (simp_all add: fits_def sample_cluster_x_def committed_json_def claimed_output_def completed_output_def
        duplicate_output_def abandon_output_def length_print_bits)
qed

lemma sample_answers_fit: "answers_fit sample_cluster_x sample_key PUT sample_kv"
proof -
  have "fits sample_cluster_x (mutation_json PUT (origin_uri (uri_path sample_kv) (uri_query sample_kv)) st n)" for st n
    using sample_mutation_size [of st n]
    by (simp add: fits_def sample_cluster_x_def) (simp add: mutation_json_def)
  then show ?thesis
    using sample_output_size sample_completed_size sample_record_size sample_record_depth
      sample_output_size(4) [of "claimed_record sample_key"]
    by (simp add: answers_fit_def)
qed

lemma sample_keyed_request:
  "keyed_request sample_cluster_x (Some ''s'') (Some sample_identity) PUT sample_kv sample_keyed [] sample_key
     (fst sample_cluster)"
proof -
  have "from_request sample_cluster_x (Some sample_identity) PUT sample_kv sample_keyed [] = Inr (Some sample_key)"
    by (auto simp: from_request_Some sample_carried_key method_supports_customer_idempotency_def
        is_idempotency_primitive_def starts_with_def sample_key_def idempotency_for_def sha256_hex_def
        request_fingerprint_def sample_cluster_x_def)
  moreover have "\<not> path_has_dot_segment ''/v1/kv''" by (simp add: path_has_dot_segment_def to_ascii_lowercase_def)
  moreover have "request_target sample_kv = ''/v1/kv''"
    by (simp add: request_target_def uri_path_and_query_def origin_uri_def)
  moreover have "valid_utf8 ''/v1/kv''" by (simp add: is_ascii_valid_utf8 is_ascii_def)
  ultimately show ?thesis
    by (simp add: keyed_request_def sample_identity_authorized sample_cluster_ok sample_answers_fit)
      (simp add: origin_uri_def)
qed

text \<open>The nodes are scripted to fail once with 503; the client calls three times.\<close>

definition sample_failing :: fake_node where
  "sample_failing = queue_mutation_status 503 fake_node_default"

lemma sample_failing_simps:
  "fn_mutation_statuses sample_failing = [503]" "fn_records sample_failing = []" "mutation_count sample_failing = 0"
  by (simp_all add: sample_failing_def queue_mutation_status_def fake_node_default_def mutation_count_def)

lemma sample_failing_codes:
  "no_redirects [503]" "transient_code 503"
  by code_simp+

theorem retries_run_until_final_witness:
  "\<exists>rs t' s'. repeat_call 3 (route sample_cluster_x (cluster_env sample_cluster_x (Some ''s'')) (Some sample_identity)
       PUT sample_kv sample_keyed []) (fst sample_cluster, sample_failing) = (rs, (t', s')) \<and>
     mutation_count s' = 2 \<and> resp_body (rs ! 2) = resp_body (rs ! 1)"
proof -
  have size: "length (x_json_print sample_cluster_x
      (mutation_json PUT (origin_uri (uri_path sample_kv) (uri_query sample_kv)) st n)) \<le> 32768" for st n
    using sample_mutation_size [of st n] by (simp add: sample_cluster_x_def)
  have node: "no_redirects (fn_mutation_statuses sample_failing)"
    "hget (fn_records sample_failing) (ci_internal_key sample_key) = None"
    "1 = length (takeWhile transient_code (fn_mutation_statuses sample_failing))"
    by (simp_all add: sample_failing_simps sample_failing_codes)
  note run = retries_run_until_final [OF sample_keyed_request node size, where n = 3]
  then show ?thesis
  proof (elim exE conjE)
    fix rs t' s'
    assume calls: "repeat_call 3 (route sample_cluster_x (cluster_env sample_cluster_x (Some ''s'')) (Some sample_identity)
        PUT sample_kv sample_keyed []) (fst sample_cluster, sample_failing) = (rs, (t', s'))"
      and n: "mutation_count s' = mutation_count sample_failing + min 3 (Suc 1)"
      and each: "\<forall>j < 3. if j < 1 then \<not> is_cacheable_idempotent_response (resp_status (rs ! j))
         else resp_status (rs ! j) = resp_status (rs ! 1) \<and> resp_body (rs ! j) = resp_body (rs ! 1) \<and>
           is_cacheable_idempotent_response (resp_status (rs ! j))"
    have "mutation_count s' = 2" using n by (simp add: sample_failing_simps)
    moreover have "resp_body (rs ! 2) = resp_body (rs ! 1)" using spec [OF each, of 2] by simp
    ultimately show ?thesis using calls by (intro exI conjI)
  qed
qed

theorem route_implements_keyed_call_witness:
  "\<exists>r t' s'. route sample_cluster_x (cluster_env sample_cluster_x (Some ''s'')) (Some sample_identity)
       PUT sample_kv sample_keyed [] (fst sample_cluster, sample_failing) = (r, (t', s')) \<and>
     resp_status r = 503 \<and> mutation_count s' = 1"
proof -
  let ?k = "\<lparr>ks_count = 0, ks_queue = [503], ks_stored = None\<rparr>"
  have "shows_keyed sample_cluster_x sample_key PUT sample_kv sample_failing ?k"
    by (simp add: shows_keyed_def sample_failing_simps)
  moreover have "next_status [503] = 503" by code_simp
  moreover have "\<not> is_cacheable_idempotent_response 503" by code_simp
  ultimately show ?thesis
    using route_implements_keyed_call [OF sample_keyed_request, of ?k sample_failing] sample_failing_codes(1)
    by (auto simp: keyed_call_def Let_def shows_keyed_def mark_response_def captured_into_response_def
        mutation_captured_def)
qed

theorem held_key_runs_nothing_witness:
  "let s = fake_node_default\<lparr>fn_records := [(ci_internal_key sample_key, claimed_record sample_key)]\<rparr> in
   \<exists>t'. route sample_cluster_x (cluster_env sample_cluster_x (Some ''s'')) (Some sample_identity)
       PUT sample_kv sample_keyed [] (fst sample_cluster, s) = (in_progress_response, (t', s))"
proof -
  let ?s = "fake_node_default\<lparr>fn_records := [(ci_internal_key sample_key, claimed_record sample_key)]\<rparr>"
  have "json_text (record_json (claimed_record sample_key))"
    by (rule json_text_record(1) [OF keyed_requestD(2) [OF sample_keyed_request]])
  moreover have "fits sample_cluster_x (committed_json (duplicate_output (ci_internal_key sample_key) (claimed_record sample_key)))"
    using sample_record_size sample_record_depth(1) by (intro sample_output_size) simp_all
  ultimately show ?thesis
    using held_key_runs_nothing [OF sample_keyed_request, of ?s "claimed_record sample_key"]
    by (auto simp: claimed_record_def stored_metadata_get)
qed

end
