(* ===== verification/Interleaving.thy ===== *)
theory Interleaving
  imports Cluster
begin

text \<open>
  Keyed requests that run at the same time. \<open>keyed_phase\<close> cuts \<open>route_with_customer_idempotency\<close>
  at its exchanges with the nodes (\<open>task_step\<close>; \<open>phases_compose\<close> shows that the pieces are the
  function), so that the requests of any number of clients interleave at the nodes
  (\<open>keyed_step\<close>); a client that goes away drops its request at any exchange. The nodes are the
  reference node of the theory \<open>Cluster\<close>.
\<close>

section \<open>One request in phases\<close>

datatype keyed_phase = Claiming | Running u64 | Settling u64 response | Finished response

record keyed_task =
  kt_identity :: "verified_identity option"
  kt_method :: http_method
  kt_uri :: uri
  kt_headers :: header_map
  kt_body :: bytes
  kt_key :: customer_idempotency
  kt_phase :: keyed_phase

definition claimed_phase :: "customer_idempotency \<Rightarrow> response + idempotency_claim \<Rightarrow> keyed_phase" where
  "claimed_phase i a =
     (case a of
        Inl resp \<Rightarrow> Finished resp
      | Inr claim \<Rightarrow>
          (case response_for_duplicate_claim i claim of
             Some resp \<Rightarrow> Finished resp
           | None \<Rightarrow>
               (case ic_fencing_token claim of
                  None \<Rightarrow> Finished (idempotency_unavailable ''claim did not return a fencing token'')
                | Some token \<Rightarrow> Running token)))"

definition task_step :: "externals \<Rightarrow> 'w forward_env \<Rightarrow> keyed_task \<Rightarrow> route_table \<times> 'w \<Rightarrow>
    keyed_phase \<times> (route_table \<times> 'w)" where
  "task_step x env tk st =
     (case kt_phase tk of
        Claiming \<Rightarrow> map_prod (claimed_phase (kt_key tk)) id
          (claim_customer_idempotency x env (kt_identity tk) (kt_key tk) st)
      | Running token \<Rightarrow> map_prod (Settling token) id
          (route_without_customer_idempotency x env (kt_identity tk) (kt_method tk) (kt_uri tk)
            (kt_headers tk) (kt_body tk) st)
      | Settling token resp \<Rightarrow> map_prod Finished id
          (settle_claim x env (kt_identity tk) (kt_key tk) token resp st)
      | Finished resp \<Rightarrow> (Finished resp, st))"

fun task_steps :: "nat \<Rightarrow> externals \<Rightarrow> 'w forward_env \<Rightarrow> keyed_task \<Rightarrow> route_table \<times> 'w \<Rightarrow>
    keyed_phase \<times> (route_table \<times> 'w)" where
  "task_steps 0 x env tk st = (kt_phase tk, st)"
| "task_steps (Suc n) x env tk st =
     (case task_step x env tk st of (ph, st) \<Rightarrow> task_steps n x env (tk\<lparr>kt_phase := ph\<rparr>) st)"

section \<open>Many requests\<close>

record cluster_state =
  cl_table :: route_table
  cl_node :: fake_node
  cl_tasks :: "(nat, keyed_task) hmap"

definition admitted :: "externals \<Rightarrow> string option \<Rightarrow> route_table \<Rightarrow> keyed_task \<Rightarrow> bool" where
  "admitted x secret t tk \<longleftrightarrow>
     keyed_request x secret (kt_identity tk) (kt_method tk) (kt_uri tk) (kt_headers tk) (kt_body tk) (kt_key tk) t"

inductive keyed_step :: "externals \<Rightarrow> string option \<Rightarrow> cluster_state \<Rightarrow> cluster_state \<Rightarrow> bool"
  for x secret where
  ks_arrive: "hget (cl_tasks c) n = None \<Longrightarrow> kt_phase tk = Claiming \<Longrightarrow> admitted x secret (cl_table c) tk \<Longrightarrow>
    keyed_step x secret c (c\<lparr>cl_tasks := hinsert n tk (cl_tasks c)\<rparr>)"
| ks_move: "hget (cl_tasks c) n = Some tk \<Longrightarrow>
    task_step x (cluster_env x secret) tk (cl_table c, cl_node c) = (ph, (t, s)) \<Longrightarrow>
    keyed_step x secret c
      \<lparr>cl_table = t, cl_node = s, cl_tasks = hinsert n (tk\<lparr>kt_phase := ph\<rparr>) (cl_tasks c)\<rparr>"
| ks_drop: "hget (cl_tasks c) n = Some tk \<Longrightarrow>
    keyed_step x secret c (c\<lparr>cl_tasks := hremove n (cl_tasks c)\<rparr>)"

definition keyed_init :: "cluster_state \<Rightarrow> bool" where
  "keyed_init c \<longleftrightarrow> cl_tasks c = [] \<and> fn_records (cl_node c) = [] \<and> no_redirects (fn_mutation_statuses (cl_node c))"

text \<open>
  A task holds its key while it runs under it, and for good once its response was stored.
\<close>

definition holds_key :: "keyed_task \<Rightarrow> bool" where
  "holds_key tk \<longleftrightarrow>
     (case kt_phase tk of Running _ \<Rightarrow> True | Settling _ _ \<Rightarrow> True
      | Finished r \<Rightarrow> header_get (resp_headers r) ''x-fiducia-idempotency'' = Some ''stored''
      | Claiming \<Rightarrow> False)"

section \<open>The pieces compose to the code's function\<close>

text \<open>
  Cutting the protocol at its exchanges changes nothing. The three pieces of a keyed
  request, run one after the other, give the response and the state of
  \<^verbatim>\<open>route_with_customer_idempotency\<close>.
\<close>

lemma phases_compose:
  assumes "kt_phase tk = Claiming"
  shows "task_steps 3 x env tk st = map_prod Finished id
    (route_with_customer_idempotency x env (kt_identity tk) (kt_method tk) (kt_uri tk) (kt_headers tk)
      (kt_body tk) (kt_key tk) st)"
  by (simp add: eval_nat_numeral task_step_def assms claimed_phase_def route_with_customer_idempotency_def
      split: prod.split sum.split option.split)

section \<open>The invariant\<close>

definition record_ok :: "externals \<Rightarrow> string \<Rightarrow> fake_record \<Rightarrow> bool" where
  "record_ok x k r \<longleftrightarrow> json_text (record_json r) \<and> fits x (committed_json (duplicate_output k r))"

text \<open>What the node's record says while a task holds its key.\<close>

definition backs :: "externals \<Rightarrow> fake_node \<Rightarrow> keyed_task \<Rightarrow> bool" where
  "backs x s tk \<longleftrightarrow>
     (case kt_phase tk of
        Claiming \<Rightarrow> True
      | Running token \<Rightarrow> token = 99 \<and> hget (fn_records s) (ci_internal_key (kt_key tk)) = Some (claimed_record (kt_key tk))
      | Settling token r \<Rightarrow> token = 99 \<and> hget (fn_records s) (ci_internal_key (kt_key tk)) = Some (claimed_record (kt_key tk)) \<and>
          (\<exists>st n. r = served x st (mutation_json (kt_method tk)
             (origin_uri (uri_path (kt_uri tk)) (uri_query (kt_uri tk))) st n))
      | Finished r \<Rightarrow> holds_key tk \<longrightarrow>
          (\<exists>stored. hget (fn_records s) (ci_internal_key (kt_key tk)) = Some (completed_record (kt_key tk) stored)))"

definition keyed_inv :: "externals \<Rightarrow> string option \<Rightarrow> cluster_state \<Rightarrow> bool" where
  "keyed_inv x secret c \<longleftrightarrow>
     no_redirects (fn_mutation_statuses (cl_node c)) \<and>
     (\<forall>k r. hget (fn_records (cl_node c)) k = Some r \<longrightarrow> record_ok x k r) \<and>
     (\<forall>n tk. hget (cl_tasks c) n = Some tk \<longrightarrow> admitted x secret (cl_table c) tk \<and> backs x (cl_node c) tk) \<and>
     (\<forall>n n' tk tk'. hget (cl_tasks c) n = Some tk \<longrightarrow> hget (cl_tasks c) n' = Some tk' \<longrightarrow>
        holds_key tk \<longrightarrow> holds_key tk' \<longrightarrow>
        ci_internal_key (kt_key tk) = ci_internal_key (kt_key tk') \<longrightarrow> n = n')"

lemma header_get_error: "header_get (resp_headers (error_response st e d)) n =
    (if n = ''content-type'' then Some ''application/json'' else None)"
  by (simp add: error_response_def json_response_def header_get_def)

lemma held_response_not_stored:
  "header_get (resp_headers (held_response i r)) ''x-fiducia-idempotency'' \<noteq> Some ''stored''"
proof -
  have "header_get (resp_headers (into_replay_response s)) ''x-fiducia-idempotency'' \<noteq> Some ''stored''" for s
    by (simp add: into_replay_response_def replay_unavailable_def header_get_error header_get_insert Let_def
        fiducia_idempotency_header_def split: option.split)
  then show ?thesis
    by (simp add: held_response_def idempotency_conflict_def idempotency_unavailable_def header_get_error
        in_progress_response_def Let_def header_get_insert split: option.split)
qed

lemma mark_response_header:
  "header_get (resp_headers (mark_response v c)) ''x-fiducia-idempotency'' = Some v"
  by (simp add: mark_response_def captured_into_response_def Let_def header_get_insert fiducia_idempotency_header_def)

text \<open>What one step of a task does to the node and to its own hold on the key.\<close>

definition step_effect :: "externals \<Rightarrow> route_table \<times> fake_node \<Rightarrow> keyed_task \<Rightarrow> keyed_task \<Rightarrow> route_table \<times> fake_node \<Rightarrow> bool" where
  "step_effect x st tk tk' st' \<longleftrightarrow>
     (case (st, st') of ((t, s), (t', s')) \<Rightarrow>
        same_routes t t' \<and> no_redirects (fn_mutation_statuses s') \<and>
        (\<forall>k r. hget (fn_records s') k = Some r \<longrightarrow> record_ok x k r) \<and>
        (\<forall>k. k \<noteq> ci_internal_key (kt_key tk) \<longrightarrow> hget (fn_records s') k = hget (fn_records s) k) \<and>
        (holds_key tk \<or> hget (fn_records s) (ci_internal_key (kt_key tk)) = None \<or>
           \<not> holds_key tk' \<and> fn_records s' = fn_records s) \<and>
        backs x s' tk')"

lemma claiming_effect:
  assumes "admitted x secret t tk" "no_redirects (fn_mutation_statuses s)"
    and recs: "\<And>k r. hget (fn_records s) k = Some r \<Longrightarrow> record_ok x k r"
    and ph: "kt_phase tk = Claiming"
    and move: "task_step x (cluster_env x secret) tk (t, s) = (ph', (t', s'))"
  shows "step_effect x (t, s) tk (tk\<lparr>kt_phase := ph'\<rparr>) (t', s')"
proof -
  let ?i = "kt_key tk"
  note req = assms(1) [unfolded admitted_def] and D = keyed_requestD [OF assms(1) [unfolded admitted_def]]
  show ?thesis
  proof (cases "hget (fn_records s) (ci_internal_key ?i)")
    case None
    have fit: "fits x (committed_json (claimed_output (ci_internal_key ?i) (claimed_record ?i)))"
      "fits x (committed_json (duplicate_output (ci_internal_key ?i) (claimed_record ?i)))"
      using D(3) by (simp_all add: answers_fit_def)
    obtain t1 claim where c: "claim_customer_idempotency x (cluster_env x secret) (kt_identity tk) ?i (t, s) =
        (Inr claim, (t1, s\<lparr>fn_records := hinsert (ci_internal_key ?i) (claimed_record ?i) (fn_records s)\<rparr>))"
      "ic_claimed claim" "ic_fencing_token claim = Some 99" "same_routes t t1"
      by (rule claim_free [OF D(1,2) None fit(1)])
    then have "ph' = Running 99" "t' = t1"
      "s' = s\<lparr>fn_records := hinsert (ci_internal_key ?i) (claimed_record ?i) (fn_records s)\<rparr>"
      using move granted_claim [of ?i claim] by (auto simp: task_step_def ph claimed_phase_def)
    then show ?thesis
      using c(4) None assms(2) recs json_text_record(1) [OF D(2)] fit(2)
      by (auto simp: step_effect_def backs_def hmap_simps record_ok_def)
  next
    case (Some r)
    have r: "json_text (record_json r)" "fits x (committed_json (duplicate_output (ci_internal_key ?i) r))"
      using recs [OF Some] by (simp_all add: record_ok_def)
    obtain t1 claim where c: "claim_customer_idempotency x (cluster_env x secret) (kt_identity tk) ?i (t, s) = (Inr claim, (t1, s))"
      "\<not> ic_claimed claim" "ic_duplicate claim" "ic_record claim = Some (json_canon (record_json r))" "same_routes t t1"
      by (rule claim_held [OF D(1,2) Some r])
    then have "ph' = Finished (held_response ?i r)" "t' = t1" "s' = s"
      using move held_duplicate [OF c(2-4), of ?i] by (auto simp: task_step_def ph claimed_phase_def)
    then show ?thesis
      using c(5) assms(2) recs held_response_not_stored [of ?i r]
      by (auto simp: step_effect_def backs_def holds_key_def)
  qed
qed

lemma running_effect:
  assumes "admitted x secret t tk" "no_redirects (fn_mutation_statuses s)"
    and recs: "\<And>k r. hget (fn_records s) k = Some r \<Longrightarrow> record_ok x k r"
    and ph: "kt_phase tk = Running token" and shown: "backs x s tk"
    and move: "task_step x (cluster_env x secret) tk (t, s) = (ph', (t', s'))"
  shows "step_effect x (t, s) tk (tk\<lparr>kt_phase := ph'\<rparr>) (t', s')"
proof -
  note req = assms(1) [unfolded admitted_def]
  obtain t1 where "route_without_customer_idempotency x (cluster_env x secret) (kt_identity tk) (kt_method tk)
      (kt_uri tk) (kt_headers tk) (kt_body tk) (t, s) =
      (served x (next_status (fn_mutation_statuses s))
         (mutation_json (kt_method tk) (origin_uri (uri_path (kt_uri tk)) (uri_query (kt_uri tk)))
           (next_status (fn_mutation_statuses s)) (Suc (mutation_count s))),
       (t1, s\<lparr>fn_mutations := fn_mutations s @ [wire_headers secret (kt_identity tk) (kt_headers tk)],
          fn_mutation_statuses := tl (fn_mutation_statuses s)\<rparr>))"
    "same_routes t t1"
    by (rule run_mutation [OF req assms(2)])
  then show ?thesis
    using move shown recs no_redirects_next [OF assms(2)]
    by (auto simp: task_step_def ph step_effect_def backs_def holds_key_def) (intro exI, rule refl)
qed

lemma settling_effect:
  assumes "admitted x secret t tk" "no_redirects (fn_mutation_statuses s)"
    and recs: "\<And>k r. hget (fn_records s) k = Some r \<Longrightarrow> record_ok x k r"
    and ph: "kt_phase tk = Settling token r" and shown: "backs x s tk"
    and move: "task_step x (cluster_env x secret) tk (t, s) = (ph', (t', s'))"
  shows "step_effect x (t, s) tk (tk\<lparr>kt_phase := ph'\<rparr>) (t', s')"
proof -
  let ?i = "kt_key tk" and ?m = "kt_method tk" and ?u = "kt_uri tk"
  note req = assms(1) [unfolded admitted_def] and D = keyed_requestD [OF assms(1) [unfolded admitted_def]]
  obtain st n where r: "token = 99" "r = served x st (mutation_json ?m (origin_uri (uri_path ?u) (uri_query ?u)) st n)"
    "hget (fn_records s) (ci_internal_key ?i) = Some (claimed_record ?i)"
    using shown by (auto simp: backs_def ph)
  let ?c = "mutation_captured x ?m ?u st n"
  have stores: "stores_mutation x ?i ?m ?u (stored_from_captured ?i ?c)" unfolding stores_mutation_def by blast
  then have ok: "record_ok x (ci_internal_key ?i) (completed_record ?i (stored_from_captured ?i ?c))"
    using D(3) json_text_record(2) [OF D(2) stored_mutation_text(1) [OF D(2) stores]]
    unfolding answers_fit_def record_ok_def by blast
  obtain t1 where settled: "settle_claim x (cluster_env x secret) (kt_identity tk) ?i 99 r (t, s) =
       (if is_cacheable_idempotent_response st
        then (mark_response ''stored'' ?c,
          (t1, s\<lparr>fn_records := hinsert (ci_internal_key ?i) (completed_record ?i (stored_from_captured ?i ?c)) (fn_records s)\<rparr>))
        else (mark_response ''not_stored'' ?c,
          (t1, s\<lparr>fn_records := hremove (ci_internal_key ?i) (fn_records s),
             fn_abandons := fn_abandons s @ [ci_internal_key ?i]\<rparr>)))" "same_routes t t1"
    unfolding r(2) by (rule settle_cluster [OF req r(3)])
  have holds: "holds_key tk" by (simp add: holds_key_def ph)
  show ?thesis
  proof (cases "is_cacheable_idempotent_response st")
    case True
    then have "ph' = Finished (mark_response ''stored'' ?c)" "t' = t1"
      "s' = s\<lparr>fn_records := hinsert (ci_internal_key ?i) (completed_record ?i (stored_from_captured ?i ?c)) (fn_records s)\<rparr>"
      using move settled(1) by (auto simp: task_step_def ph r(1))
    then show ?thesis
      using settled(2) assms(2) recs ok holds by (auto simp: step_effect_def backs_def hmap_simps)
  next
    case False
    then have "ph' = Finished (mark_response ''not_stored'' ?c)" "t' = t1"
      "s' = s\<lparr>fn_records := hremove (ci_internal_key ?i) (fn_records s), fn_abandons := fn_abandons s @ [ci_internal_key ?i]\<rparr>"
      using move settled(1) by (auto simp: task_step_def ph r(1))
    then show ?thesis
      using settled(2) assms(2) recs holds
      by (auto simp: step_effect_def backs_def hmap_simps holds_key_def mark_response_header)
  qed
qed

lemma task_step_effect:
  assumes "admitted x secret t tk" "no_redirects (fn_mutation_statuses s)"
    and "\<And>k r. hget (fn_records s) k = Some r \<Longrightarrow> record_ok x k r" "backs x s tk"
    and "task_step x (cluster_env x secret) tk (t, s) = (ph, (t', s'))"
  shows "step_effect x (t, s) tk (tk\<lparr>kt_phase := ph\<rparr>) (t', s')"
proof (cases "kt_phase tk")
  case Claiming
  then show ?thesis using claiming_effect [OF assms(1-3) _ assms(5)] by simp
next
  case (Running token)
  then show ?thesis using running_effect [OF assms(1-3) _ assms(4,5)] by simp
next
  case (Settling token r)
  then show ?thesis using settling_effect [OF assms(1-3) _ assms(4,5)] by simp
next
  case (Finished r)
  then have "ph = kt_phase tk" "t' = t" "s' = s" using assms(5) by (simp_all add: task_step_def)
  then show ?thesis
    using assms(2-4) by (auto simp: step_effect_def)
qed

text \<open>A task that holds its key has a record there, so no other task's claim of it is granted.\<close>

lemma holds_key_record:
  "backs x s tk \<Longrightarrow> holds_key tk \<Longrightarrow> hget (fn_records s) (ci_internal_key (kt_key tk)) \<noteq> None"
  by (auto simp: backs_def holds_key_def split: keyed_phase.splits)

lemma idle_backs: "\<not> holds_key tk \<Longrightarrow> backs x s tk"
  by (auto simp: backs_def holds_key_def split: keyed_phase.splits)

lemma backs_same_record:
  "backs x s tk \<Longrightarrow> hget (fn_records s') (ci_internal_key (kt_key tk)) = hget (fn_records s) (ci_internal_key (kt_key tk)) \<Longrightarrow>
   backs x s' tk"
  by (auto simp: backs_def split: keyed_phase.splits)

lemma keyed_invD:
  assumes "keyed_inv x secret c"
  shows "no_redirects (fn_mutation_statuses (cl_node c))"
    "hget (fn_records (cl_node c)) k = Some r \<Longrightarrow> record_ok x k r"
    "hget (cl_tasks c) n = Some tk \<Longrightarrow> admitted x secret (cl_table c) tk"
    "hget (cl_tasks c) n = Some tk \<Longrightarrow> backs x (cl_node c) tk"
    "hget (cl_tasks c) n = Some tk \<Longrightarrow> hget (cl_tasks c) n' = Some tk' \<Longrightarrow> holds_key tk \<Longrightarrow> holds_key tk' \<Longrightarrow>
       ci_internal_key (kt_key tk) = ci_internal_key (kt_key tk') \<Longrightarrow> n = n'"
  using assms unfolding keyed_inv_def by blast+

lemma keyed_invI:
  assumes "no_redirects (fn_mutation_statuses (cl_node c))"
    and "\<And>k r. hget (fn_records (cl_node c)) k = Some r \<Longrightarrow> record_ok x k r"
    and "\<And>n tk. hget (cl_tasks c) n = Some tk \<Longrightarrow> admitted x secret (cl_table c) tk"
    and "\<And>n tk. hget (cl_tasks c) n = Some tk \<Longrightarrow> backs x (cl_node c) tk"
    and "\<And>n n' tk tk'. hget (cl_tasks c) n = Some tk \<Longrightarrow> hget (cl_tasks c) n' = Some tk' \<Longrightarrow> holds_key tk \<Longrightarrow>
      holds_key tk' \<Longrightarrow> ci_internal_key (kt_key tk) = ci_internal_key (kt_key tk') \<Longrightarrow> n = n'"
  shows "keyed_inv x secret c"
  using assms unfolding keyed_inv_def by blast

lemma admitted_same_routes:
  "admitted x secret t tk \<Longrightarrow> same_routes t t' \<Longrightarrow> admitted x secret t' tk"
  unfolding admitted_def by (rule keyed_request_same_routes)

lemma keyed_inv_move:
  assumes inv: "keyed_inv x secret c" and tk: "hget (cl_tasks c) n = Some tk"
    and move: "task_step x (cluster_env x secret) tk (cl_table c, cl_node c) = (ph, (t, s))"
  shows "keyed_inv x secret \<lparr>cl_table = t, cl_node = s, cl_tasks = hinsert n (tk\<lparr>kt_phase := ph\<rparr>) (cl_tasks c)\<rparr>"
proof -
  let ?key = "\<lambda>tk. ci_internal_key (kt_key tk)" and ?tk = "tk\<lparr>kt_phase := ph\<rparr>"
  note D = keyed_invD [OF inv]
  have eff: "same_routes (cl_table c) t" "no_redirects (fn_mutation_statuses s)"
    "\<And>k r. hget (fn_records s) k = Some r \<Longrightarrow> record_ok x k r"
    "\<And>k. k \<noteq> ?key tk \<Longrightarrow> hget (fn_records s) k = hget (fn_records (cl_node c)) k"
    "holds_key tk \<or> hget (fn_records (cl_node c)) (?key tk) = None \<or>
       \<not> holds_key ?tk \<and> fn_records s = fn_records (cl_node c)"
    "backs x s ?tk"
    using task_step_effect [OF D(3) [OF tk] D(1) D(2) D(4) [OF tk] move] by (auto simp: step_effect_def)
  have others: "backs x s tk'" "holds_key tk' \<Longrightarrow> \<not> (holds_key ?tk \<and> ?key tk' = ?key tk)"
    if tk': "hget (cl_tasks c) n' = Some tk'" "n' \<noteq> n" for n' tk'
  proof -
    have alone: "\<not> holds_key ?tk \<and> fn_records s = fn_records (cl_node c)"
      if same: "?key tk' = ?key tk" and "holds_key tk'"
      using eff(5) D(5) [OF tk tk'(1)] holds_key_record [OF D(4) [OF tk'(1)]] that tk'(2) by auto
    show "holds_key tk' \<Longrightarrow> \<not> (holds_key ?tk \<and> ?key tk' = ?key tk)" using alone by blast
    show "backs x s tk'"
    proof (cases "holds_key tk'")
      case True
      have "hget (fn_records s) (?key tk') = hget (fn_records (cl_node c)) (?key tk')"
        using alone True eff(4) by (cases "?key tk' = ?key tk") auto
      then show ?thesis by (rule backs_same_record [OF D(4) [OF tk'(1)]])
    qed (rule idle_backs)
  qed
  have "admitted x secret t tk'" if "hget (cl_tasks c) n' = Some tk'" for n' tk'
    by (rule admitted_same_routes [OF D(3) [OF that] eff(1)])
  with tk have adm: "admitted x secret t tk'" if "hget (hinsert n ?tk (cl_tasks c)) n' = Some tk'" for n' tk'
    using that by (auto simp: hmap_simps admitted_def split: if_splits)
  have backed: "backs x s tk'" if "hget (hinsert n ?tk (cl_tasks c)) n' = Some tk'" for n' tk'
    using that eff(6) others(1) [of n' tk'] by (simp add: hmap_simps split: if_splits)
  have "n1 = n2"
    if "hget (hinsert n ?tk (cl_tasks c)) n1 = Some a" "hget (hinsert n ?tk (cl_tasks c)) n2 = Some b"
      "holds_key a" "holds_key b" "?key a = ?key b" for n1 n2 a b
  proof (cases "n1 = n"; cases "n2 = n")
    assume n: "n1 \<noteq> n" "n2 \<noteq> n"
    show ?thesis using D(5) [of n1 a n2 b] that n by (simp add: hmap_simps)
  next
    assume n: "n1 = n" "n2 \<noteq> n"
    then show ?thesis using others(2) [of n2 b] that by (auto simp: hmap_simps)
  next
    assume n: "n1 \<noteq> n" "n2 = n"
    then show ?thesis using others(2) [of n1 a] that by (auto simp: hmap_simps)
  qed simp
  then show ?thesis
    by (intro keyed_invI) (auto simp only: cluster_state.simps intro: eff(2,3) adm backed)
qed

lemma keyed_inv_step:
  assumes "keyed_inv x secret c" "keyed_step x secret c c'"
  shows "keyed_inv x secret c'"
  using assms(2)
proof cases
  case (ks_arrive n tk)
  then have "\<not> holds_key tk" by (simp add: holds_key_def)
  then show ?thesis
    using assms(1) ks_arrive idle_backs
    unfolding keyed_inv_def by (auto simp: hmap_simps split: if_splits)
next
  case (ks_move n tk ph t s)
  then show ?thesis using keyed_inv_move [OF assms(1)] by simp
next
  case (ks_drop n tk)
  then show ?thesis
    using assms(1) unfolding keyed_inv_def by (auto simp: hmap_simps split: if_splits)
qed

lemma keyed_inv_init: "keyed_init c \<Longrightarrow> keyed_inv x secret c"
  by (simp add: keyed_init_def keyed_inv_def)

interpretation kp: inductive_invariant keyed_init "keyed_step x secret" "keyed_inv x secret" for x secret
  by unfold_locales (auto intro: keyed_inv_init keyed_inv_step)

section \<open>Properties\<close>

text \<open>
  C6: a key has one runner, and one final result. However the keyed requests of all clients
  interleave at the nodes, and whichever of them are dropped on the way, at most one request per
  internal key is between its granted claim and its end, or has had its response stored: as long
  as one runs under a key, and after one has completed it, no other runs its mutation.
\<close>

theorem one_runner_per_key:
  assumes "reachable keyed_init (keyed_step x secret) c"
    and "hget (cl_tasks c) n = Some tk" "hget (cl_tasks c) n' = Some tk'"
    and "holds_key tk" "holds_key tk'" "ci_internal_key (kt_key tk) = ci_internal_key (kt_key tk')"
  shows "n = n'"
  using keyed_invD(5) [OF kp.reachable_inv [OF assms(1)] assms(2-6)] .

section \<open>Witnesses\<close>

text \<open>Two clients send the same keyed request; the first one's claim comes first.\<close>

definition sample_keyed_task :: keyed_task where
  "sample_keyed_task = \<lparr>kt_identity = Some sample_identity, kt_method = PUT, kt_uri = sample_kv,
     kt_headers = sample_keyed, kt_body = [], kt_key = sample_key, kt_phase = Claiming\<rparr>"

definition sample_two_tasks :: cluster_state where
  "sample_two_tasks = \<lparr>cl_table = fst sample_cluster, cl_node = fake_node_default,
     cl_tasks = hinsert 1 sample_keyed_task (hinsert 0 sample_keyed_task [])\<rparr>"

lemma sample_admitted: "admitted sample_cluster_x (Some ''s'') (fst sample_cluster) sample_keyed_task"
  using sample_keyed_request by (simp add: admitted_def sample_keyed_task_def)

lemma sample_two_tasks_reachable:
  "reachable keyed_init (keyed_step sample_cluster_x (Some ''s'')) sample_two_tasks"
proof -
  let ?c = "\<lambda>ts. \<lparr>cl_table = fst sample_cluster, cl_node = fake_node_default, cl_tasks = ts\<rparr>"
  have arrive: "reachable keyed_init (keyed_step sample_cluster_x (Some ''s'')) (?c (hinsert n sample_keyed_task ts))"
    if "reachable keyed_init (keyed_step sample_cluster_x (Some ''s'')) (?c ts)" "hget ts n = None" for n ts
    using reach_step [OF that(1) ks_arrive [of "?c ts" n sample_keyed_task]] that(2) sample_admitted
    by (simp add: sample_keyed_task_def)
  have "reachable keyed_init (keyed_step sample_cluster_x (Some ''s'')) (?c [])"
    by (rule reach_init) (simp add: keyed_init_def fake_node_default_def no_redirects_def)
  from arrive [OF arrive [OF this]] show ?thesis by (simp add: sample_two_tasks_def hmap_simps)
qed

lemma sample_first_claims:
  obtains t s where "task_step sample_cluster_x (cluster_env sample_cluster_x (Some ''s'')) sample_keyed_task
    (fst sample_cluster, fake_node_default) = (Running 99, (t, s))"
proof -
  note D = keyed_requestD [OF sample_keyed_request]
  have free: "hget (fn_records fake_node_default) (ci_internal_key sample_key) = None"
    by (simp add: fake_node_default_def)
  have fit: "fits sample_cluster_x (committed_json (claimed_output (ci_internal_key sample_key) (claimed_record sample_key)))"
    using D(3) by (simp add: answers_fit_def)
  obtain t' claim where "claim_customer_idempotency sample_cluster_x (cluster_env sample_cluster_x (Some ''s''))
      (Some sample_identity) sample_key (fst sample_cluster, fake_node_default) = (Inr claim,
      (t', fake_node_default\<lparr>fn_records := hinsert (ci_internal_key sample_key) (claimed_record sample_key)
        (fn_records fake_node_default)\<rparr>))" "ic_claimed claim" "ic_fencing_token claim = Some 99"
    by (rule claim_free [OF D(1,2) free fit])
  then show ?thesis
    using that granted_claim [of sample_key claim]
    by (simp add: task_step_def sample_keyed_task_def claimed_phase_def)
qed

theorem one_runner_per_key_witness:
  "\<exists>c. reachable keyed_init (keyed_step sample_cluster_x (Some ''s'')) c \<and> length (cl_tasks c) = 2 \<and>
     {n. \<exists>tk. hget (cl_tasks c) n = Some tk \<and> holds_key tk \<and> ci_internal_key (kt_key tk) = ci_internal_key sample_key} = {0}"
proof -
  obtain t s where step: "task_step sample_cluster_x (cluster_env sample_cluster_x (Some ''s'')) sample_keyed_task
    (fst sample_cluster, fake_node_default) = (Running 99, (t, s))"
    by (rule sample_first_claims)
  let ?tk = "sample_keyed_task\<lparr>kt_phase := Running 99\<rparr>"
  let ?c = "\<lparr>cl_table = t, cl_node = s, cl_tasks = hinsert 0 ?tk (cl_tasks sample_two_tasks)\<rparr>"
  have r: "reachable keyed_init (keyed_step sample_cluster_x (Some ''s'')) ?c"
    using reach_step [OF sample_two_tasks_reachable ks_move [of sample_two_tasks 0 sample_keyed_task]] step
    by (simp add: sample_two_tasks_def hmap_simps)
  have tk: "hget (cl_tasks ?c) 0 = Some ?tk" "holds_key ?tk" "ci_internal_key (kt_key ?tk) = ci_internal_key sample_key"
    by (simp_all add: hmap_simps holds_key_def sample_keyed_task_def)
  have "{n. \<exists>tk. hget (cl_tasks ?c) n = Some tk \<and> holds_key tk \<and> ci_internal_key (kt_key tk) = ci_internal_key sample_key} = {0}"
    using tk one_runner_per_key [OF r _ tk(1) _ tk(2)] by (auto simp del: cluster_state.simps)
  moreover have "length (cl_tasks ?c) = 2"
    by (simp add: sample_two_tasks_def hinsert_def)
  ultimately show ?thesis using r by blast
qed

end
