(* ===== verification/Lost_Reply.thy ===== *)
theory Lost_Reply
  imports Cluster
begin

text \<open>
  The test cluster behind a network that loses the answers to mutations: the node applies the
  mutation, and the connection breaks before the load balancer has the answer. It is the situation
  the ambiguous 502 of \<^verbatim>\<open>src/src/proxy.rs\<close> names, and the one a retry with the same key is for.
\<close>

section \<open>The cluster that loses answers\<close>

definition protocol_paths :: "string list" where
  "protocol_paths =
     [''/v1/idempotency/claim'', ''/v1/idempotency/complete'', ''/v1/idempotency/abandon'']"

definition lost_reply_env :: "externals \<Rightarrow> string option \<Rightarrow> fake_node forward_env" where
  "lost_reply_env x secret = (cluster_env x secret)
     \<lparr>fe_send := (\<lambda>out st.
        case fe_send (cluster_env x secret) out st of (sent, st) \<Rightarrow>
          (case x_url_parse x (or_url out) of
             Some p \<Rightarrow> if url_path p \<in> set protocol_paths then (sent, st) else (SendFailed, st)
           | None \<Rightarrow> (SendFailed, st)))\<rparr>"

text \<open>Environments that answer the requests of one path alike are alike for a request on it.\<close>

lemma forward_hops_cong:
  assumes "fe_secret e = fe_secret e'" "fe_now e = fe_now e'"
    and "\<And>out st p. x_url_parse x (or_url out) = Some p \<Longrightarrow> url_path p = uri_path v \<Longrightarrow> fe_send e out st = fe_send e' out st"
    and "fr_uri r = v"
  shows "forward_hops n x e att r st = forward_hops n x e' att r st"
  using assms(4)
proof (induction n arbitrary: att r st)
  case 0
  then show ?case by (cases st) simp
next
  case (Suc n)
  have out: "out_request_for e url r = out_request_for e' url r" for url
    by (simp add: out_request_for_def assms(1))
  have once: "forward_once x e r s = forward_once x e' r s" for s
  proof (cases "upstream_url x (fr_target r) (fr_uri r)")
    case (Some url)
    then obtain p where "x_url_parse x url = Some p" "url_path p = uri_path v"
      using Suc.prems by (auto simp: upstream_url_def Let_def split: if_splits option.splits)
    then have "fe_send e (out_request_for e' url r) s = fe_send e' (out_request_for e' url r) s"
      by (intro assms(3)) (simp_all add: out_request_for_def)
    then show ?thesis by (simp add: forward_once_def Some out assms(1) Let_def)
  qed (simp add: forward_once_def)
  obtain t w where "st = (t, w)" by fastforce
  then show ?case
    using Suc.IH [of "r\<lparr>fr_target := target\<rparr>" for target] Suc.prems
    by (simp add: once assms(2) Let_def split: prod.split hop.split)
qed

lemma route_plain_cong:
  assumes "fe_secret e = fe_secret e'" "fe_now e = fe_now e'"
    and "\<And>out st p. x_url_parse x (or_url out) = Some p \<Longrightarrow> url_path p = uri_path v \<Longrightarrow> fe_send e out st = fe_send e' out st"
  shows "route_without_customer_idempotency x e identity m v h body st =
    route_without_customer_idempotency x e' identity m v h body st"
  by (simp add: route_without_customer_idempotency_def forward_with_redirect_def
      forward_hops_cong [OF assms] split: prod.split option.split)

lemma protocol_not_lost:
  "claim_customer_idempotency x (lost_reply_env x secret) identity i st =
     claim_customer_idempotency x (cluster_env x secret) identity i st"
  "abandon_customer_idempotency x (lost_reply_env x secret) identity i token st =
     abandon_customer_idempotency x (cluster_env x secret) identity i token st"
proof -
  have "route_without_customer_idempotency x (lost_reply_env x secret) identity POST v h body st =
      route_without_customer_idempotency x (cluster_env x secret) identity POST v h body st"
    if "uri_path v \<in> set protocol_paths" for v h body st
    using that by (intro route_plain_cong) (auto simp: lost_reply_env_def split: prod.split)
  moreover have "uri_path claim_uri \<in> set protocol_paths" "uri_path abandon_uri \<in> set protocol_paths"
    by (simp_all add: protocol_paths_def claim_uri_def abandon_uri_def)
  ultimately show
    "claim_customer_idempotency x (lost_reply_env x secret) identity i st =
       claim_customer_idempotency x (cluster_env x secret) identity i st"
    "abandon_customer_idempotency x (lost_reply_env x secret) identity i token st =
       abandon_customer_idempotency x (cluster_env x secret) identity i token st"
    by (simp_all add: claim_customer_idempotency_def abandon_customer_idempotency_def)
qed

text \<open>The mutation runs, and the load balancer cannot know it.\<close>

lemma lost_mutation:
  assumes req: "keyed_request x secret identity m u h body i t"
  obtains t' where "route_without_customer_idempotency x (lost_reply_env x secret) identity m u h body (t, s) =
      (ambiguous_response, (t', s\<lparr>fn_mutations := fn_mutations s @ [wire_headers secret identity h],
         fn_mutation_statuses := tl (fn_mutation_statuses s)\<rparr>))"
    "same_routes t t'"
proof -
  note D = keyed_requestD [OF req]
  let ?v = "origin_uri (uri_path u) (uri_query u)"
  let ?s = "s\<lparr>fn_mutations := fn_mutations s @ [wire_headers secret identity h],
      fn_mutation_statuses := tl (fn_mutation_statuses s)\<rparr>"
  have "fake_node_handler x m ?v (wire_headers secret identity h) body s =
      Some (json_response (next_status (fn_mutation_statuses s))
        (mutation_json m ?v (next_status (fn_mutation_statuses s)) (Suc (mutation_count s))), ?s)"
    using D(4) by (auto simp: fake_node_handler_def fake_mutation_def Let_def mutation_count_def
        is_idempotency_primitive_def starts_with_def)
  note node = this
  obtain node shard t1 url p where
    c: "choose_target x identity u body t = ((shard, Some node), t1)"
    "same_routes t (record_region_request node t1)" "upstream_url x node u = Some url"
    "x_url_parse x url = Some p" "url_path p = uri_path u"
    and send: "\<And>t2 r'. r' = \<lparr>fr_identity = identity, fr_target = node, fr_shard = shard, fr_method = m, fr_uri = u,
        fr_headers = h, fr_body = body\<rparr> \<Longrightarrow>
      fe_send (cluster_env x secret) (out_request_for (cluster_env x secret) url r') (t2, s) =
        (Replied (wire_reply x (json_response (next_status (fn_mutation_statuses s))
          (mutation_json m ?v (next_status (fn_mutation_statuses s)) (Suc (mutation_count s))))), (t2, ?s))"
    by (rule cluster_reaches [OF D(1) _ node]) (simp, rule that, assumption+)
  let ?r = "\<lparr>fr_identity = identity, fr_target = node, fr_shard = shard, fr_method = m, fr_uri = u,
    fr_headers = h, fr_body = body\<rparr>"
  let ?t = "record_region_request node t1"
  have secret: "fe_secret (lost_reply_env x secret) = secret" "fe_secret (cluster_env x secret) = secret"
    by (simp_all add: lost_reply_env_def cluster_env_def)
  then have out: "out_request_for (lost_reply_env x secret) url ?r = out_request_for (cluster_env x secret) url ?r"
    by (simp add: out_request_for_def)
  have "uri_path u \<notin> set protocol_paths"
    using D(4) by (auto simp: protocol_paths_def is_idempotency_primitive_def starts_with_def)
  then have "fe_send (lost_reply_env x secret) (out_request_for (lost_reply_env x secret) url ?r) (?t, s) =
      (SendFailed, (?t, ?s))"
    unfolding out using send [OF refl, of ?t] c(4,5)
    by (simp add: lost_reply_env_def) (simp add: out_request_for_def)
  moreover have "list_all (\<lambda>(_, v). header_value_ok v) (identity_headers identity @ secret_headers secret)"
    using D(1) by (simp add: cluster_ok_def)
  ultimately have "forward_once x (lost_reply_env x secret) ?r (?t, s) = (AmbiguousTransport, (?t, ?s))"
    by (simp add: forward_once_def c(3) secret Let_def)
  moreover have "\<not> method_is_replay_safe m"
    using req by (auto simp: keyed_request_def from_request_Some method_supports_customer_idempotency_def
        method_is_replay_safe_def)
  ultimately have "route_without_customer_idempotency x (lost_reply_env x secret) identity m u h body (t, s) =
      (ambiguous_response, (?t, ?s))"
    by (simp add: route_without_customer_idempotency_def c(1) forward_with_redirect_def max_hops_def
        eval_nat_numeral after_hop_def)
  then show ?thesis using that c(2) by blast
qed

lemma hremove_hinsert_fresh: "hget m k = None \<Longrightarrow> hremove k (hinsert k v m) = m"
  by (induction m) (auto simp: hremove_def hinsert_def split: if_splits)

section \<open>The property\<close>

definition ambiguous_json :: json where
  "ambiguous_json = JObject [(''error'', JString ''ambiguous_upstream_result''),
     (''detail'', JString ''the mutation may have committed; retry only with the same Idempotency-Key'')]"

text \<open>
  C40: the retry the load balancer asks for runs the mutation a second time. A keyed mutation
  with a fresh key is applied by the node and its answer is lost. The client gets 502, is told that
  the mutation may have been committed and to retry with the same key only; but the claim is released, and the retry, on a
  network that works again, is granted a new one, runs the mutation once more and gets the second
  run's answer.
\<close>

theorem ambiguous_retry_runs_twice:
  assumes "keyed_request x secret identity m u h body i t" "no_redirects (fn_mutation_statuses s)"
    and "hget (fn_records s) (ci_internal_key i) = None" "fits x ambiguous_json"
  shows "\<exists>r1 t1 s1 r2 t2 s2.
    route x (lost_reply_env x secret) identity m u h body (t, s) = (r1, (t1, s1)) \<and>
    resp_status r1 = 502 \<and> resp_body r1 = BodyBytes (x_json_print x ambiguous_json) \<and>
    mutation_count s1 = mutation_count s + 1 \<and> fn_records s1 = fn_records s \<and>
    route x (cluster_env x secret) identity m u h body (t1, s1) = (r2, (t2, s2)) \<and>
    mutation_count s2 = mutation_count s + 2 \<and>
    resp_status r2 = next_status (tl (fn_mutation_statuses s)) \<and>
    header_get (resp_headers r2) ''idempotent-replayed'' = None"
proof -
  note D = keyed_requestD [OF assms(1)]
  let ?k = "ci_internal_key i" and ?sts = "fn_mutation_statuses s"
  let ?c = "s\<lparr>fn_records := hinsert ?k (claimed_record i) (fn_records s)\<rparr>"
  let ?m = "?c\<lparr>fn_mutations := fn_mutations s @ [wire_headers secret identity h], fn_mutation_statuses := tl ?sts\<rparr>"
  let ?s1 = "?m\<lparr>fn_records := hremove ?k (fn_records ?m), fn_abandons := fn_abandons ?m @ [?k]\<rparr>"
  have fit: "fits x (committed_json (claimed_output ?k (claimed_record i)))"
    "fits x (committed_json (abandon_output None ?k))"
    using D(3) by (simp_all add: answers_fit_def)
  obtain t1 claim where claim: "claim_customer_idempotency x (cluster_env x secret) identity i (t, s) = (Inr claim, (t1, ?c))"
    "ic_claimed claim" "ic_fencing_token claim = Some 99" "same_routes t t1"
    by (rule claim_free [OF D(1,2) assms(3) fit(1)])
  obtain t2 where run: "route_without_customer_idempotency x (lost_reply_env x secret) identity m u h body (t1, ?c) =
      (ambiguous_response, (t2, ?m))" "same_routes t1 t2"
    using lost_mutation [OF keyed_request_same_routes [OF assms(1) claim(4)], of ?c] by auto
  have req2: "keyed_request x secret identity m u h body i t2"
    using keyed_request_same_routes [OF assms(1) same_routes_trans [OF claim(4) run(2)]] .
  obtain t3 where abandon: "abandon_customer_idempotency x (cluster_env x secret) identity i 99 (t2, ?m) = (t3, ?s1)"
    "same_routes t2 t3"
    using abandon_claimed [OF keyed_requestD(1) [OF req2] D(2) _ fit(2), of ?m] by (auto simp: hmap_simps)
  have req3: "keyed_request x secret identity m u h body i t3"
    using keyed_request_same_routes [OF req2 abandon(2)] .
  have first: "route x (lost_reply_env x secret) identity m u h body (t, s) =
      (\<lparr>resp_status = 502,
        resp_headers = [(''content-type'', ''application/json''), (''x-fiducia-idempotency'', ''not_stored'')],
        resp_body = BodyBytes (x_json_print x ambiguous_json)\<rparr>, (t3, ?s1))"
    using ambiguous_mutation_releases_key [of x "lost_reply_env x secret" identity i "(t, s)" claim "(t1, ?c)" 99 m u h body "(t2, ?m)"]
      claim run(1) abandon(1) assms(4)
    by (simp add: protocol_not_lost D(5) fits_def ambiguous_json_def)
  have records: "hremove ?k (hinsert ?k (claimed_record i) (fn_records s)) = fn_records s"
    using assms(3) by (simp add: hremove_hinsert_fresh)
  obtain t4 where again: "route x (cluster_env x secret) identity m u h body (t3, ?s1) =
      (mark_response (if is_cacheable_idempotent_response (next_status (tl ?sts)) then ''stored'' else ''not_stored'')
         (mutation_captured x m u (next_status (tl ?sts)) (Suc (mutation_count ?s1))),
       (t4, after_first_call x secret identity m u h i ?s1))"
    using first_call [OF req3, of ?s1] no_redirects_next [OF assms(2)] by (auto simp: hmap_simps)
  have "mutation_count (after_first_call x secret identity m u h i ?s1) = mutation_count s + 2"
    by (simp add: after_first_call_def mutation_count_def Let_def)
  with first again records show ?thesis
    by (simp add: mutation_count_def mark_response_def captured_into_response_def mutation_captured_def Let_def
        header_get_insert fiducia_idempotency_header_def) (simp add: header_get_def)
qed

text \<open>
  On the sample cluster: the first answer is the 502, the second a 200, and the node has applied
  the mutation twice.
\<close>

theorem ambiguous_retry_runs_twice_witness:
  "\<exists>r1 t1 s1 r2 t2 s2.
    route sample_cluster_x (lost_reply_env sample_cluster_x (Some ''s'')) (Some sample_identity) PUT sample_kv
      sample_keyed [] sample_cluster = (r1, (t1, s1)) \<and> resp_status r1 = 502 \<and>
    route sample_cluster_x (cluster_env sample_cluster_x (Some ''s'')) (Some sample_identity) PUT sample_kv
      sample_keyed [] (t1, s1) = (r2, (t2, s2)) \<and> resp_status r2 = 200 \<and> mutation_count s2 = 2"
proof -
  have "length (sample_print ambiguous_json) \<le> 8388608 \<and> json_depth ambiguous_json \<le> 127"
    by (simp add: ambiguous_json_def length_print_bits)
  then have "fits sample_cluster_x ambiguous_json" by (simp add: fits_def sample_cluster_x_def)
  from ambiguous_retry_runs_twice [OF sample_keyed_request, of fake_node_default, OF _ _ this]
  obtain r1 t1 s1 r2 t2 s2 where "route sample_cluster_x (lost_reply_env sample_cluster_x (Some ''s''))
      (Some sample_identity) PUT sample_kv sample_keyed [] (fst sample_cluster, fake_node_default) = (r1, (t1, s1))"
    "resp_status r1 = 502"
    "route sample_cluster_x (cluster_env sample_cluster_x (Some ''s'')) (Some sample_identity) PUT sample_kv
      sample_keyed [] (t1, s1) = (r2, (t2, s2))" "resp_status r2 = 200" "mutation_count s2 = 2"
    by (auto simp: fake_node_default_def no_redirects_def next_status_def mutation_count_def)
  moreover have "sample_cluster = (fst sample_cluster, fake_node_default)"
    by (simp add: sample_cluster_def fake_cluster_def)
  ultimately show ?thesis by metis
qed

end
