(* ===== verification/Server.thy ===== *)
theory Server
  imports Proxy
begin

text \<open>
  The binary of \<^verbatim>\<open>src/src/main.rs\<close>: what it reads from the environment, the identity of a
  request, the operator routes, the two routers with their handlers, and one request from the
  listener on. Listening, TLS, tracing and catching panics are the libraries'. The refresh task
  appears as steps of the table that other tasks take (theory \<open>Route_Table\<close>).
\<close>

section \<open>Configuration\<close>

definition service_name :: string where "service_name = ''fiducia-load-balance''"

definition shard_count_from_env_value :: "string option \<Rightarrow> u32" where
  "shard_count_from_env_value v =
     max (case Option.bind v (\<lambda>raw. parse_unsigned 32 (trim raw)) of Some n \<Rightarrow> of_nat n | None \<Rightarrow> 16) 1"

definition seeds_from_env :: "environment \<Rightarrow> string list" where
  "seeds_from_env env =
     (case env ''FIDUCIA_NODES'' of None \<Rightarrow> []
      | Some s \<Rightarrow> filter (\<lambda>n. n \<noteq> []) (split_on CHR '','' s))"

definition port_from_env :: "environment \<Rightarrow> string \<Rightarrow> nat \<Rightarrow> nat" where
  "port_from_env env name dflt =
     (case Option.bind (env name) (parse_unsigned 16) of Some p \<Rightarrow> p | None \<Rightarrow> dflt)"

record tls_config =
  tls_cert_path :: string
  tls_key_path :: string
  tls_port :: nat

definition tls_settings :: "environment \<Rightarrow> string + tls_config option" where
  "tls_settings env =
     (case (env ''FIDUCIA_TLS_CERT_PATH'', env ''FIDUCIA_TLS_KEY_PATH'') of
        (Some cert, Some key) \<Rightarrow>
          Inr (Some \<lparr>tls_cert_path = cert, tls_key_path = key, tls_port = port_from_env env ''TLS_PORT'' 8443\<rparr>)
      | (None, None) \<Rightarrow> Inr None
      | _ \<Rightarrow> Inl ''set both FIDUCIA_TLS_CERT_PATH and FIDUCIA_TLS_KEY_PATH, or neither'')"

record app_state =
  app_auth :: auth_state
  app_routes :: route_table

text \<open>Which router is served where: the proxy in the clear, or over TLS beside the guard.\<close>

datatype serving = ServePlain nat | ServeTls tls_config nat

record startup =
  su_state :: app_state
  su_brain_url :: string
  su_serving :: serving

definition main_startup :: "externals \<Rightarrow> bool \<Rightarrow> environment \<Rightarrow> string + startup" where
  "main_startup x is_debug_build env =
     (let shard_count = shard_count_from_env_value (env ''FIDUCIA_SHARD_COUNT'');
          table = table_new x shard_count (seeds_from_env env);
          auth = auth_state_from_env is_debug_build env;
          port = port_from_env env ''PORT'' 8088
      in case tls_settings env of
           Inl e \<Rightarrow> Inl e
         | Inr tls \<Rightarrow> Inr
             \<lparr>su_state = \<lparr>app_auth = auth, app_routes = table\<rparr>,
              su_brain_url = (case env ''FIDUCIA_BRAIN_URL'' of Some u \<Rightarrow> u | None \<Rightarrow> ''http://localhost:8095''),
              su_serving = (case tls of Some c \<Rightarrow> ServeTls c port | None \<Rightarrow> ServePlain port)\<rparr>)"

section \<open>Health\<close>

definition healthz :: response where
  "healthz = json_response 200
     (JObject [(''status'', JString ''ok''), (''service'', JString service_name)])"

definition readiness_response :: "route_table \<Rightarrow> response" where
  "readiness_response t =
     (if \<not> is_hydrated t
      then json_response 503 (JObject [(''status'', JString ''not_ready''), (''service'', JString service_name),
        (''detail'', JString ''route table is not hydrated yet'')])
      else json_response 200 (JObject [(''status'', JString ''ok''), (''service'', JString service_name)]))"

definition readyz :: "app_state \<Rightarrow> response" where "readyz s = readiness_response (app_routes s)"

definition guard_readyz :: "route_table \<Rightarrow> response" where "guard_readyz t = readiness_response t"

definition plaintext_upgrade_required :: response where
  "plaintext_upgrade_required = error_response 426 ''https_required''
     ''cleartext proxying is disabled while TLS is enabled; retry the configured HTTPS endpoint''"

section \<open>Identity and operator access\<close>

definition request_identity :: "externals \<Rightarrow> jwt_lib \<Rightarrow> auth_io \<Rightarrow> string option \<Rightarrow> header_map \<Rightarrow>
    auth_state \<Rightarrow> (response + verified_identity option) \<times> auth_state" where
  "request_identity x lib io secret headers st =
     (case trusted_edge_identity headers secret of
        Some identity \<Rightarrow> (Inr (Some identity), st)
      | None \<Rightarrow> authenticate x lib io headers st)"

definition main_admin_read_scopes :: "string list" where
  "main_admin_read_scopes = [''admin:read'', ''admin:write'']"

definition admin_scope_matches :: "string \<Rightarrow> string \<Rightarrow> bool" where
  "admin_scope_matches granted required \<longleftrightarrow>
     (if granted = required then True
      else case strip_suffix granted '':*'' of
        None \<Rightarrow> False
      | Some pre \<Rightarrow>
          (case strip_prefix required pre of None \<Rightarrow> False | Some rest \<Rightarrow> starts_with rest '':''))"

definition authorize_admin_read :: "verified_identity option \<Rightarrow> bool" where
  "authorize_admin_read identity \<longleftrightarrow>
     (case identity of None \<Rightarrow> False
      | Some identity \<Rightarrow>
          list_ex (\<lambda>scope. let scope = trim scope in
              scope = ''*'' \<or> list_ex (\<lambda>required. admin_scope_matches scope required) main_admin_read_scopes)
            (vi_scopes identity))"

definition insufficient_admin_scope_response :: response where
  "insufficient_admin_scope_response = json_response 403 (JObject
     [(''error'', JString ''insufficient_scope''),
      (''detail'', JString ''credential scope does not permit this operator route''),
      (''required_scopes'', JArray (map JString main_admin_read_scopes))])"

section \<open>Handlers\<close>

text \<open>
  A handler takes the state of the server: authentication, and the routing table with the
  environment of the exchanges with the nodes.
\<close>

definition proxy_fallback :: "externals \<Rightarrow> jwt_lib \<Rightarrow> auth_io \<Rightarrow> 'w forward_env \<Rightarrow> http_method \<Rightarrow> uri \<Rightarrow>
    header_map \<Rightarrow> bytes \<Rightarrow> auth_state \<times> (route_table \<times> 'w) \<Rightarrow> response \<times> (auth_state \<times> (route_table \<times> 'w))" where
  "proxy_fallback x lib io env m u h body st =
     (case st of (auth, st) \<Rightarrow>
        (case request_identity x lib io (fe_secret env) h auth of
           (Inl resp, auth) \<Rightarrow> (resp, (auth, st))
         | (Inr identity, auth) \<Rightarrow>
             (case route x env identity m u h body st of (resp, st) \<Rightarrow> (resp, (auth, st)))))"

definition routes_dump :: "externals \<Rightarrow> jwt_lib \<Rightarrow> auth_io \<Rightarrow> string option \<Rightarrow> header_map \<Rightarrow>
    app_state \<Rightarrow> response \<times> app_state" where
  "routes_dump x lib io secret h s =
     (case request_identity x lib io secret h (app_auth s) of
        (Inl resp, auth) \<Rightarrow> (resp, s\<lparr>app_auth := auth\<rparr>)
      | (Inr identity, auth) \<Rightarrow>
          (if \<not> authorize_admin_read identity then insufficient_admin_scope_response
           else json_response 200 (table_snapshot (app_routes s)), s\<lparr>app_auth := auth\<rparr>))"

definition opt_json :: "('a \<Rightarrow> json) \<Rightarrow> 'a option \<Rightarrow> json" where
  "opt_json f v = (case v of Some a \<Rightarrow> f a | None \<Rightarrow> JNull)"

definition resolve_route :: "externals \<Rightarrow> verified_identity option \<Rightarrow> uri \<Rightarrow> route_table \<Rightarrow>
    (string option \<times> shard_id option \<times> string option) \<times> route_table" where
  "resolve_route x identity u t =
     (let key = routing_key x u (map_option vi_org_id identity);
          shard = map_option (\<lambda>k. x_shard_for x k (rt_shard_count t)) key
      in case shard of
           Some s \<Rightarrow> ((key, shard, leader_for t s), t)
         | None \<Rightarrow> (case any_node t of (target, t) \<Rightarrow> ((key, shard, target), t)))"

definition resolve :: "externals \<Rightarrow> jwt_lib \<Rightarrow> auth_io \<Rightarrow> string option \<Rightarrow> header_map \<Rightarrow> string \<Rightarrow>
    app_state \<Rightarrow> response \<times> app_state" where
  "resolve x lib io secret h path s =
     (case request_identity x lib io secret h (app_auth s) of
        (Inl resp, auth) \<Rightarrow> (resp, s\<lparr>app_auth := auth\<rparr>)
      | (Inr identity, auth) \<Rightarrow>
          (let s = s\<lparr>app_auth := auth\<rparr> in
           if \<not> authorize_admin_read identity then (insufficient_admin_scope_response, s)
           else case x_uri_parse x path of
             None \<Rightarrow> (json_response 400 (JObject [(''error'', JString ''path is not a valid URI''),
               (''path'', JString path)]), s)
           | Some u \<Rightarrow>
               (case resolve_route x identity u (app_routes s) of
                  ((key, shard, target), t) \<Rightarrow>
                    (json_response 200 (JObject [(''path'', JString path), (''key'', opt_json JString key),
                       (''shard'', opt_json (\<lambda>n. JUint (ucast n)) shard),
                       (''target'', opt_json JString target)]), s\<lparr>app_routes := t\<rparr>))))"

section \<open>Routers\<close>

text \<open>
  Which handler answers a request; a method router of axum answers GET and HEAD, and any other
  method with 405.
\<close>

datatype handler = Healthz | Readyz | RoutesDump | Resolve | ProxyFallback | UpgradeRequired
  | MethodNotAllowed

definition get_only :: "handler \<Rightarrow> http_method \<Rightarrow> handler" where
  "get_only h m = (if m = GET \<or> m = HEAD then h else MethodNotAllowed)"

definition build_app :: "http_method \<Rightarrow> uri \<Rightarrow> handler" where
  "build_app m u =
     (if uri_path u = ''/healthz'' then get_only Healthz m
      else if uri_path u = ''/readyz'' then get_only Readyz m
      else if uri_path u = ''/_lb/routes'' then get_only RoutesDump m
      else if uri_path u = ''/_lb/resolve'' then get_only Resolve m
      else ProxyFallback)"

definition build_plaintext_guard_app :: "http_method \<Rightarrow> uri \<Rightarrow> handler" where
  "build_plaintext_guard_app m u =
     (if uri_path u = ''/healthz'' then get_only Healthz m
      else if uri_path u = ''/readyz'' then get_only Readyz m
      else UpgradeRequired)"

text \<open>The router a request arrives at, by whether it came over TLS.\<close>

definition dispatch :: "serving \<Rightarrow> bool \<Rightarrow> http_method \<Rightarrow> uri \<Rightarrow> handler" where
  "dispatch s over_tls m u =
     (case s of ServePlain _ \<Rightarrow> build_app m u
      | ServeTls _ _ \<Rightarrow> if over_tls then build_app m u else build_plaintext_guard_app m u)"

section \<open>One request\<close>

text \<open>
  \<^verbatim>\<open>MAX_BODY_BYTES\<close>, which \<^verbatim>\<open>build_app\<close> hands to the body limit. What axum and the tower layers do
  is given: \<open>ly_limit\<close>, the answer of the body limit to a request it stops; \<open>ly_query\<close>, the
  extractor of the parameter \<^verbatim>\<open>path\<close> with its rejection; and the answer to a wrong method.
\<close>

definition max_body_bytes :: nat where "max_body_bytes = 1024 * 1024"

record http_layers =
  ly_limit :: "nat \<Rightarrow> handler \<Rightarrow> header_map \<Rightarrow> bytes \<Rightarrow> response option"
  ly_query :: "uri \<Rightarrow> response + string"
  ly_not_allowed :: response

type_synonym 'w server_state = "auth_state \<times> (route_table \<times> 'w)"

text \<open>An operator handler: it has the application state, not the environment.\<close>

definition on_app :: "(app_state \<Rightarrow> response \<times> app_state) \<Rightarrow> 'w server_state \<Rightarrow> response \<times> 'w server_state" where
  "on_app f st =
     (case st of (auth, (t, w)) \<Rightarrow>
        (case f \<lparr>app_auth = auth, app_routes = t\<rparr> of
           (resp, s) \<Rightarrow> (resp, (app_auth s, (app_routes s, w)))))"

definition run_handler :: "http_layers \<Rightarrow> externals \<Rightarrow> jwt_lib \<Rightarrow> auth_io \<Rightarrow> 'w forward_env \<Rightarrow> http_method \<Rightarrow>
    uri \<Rightarrow> header_map \<Rightarrow> bytes \<Rightarrow> handler \<Rightarrow> 'w server_state \<Rightarrow> response \<times> 'w server_state" where
  "run_handler L x lib io env m u h body handler st =
     (case handler of
        Healthz \<Rightarrow> (healthz, st)
      | Readyz \<Rightarrow> on_app (\<lambda>s. (readyz s, s)) st
      | RoutesDump \<Rightarrow> on_app (routes_dump x lib io (fe_secret env) h) st
      | Resolve \<Rightarrow>
          (case ly_query L u of Inl rejected \<Rightarrow> (rejected, st)
           | Inr path \<Rightarrow> on_app (resolve x lib io (fe_secret env) h path) st)
      | ProxyFallback \<Rightarrow> proxy_fallback x lib io env m u h body st
      | UpgradeRequired \<Rightarrow> (plaintext_upgrade_required, st)
      | MethodNotAllowed \<Rightarrow> (ly_not_allowed L, st))"

text \<open>
  A request at a running server: the listener it came to chooses the router; the application's
  router, and only it, has the body limit in front of the handler.
\<close>

definition serve :: "http_layers \<Rightarrow> externals \<Rightarrow> jwt_lib \<Rightarrow> auth_io \<Rightarrow> 'w forward_env \<Rightarrow> serving \<Rightarrow> bool \<Rightarrow>
    http_method \<Rightarrow> uri \<Rightarrow> header_map \<Rightarrow> bytes \<Rightarrow> 'w server_state \<Rightarrow> response \<times> 'w server_state" where
  "serve L x lib io env sv over_tls m u h body st =
     (let handler = dispatch sv over_tls m u;
          guarded = (case sv of ServePlain _ \<Rightarrow> False | ServeTls _ _ \<Rightarrow> \<not> over_tls)
      in case (if guarded then None else ly_limit L max_body_bytes handler h body) of
           Some stopped \<Rightarrow> (stopped, st)
         | None \<Rightarrow> run_handler L x lib io env m u h body handler st)"

lemma dispatch_fallback:
  "dispatch sv over_tls m u = ProxyFallback \<Longrightarrow> case sv of ServePlain _ \<Rightarrow> True | ServeTls _ _ \<Rightarrow> over_tls"
  by (auto simp: dispatch_def build_app_def build_plaintext_guard_app_def get_only_def
      split: serving.splits if_splits)

text \<open>Only the fallback touches the environment; every other handler leaves it alone.\<close>

lemma run_handler_environment:
  assumes "handler \<noteq> ProxyFallback"
  shows "snd (snd (snd (run_handler L x lib io env m u h body handler (auth, (t, w))))) = w"
  using assms
  by (auto simp: run_handler_def on_app_def split: handler.splits sum.splits prod.splits)

lemma serve_cases:
  assumes "serve L x lib io env sv over_tls m u h body (auth, (t, w)) = (resp, (auth', (t', w')))" "w' \<noteq> w"
  shows "proxy_fallback x lib io env m u h body (auth, (t, w)) = (resp, (auth', (t', w'))) \<and>
    (case sv of ServePlain _ \<Rightarrow> True | ServeTls _ _ \<Rightarrow> over_tls)"
proof -
  let ?hd = "dispatch sv over_tls m u"
  have r: "run_handler L x lib io env m u h body ?hd (auth, (t, w)) = (resp, (auth', (t', w')))"
    using assms by (auto simp: serve_def Let_def split: option.splits if_splits)
  then have "?hd = ProxyFallback"
    using run_handler_environment [of ?hd L x lib io env m u h body auth t w] assms(2) by auto
  with r dispatch_fallback [of sv over_tls m u] show ?thesis by (simp add: run_handler_def)
qed

section \<open>Properties of the two listeners\<close>

text \<open>
  C18: with TLS nothing is proxied in the clear. Where TLS is configured, a request on the
  plaintext port is answered by the probes, by 426 or by the method check; no credential is
  looked at, no state changes and nothing is sent, whatever the request. The probes answer on
  their exact paths only.
\<close>

theorem cleartext_never_proxied:
  "let (resp, st') = serve L x lib io env (ServeTls c port) False m u h body st
   in st' = st \<and>
      resp \<in> {healthz, guard_readyz (fst (snd st)), plaintext_upgrade_required, ly_not_allowed L} \<and>
      (uri_path u \<notin> {''/healthz'', ''/readyz''} \<longrightarrow> resp = plaintext_upgrade_required \<and> resp_status resp = 426)"
  by (auto simp: serve_def dispatch_def build_plaintext_guard_app_def get_only_def run_handler_def on_app_def
      readyz_def guard_readyz_def plaintext_upgrade_required_def error_response_def json_response_def
      split: prod.split)

text \<open>
  C19: the operator routes show the topology to administrators only. For any other caller,
  anonymous ones included, the answer of \<^verbatim>\<open>/_lb/routes\<close> and \<^verbatim>\<open>/_lb/resolve\<close>, over any listener and by
  any method, is the same whatever the routing table holds, and the table and the environment
  stay as they are.
\<close>

theorem operator_routes_hide_topology:
  assumes "uri_path u \<in> {''/_lb/routes'', ''/_lb/resolve''}"
    and "\<And>v. fst (request_identity x lib io (fe_secret env) h auth) = Inr (Some v) \<Longrightarrow> \<not> authorize_admin_read (Some v)"
  shows "fst (serve L x lib io env sv over_tls m u h body (auth, (t, w))) =
      fst (serve L x lib io env sv over_tls m u h body (auth, (t2, w2))) \<and>
    snd (snd (serve L x lib io env sv over_tls m u h body (auth, (t, w)))) = (t, w)"
proof -
  let ?hd = "dispatch sv over_tls m u"
  have hd: "?hd \<in> {RoutesDump, Resolve, UpgradeRequired, MethodNotAllowed}"
    using assms(1)
    by (auto simp: dispatch_def build_app_def build_plaintext_guard_app_def get_only_def split: serving.split)
  obtain r auth' where id: "request_identity x lib io (fe_secret env) h auth = (r, auth')" by fastforce
  have no: "\<not> authorize_admin_read identity" if "r = Inr identity" for identity
    using assms(2) id that by (cases identity) (simp_all add: authorize_admin_read_def)
  have "fst (run_handler L x lib io env m u h body ?hd (auth, (t, w))) =
      fst (run_handler L x lib io env m u h body ?hd (auth, (t2, w2))) \<and>
    snd (snd (run_handler L x lib io env m u h body ?hd (auth, (t, w)))) = (t, w)" for t t2 w w2
    using hd no
    by (cases r) (auto simp: run_handler_def on_app_def routes_dump_def resolve_def id Let_def split: sum.split)
  then show ?thesis by (simp add: serve_def Let_def split: option.split)
qed

section \<open>The table of a running server\<close>

text \<open>The tables a server starts with, and what holds of the table while it runs.\<close>

definition server_init :: "externals \<Rightarrow> route_table \<Rightarrow> bool" where
  "server_init x t \<longleftrightarrow> (\<exists>dbg env su. main_startup x dbg env = Inr su \<and> t = app_routes (su_state su))"

definition server_inv :: "externals \<Rightarrow> route_table \<Rightarrow> bool" where
  "server_inv x t \<longleftrightarrow> table_inv x t \<and> 0 < rt_shard_count t"

lemma shard_count_positive: "0 < shard_count_from_env_value v"
  by (auto simp: shard_count_from_env_value_def word_less_nat_alt word_le_nat_alt max_def)

lemma main_startup_Inr [result_iff]:
  "main_startup x dbg env = Inr su \<Longrightarrow> app_routes (su_state su) =
     table_new x (shard_count_from_env_value (env ''FIDUCIA_SHARD_COUNT'')) (seeds_from_env env)"
  by (auto simp: main_startup_def Let_def split: sum.splits)

lemma table_new_count: "rt_shard_count (table_new x n seeds) = n"
  by (simp add: table_new_def Let_def)

lemma table_counts [simp]:
  "rt_shard_count (record_region_request u t) = rt_shard_count t"
  "rt_shard_count (snd (any_node_excluding excl t)) = rt_shard_count t"
  "rt_shard_count (snd (accept_leader_hint x now s h t)) = rt_shard_count t"
proof -
  show "rt_shard_count (record_region_request u t) = rt_shard_count t"
    by (simp add: record_region_request_def Let_def)
  show "rt_shard_count (snd (any_node_excluding excl t)) = rt_shard_count t"
    by (metis any_node_excluding_frame(1) prod.collapse route_table.ext_inject route_table.surjective
        route_table.update_convs(7))
  show "rt_shard_count (snd (accept_leader_hint x now s h t)) = rt_shard_count t"
    by (simp add: accept_leader_hint_eq split: option.split)
qed

lemma table_step_count: "table_step x t t' \<Longrightarrow> rt_shard_count t' = rt_shard_count t"
  by (erule table_step_cases)
    (auto simp: refresh_from_brain_def apply_brain_snapshot_eq Let_def split: fetched.split)

interpretation sv: inductive_invariant "server_init x" "table_step x" "server_inv x" for x
proof
  show "server_inv x t" if "server_init x t" for t
    using that main_startup_Inr
    by (auto simp: server_init_def server_inv_def table_inv_new table_new_count shard_count_positive)
  show "server_inv x t'" if "server_inv x t" "table_step x t t'" for t t'
    using that by (auto simp: server_inv_def table_step_count intro: table_inv_step)
qed

section \<open>Properties of the table that requests keep\<close>

text \<open>
  What a request does to the table: it counts itself, picks a node, and takes a hint for the
  shard it was routed to. A property these three keep, and the environment keeps, is kept by
  every call of \<^verbatim>\<open>route\<close>.
\<close>

definition env_keeps :: "(route_table \<Rightarrow> bool) \<Rightarrow> 'w forward_env \<Rightarrow> bool" where
  "env_keeps good env \<longleftrightarrow>
     (\<forall>out t w s t' w'. fe_send env out (t, w) = (s, (t', w')) \<longrightarrow> good t \<longrightarrow>
        good t' \<and> rt_shard_count t' = rt_shard_count t)"

locale table_property =
  fixes x :: externals and good :: "route_table \<Rightarrow> bool"
  assumes good_region: "good t \<Longrightarrow> good (record_region_request u t)"
    and good_pick: "good t \<Longrightarrow> good (snd (any_node_excluding e t))"
    and good_hint: "good t \<Longrightarrow> s < rt_shard_count t \<Longrightarrow> good (snd (accept_leader_hint x now s h t))"
    and hash_in_range: "good t \<Longrightarrow> x_shard_for x key (rt_shard_count t) < rt_shard_count t"
begin

lemma try_other_good:
  assumes "try_other e t = (hp, t')" "good t"
  shows "good t' \<and> rt_shard_count t' = rt_shard_count t"
  using assms good_pick [OF assms(2), of e] table_counts(2) [of e t]
  by (cases "any_node_excluding e t") (auto simp: try_other_eq)

lemma hint_good:
  assumes "redirected_leader_target x now shard h t = (r, t')" "good t"
    and "\<And>s. shard = Some s \<Longrightarrow> s < rt_shard_count t"
  shows "good t' \<and> rt_shard_count t' = rt_shard_count t"
proof (cases shard)
  case None
  then show ?thesis using assms by (simp add: redirected_leader_target_def)
next
  case (Some s)
  then show ?thesis
    using assms good_hint [OF assms(2) assms(3) [OF Some], of now h] table_counts(3) [of x now s h t]
    by (auto simp: redirected_leader_target_def)
qed

lemma after_hop_good:
  assumes "after_hop x now e shard m u t = (hp, t')" "good t"
    and "\<And>s. shard = Some s \<Longrightarrow> s < rt_shard_count t"
  shows "good t' \<and> rt_shard_count t' = rt_shard_count t"
proof (cases "\<exists>leader. u = NotLeader (Some leader)")
  case True
  then obtain leader where u: "u = NotLeader (Some leader)" by blast
  obtain r t1 where h: "redirected_leader_target x now shard leader t = (r, t1)" by fastforce
  have "good t1 \<and> rt_shard_count t1 = rt_shard_count t"
    using hint_good [OF h assms(2,3)] by blast
  then show ?thesis
    using assms(1) try_other_good h by (fastforce simp: after_hop_def u split: option.splits if_splits)
next
  case False
  then show ?thesis
    using assms(1,2) try_other_good
    by (auto simp: after_hop_def split: upstream.splits option.splits if_splits)
qed

lemma forward_once_good:
  assumes "forward_once x env r (t, w) = (u, (t', w'))" "good t" "env_keeps good env"
  shows "good t' \<and> rt_shard_count t' = rt_shard_count t"
  using assms
  by (fastforce simp: forward_once_def Let_def env_keeps_def split: option.splits if_splits prod.splits sent.splits)

lemma forward_hops_good:
  assumes "forward_hops n x env e r (t, w) = (resp, (t', w'))" "good t" "env_keeps good env"
    and "\<And>s. fr_shard r = Some s \<Longrightarrow> s < rt_shard_count t"
  shows "good t' \<and> rt_shard_count t' = rt_shard_count t"
  using assms
proof (induction n arbitrary: e r t w)
  case (Suc n)
  let ?t = "record_region_request (fr_target r) t" and ?e = "insert (fr_target r) e"
  obtain u t1 w1 where once: "forward_once x env r (?t, w) = (u, (t1, w1))" by (metis prod.exhaust)
  have 1: "good t1 \<and> rt_shard_count t1 = rt_shard_count t"
    using forward_once_good [OF once good_region [OF Suc.prems(2)] Suc.prems(3)] by simp
  obtain hp t2 where hop: "after_hop x (fe_now env w1) ?e (fr_shard r) (fr_method r) u t1 = (hp, t2)"
    by fastforce
  have 2: "good t2 \<and> rt_shard_count t2 = rt_shard_count t"
    using after_hop_good [OF hop] 1 Suc.prems(4) by simp
  show ?case
  proof (cases hp)
    case (Retry target)
    then have "forward_hops n x env ?e (r\<lparr>fr_target := target\<rparr>) (t2, w1) = (resp, (t', w'))"
      using Suc.prems(1) once hop by (simp add: Let_def)
    from Suc.IH [OF this] 2 Suc.prems(3,4) show ?thesis by simp
  qed (use Suc.prems(1) once hop 2 in \<open>simp_all add: Let_def\<close>)
qed simp

lemma choose_target_good:
  assumes "choose_target x identity u body t = ((shard, target), t')" "good t"
  shows "good t'" "rt_shard_count t' = rt_shard_count t" "\<And>s. shard = Some s \<Longrightarrow> s < rt_shard_count t"
  using assms hash_in_range [OF assms(2)] good_pick [OF assms(2), of "{}"] table_counts(2) [of "{}" t]
  by (auto simp: choose_target_def any_node_def Let_def simp del: table_counts
      split: option.splits prod.splits)

lemma route_without_good:
  assumes "route_without_customer_idempotency x env identity m u h body (t, w) = (resp, (t', w'))"
    and "good t" "env_keeps good env"
  shows "good t' \<and> rt_shard_count t' = rt_shard_count t"
proof -
  obtain shard target t1 where c: "choose_target x identity u body t = ((shard, target), t1)"
    by (metis prod.exhaust)
  note t1 = choose_target_good [OF c assms(2)]
  show ?thesis
  proof (cases target)
    case None
    then show ?thesis using assms(1) c t1 by (simp add: route_without_customer_idempotency_def)
  next
    case (Some node)
    then show ?thesis
      using assms(1,3) c t1 forward_hops_good
      by (fastforce simp: route_without_customer_idempotency_def forward_with_redirect_def)
  qed
qed

lemma settle_claim_good:
  assumes "settle_claim x env identity i token resp (t, w) = (resp', (t', w'))" "good t" "env_keeps good env"
  shows "good t' \<and> rt_shard_count t' = rt_shard_count t"
proof -
  obtain r1 t1 w1 where abandon: "route_without_customer_idempotency x env identity POST abandon_uri
      json_headers (x_json_print x (abandon_body i token)) (t, w) = (r1, (t1, w1))"
    by (metis prod.exhaust)
  have "good t2 \<and> rt_shard_count t2 = rt_shard_count t"
    if "complete_customer_idempotency x env identity i token stored (t, w) = (a, (t2, w2))"
    for stored a t2 w2
    using that route_without_good [OF _ assms(2,3)]
    by (auto simp: complete_customer_idempotency_def split: prod.splits)
  then show ?thesis
    using assms(1) abandon route_without_good [OF abandon assms(2,3)]
    by (auto simp: settle_claim_def abandon_customer_idempotency_def split: sum.splits if_splits prod.splits)
qed

lemma route_with_good:
  assumes "route_with_customer_idempotency x env identity m u h body i (t, w) = (resp, (t', w'))"
    and "good t" "env_keeps good env"
  shows "good t' \<and> rt_shard_count t' = rt_shard_count t"
proof -
  have claim: "good t1 \<and> rt_shard_count t1 = rt_shard_count t"
    if "claim_customer_idempotency x env identity i (t, w) = (a, (t1, w1))" for a t1 w1
    using that route_without_good [OF _ assms(2,3)]
    by (auto simp: claim_customer_idempotency_def split: prod.splits)
  from assms(1) show ?thesis
  proof (cases rule: route_with_cases)
    case (refused a)
    then show ?thesis using claim by blast
  next
    case (forwarded claimed token st1 r st2)
    obtain t1 w1 t2 w2 where st: "st1 = (t1, w1)" "st2 = (t2, w2)" by (metis prod.exhaust)
    have 1: "good t1 \<and> rt_shard_count t1 = rt_shard_count t"
      using claim forwarded(1) unfolding st by blast
    then have 2: "good t2 \<and> rt_shard_count t2 = rt_shard_count t"
      using route_without_good [OF forwarded(4) [unfolded st] _ assms(3)] by simp
    then show ?thesis
      using settle_claim_good [OF forwarded(5) [unfolded st] _ assms(3)] by simp
  qed
qed

lemma route_good:
  assumes "route x env identity m u h body (t, w) = (resp, (t', w'))" "good t" "env_keeps good env"
  shows "good t' \<and> rt_shard_count t' = rt_shard_count t"
  using assms(1) route_without_good [OF _ assms(2,3)] route_with_good [OF _ assms(2,3)] assms(2)
  by (auto simp: route_def split: if_splits sum.splits option.splits)

end

text \<open>The shared crate's hash is below the (positive) count it is given.\<close>

definition hash_in_range_of :: "externals \<Rightarrow> bool" where
  "hash_in_range_of x \<longleftrightarrow> (\<forall>key n. 0 < n \<longrightarrow> x_shard_for x key n < n)"

abbreviation server_table :: "externals \<Rightarrow> route_table \<Rightarrow> bool" where
  "server_table x \<equiv> reachable (server_init x) (table_step x)"

interpretation st: table_property x "\<lambda>t. hash_in_range_of x \<and> server_table x t" for x
proof
  fix t e u now s h key
  assume good: "hash_in_range_of x \<and> server_table x t"
  show "hash_in_range_of x \<and> server_table x (record_region_request u t)"
    using good by (blast intro: reach_step step_region)
  show "hash_in_range_of x \<and> server_table x (snd (any_node_excluding e t))"
    using good by (blast intro: reach_step step_any_node)
  show "hash_in_range_of x \<and> server_table x (snd (accept_leader_hint x now s h t))"
    if "s < rt_shard_count t"
    using good that by (blast intro: reach_step step_hint)
  have "0 < rt_shard_count t" using sv.reachable_inv good by (auto simp: server_inv_def)
  with good show "x_shard_for x key (rt_shard_count t) < rt_shard_count t"
    by (simp add: hash_in_range_of_def)
qed

section \<open>Witnesses\<close>

definition sample_layers :: http_layers where
  "sample_layers =
     \<lparr>ly_limit = (\<lambda>n _ _ body. if n < length body then Some (json_response 413 JNull) else None),
      ly_query = (\<lambda>u. Inr (uri_path u)), ly_not_allowed = json_response 405 JNull\<rparr>"

theorem cleartext_never_proxied_witness:
  "serve sample_layers sample_externals sample_lib sample_io sample_forward_env
     (ServeTls \<lparr>tls_cert_path = ''c'', tls_key_path = ''k'', tls_port = 8443\<rparr> 8088) False PUT
     (origin_uri ''/v1/kv'' None) [(''authorization'', ''Bearer x'')] [] (sample_auth, (sample_table, ())) =
   (plaintext_upgrade_required, (sample_auth, (sample_table, ())))"
  using cleartext_never_proxied [of sample_layers sample_externals sample_lib sample_io sample_forward_env
      "\<lparr>tls_cert_path = ''c'', tls_key_path = ''k'', tls_port = 8443\<rparr>" 8088 PUT "origin_uri ''/v1/kv'' None"
      "[(''authorization'', ''Bearer x'')]" "[]" "(sample_auth, (sample_table, ()))"]
  by (auto simp: origin_uri_def uri_path_def split: prod.splits)

theorem operator_routes_hide_topology_witness:
  "fst (serve sample_layers sample_externals sample_lib sample_io sample_forward_env (ServePlain 8088) False GET
      (origin_uri ''/_lb/routes'' None) [] [] (sample_auth, (sample_table, ()))) =
   fst (serve sample_layers sample_externals sample_lib sample_io sample_forward_env (ServePlain 8088) False GET
      (origin_uri ''/_lb/routes'' None) [] [] (sample_auth, (sample_table\<lparr>rt_nodes := []\<rparr>, ())))"
proof -
  have "fst (request_identity sample_externals sample_lib sample_io (fe_secret sample_forward_env) [] sample_auth) \<noteq>
      Inr (Some v)" for v
    by (simp add: request_identity_def trusted_edge_identity_def unique_header_str_def header_get_all_def
        authenticate_def extract_credential_def header_get_def split: option.split)
  then show ?thesis
    using operator_routes_hide_topology [of "origin_uri ''/_lb/routes'' None" sample_externals sample_lib sample_io
        sample_forward_env "[]" sample_auth sample_layers "ServePlain 8088" False GET "[]" sample_table "()"
        "sample_table\<lparr>rt_nodes := []\<rparr>" "()"]
    by (simp add: origin_uri_def uri_path_def)
qed

end
