(* ===== verification/Test_Base.thy ===== *)
theory Test_Base
  imports Json
begin

text \<open>
  The base of the crate's unit tests, which the theories \<open>Tests_Routing\<close> to \<open>Tests_Proxy\<close> state
  on the model: each \<^verbatim>\<open>#[test]\<close> is a definition with the test's assertions, and the lemma that it
  holds. The tests run the libraries, so the externals need concrete functions here that read
  the texts that occur in the tests: JSON without escapes and fractions, URIs in origin form,
  and URLs with authority, path, query and fragment (\<open>tx\<close>).
\<close>

section \<open>Reading JSON\<close>

text \<open>A recursive descent; its fuel is the text itself.\<close>

definition skip_ws :: "string \<Rightarrow> string" where
  "skip_ws s = dropWhile (\<lambda>c. c \<in> set [CHR '' '', CHR 0x0A, CHR 0x0D, CHR 0x09]) s"

definition read_digits :: "string \<Rightarrow> string \<times> string" where
  "read_digits s = (takeWhile (\<lambda>c. 48 \<le> code_of c \<and> code_of c \<le> 57) s,
     dropWhile (\<lambda>c. 48 \<le> code_of c \<and> code_of c \<le> 57) s)"

definition read_string :: "string \<Rightarrow> (string \<times> string) option" where
  "read_string s = (case s of c # r \<Rightarrow>
       if c = CHR 0x22 then split_once CHR 0x22 r else None | [] \<Rightarrow> None)"

fun read_json :: "string \<Rightarrow> string \<Rightarrow> (json \<times> string) option"
  and read_items :: "string \<Rightarrow> string \<Rightarrow> (json list \<times> string) option"
  and read_fields :: "string \<Rightarrow> string \<Rightarrow> ((string \<times> json) list \<times> string) option" where
  "read_json [] s = None"
| "read_json (_ # n) s =
     (let s = skip_ws s in
      if starts_with s ''null'' then Some (JNull, drop 4 s)
      else if starts_with s ''true'' then Some (JBool True, drop 4 s)
      else if starts_with s ''false'' then Some (JBool False, drop 5 s)
      else if starts_with s [CHR 0x22] then map_option (apfst JString) (read_string s)
      else if starts_with s ''[]'' then Some (JArray [], drop 2 s)
      else if starts_with s ''['' then map_option (apfst JArray) (read_items n (drop 1 s))
      else if starts_with s ''{}'' then Some (JObject [], drop 2 s)
      else if starts_with s ''{'' then map_option (apfst JObject) (read_fields n (drop 1 s))
      else (case read_digits s of (ds, r) \<Rightarrow>
        (case parse_unsigned 64 ds of Some k \<Rightarrow> Some (JUint (of_nat k), r) | None \<Rightarrow> None)))"
| "read_items [] s = None"
| "read_items (_ # n) s =
     (case read_json n s of None \<Rightarrow> None
      | Some (v, r) \<Rightarrow>
          (let r = skip_ws r in
           if starts_with r '','' then map_option (apfst ((#) v)) (read_items n (drop 1 r))
           else if starts_with r '']'' then Some ([v], drop 1 r) else None))"
| "read_fields [] s = None"
| "read_fields (_ # n) s =
     (case read_string (skip_ws s) of None \<Rightarrow> None
      | Some (k, r) \<Rightarrow>
          (let r = skip_ws r in
           if \<not> starts_with r '':'' then None
           else (case read_json n (drop 1 r) of None \<Rightarrow> None
             | Some (v, r) \<Rightarrow>
                 (let r = skip_ws r in
                  if starts_with r '','' then map_option (apfst ((#) (k, v))) (read_fields n (drop 1 r))
                  else if starts_with r ''}'' then Some ([(k, v)], drop 1 r) else None))))"

definition test_json :: "bytes \<Rightarrow> json option" where
  "test_json bs =
     (let s = of_bytes bs in
      case read_json (CHR ''!'' # s) s of None \<Rightarrow> None
      | Some (v, r) \<Rightarrow> if skip_ws r = [] then Some v else None)"

section \<open>Reading URIs and URLs\<close>

text \<open>The origin form of a request target, and \<^verbatim>\<open>scheme://authority/path?query\<close>.\<close>

definition origin_of :: "string \<Rightarrow> uri" where
  "origin_of s = (case split_once CHR ''?'' s of
     Some (p, q) \<Rightarrow> origin_uri p (Some q) | None \<Rightarrow> origin_uri s None)"

definition split_authority :: "string \<Rightarrow> (string \<times> string \<times> string) option" where
  "split_authority s =
     (case split_once CHR '':'' s of None \<Rightarrow> None
      | Some (scheme, r) \<Rightarrow>
          if \<not> starts_with r ''//'' then None
          else (let r = drop 2 r; stop = (\<lambda>c. c \<in> set ''/?#'')
            in Some (scheme, takeWhile (\<lambda>c. \<not> stop c) r, dropWhile (\<lambda>c. \<not> stop c) r)))"

definition test_uri :: "string \<Rightarrow> uri option" where
  "test_uri s =
     (if starts_with s ''/'' then Some (origin_of s)
      else case split_authority s of None \<Rightarrow> None
      | Some (scheme, authority, r) \<Rightarrow>
          Some ((origin_of (if r = [] then ''/'' else r))
            \<lparr>uri_scheme := Some scheme, uri_authority := Some authority\<rparr>))"

definition dot_dot :: "string set" where
  "dot_dot = set [''..'', ''%2e%2e'', ''.%2e'', ''%2e.'']"

text \<open>The URL standard's dot segments, in the percent-encoded spellings too.\<close>

fun collapse_dots :: "string list \<Rightarrow> string list \<Rightarrow> string list" where
  "collapse_dots acc [] = rev acc"
| "collapse_dots acc (s # ss) =
     (if to_ascii_lowercase s \<in> dot_dot
      then collapse_dots (if ss = [] then [] # drop 1 acc else drop 1 acc) ss
      else if to_ascii_lowercase s \<in> set [''.'', ''%2e'']
      then collapse_dots (if ss = [] then [] # acc else acc) ss
      else collapse_dots (s # acc) ss)"

definition join_slash :: "string list \<Rightarrow> string" where
  "join_slash ss = concat (map ((#) CHR ''/'') ss)"

definition test_url :: "string \<Rightarrow> url option" where
  "test_url s =
     (case split_authority s of None \<Rightarrow> None
      | Some (scheme, authority, r) \<Rightarrow>
          (let (r, fragment) = (case split_once CHR ''#'' r of Some (r, f) \<Rightarrow> (r, Some f) | None \<Rightarrow> (r, None));
               (r, query) = (case split_once CHR ''?'' r of Some (r, q) \<Rightarrow> (r, Some q) | None \<Rightarrow> (r, None));
               (user, host) = (case split_once CHR ''@'' authority of Some (u, h) \<Rightarrow> (u, h) | None \<Rightarrow> ([], authority));
               (user, password) = (case split_once CHR '':'' user of Some (u, p) \<Rightarrow> (u, Some p) | None \<Rightarrow> (user, None));
               path = (if r = [] then ''/'' else join_slash (collapse_dots [] (split_on CHR ''/'' (drop 1 r))))
           in if host = [] then None
              else Some \<lparr>url_scheme = scheme, url_host = Some host, url_username = user, url_password = password,
                url_path = path, url_query = query, url_fragment = fragment,
                url_str = scheme @ ''://'' @ authority @ path @
                  (case query of Some q \<Rightarrow> ''?'' @ q | None \<Rightarrow> []) @
                  (case fragment of Some f \<Rightarrow> ''#'' @ f | None \<Rightarrow> [])\<rparr>))"

definition tx :: externals where
  "tx = sample_externals\<lparr>x_url_parse := test_url, x_uri_parse := test_uri, x_json_parse := test_json\<rparr>"

section \<open>Evaluation\<close>

lemma tx_simps:
  "x_url_parse tx = test_url" "x_uri_parse tx = test_uri" "x_json_parse tx = test_json"
  "x_shard_for tx key n = of_nat (length key) mod n" "x_org_scoped_key tx org key = CHR 0x01 # org @ CHR 0x01 # key"
  "x_lock_key tx = ''lock-coordination''" "x_service_key tx = ''service-discovery''"
  "x_json_print tx v = []" "x_propose_error tx v = None" "x_sha256 tx bs = bs"
  by (simp_all add: tx_def sample_externals_def)

lemma percent_decode_ascii:
  "is_ascii (percent_decode_bytes p s) \<Longrightarrow> percent_decode s p = percent_decode_bytes p s"
  by (simp add: percent_decode_def from_utf8_lossy_valid is_ascii_valid_utf8)

text \<open>
  Equations by which the tests evaluate faster: ASCII and upper case letters are told by the bits of
  a character.
\<close>

lemma ascii_digit7: "code_of c < 128 \<longleftrightarrow> \<not> digit7 c"
  by (cases c) simp

lemma str_chars_code [code]:
  "str_chars s = (if list_ex digit7 s then map snd (str_chunks s) else map (\<lambda>c. [c]) s)"
proof (cases "list_ex digit7 s")
  case False
  then have "is_ascii s" by (simp add: is_ascii_def ascii_digit7 list_all_iff list_ex_iff)
  with False show ?thesis by (simp add: str_chars_ascii)
qed (simp add: str_chars_def)

lemma upper_case_digits: "65 \<le> code_of c \<Longrightarrow> code_of c \<le> 90 \<Longrightarrow> digit6 c \<and> \<not> digit5 c"
proof (cases c)
  case (Char b0 b1 b2 b3 b4 b5 b6 b7)
  have le: "of_bool b \<le> (1 :: nat)" for b by simp
  show "65 \<le> code_of c \<Longrightarrow> code_of c \<le> 90 \<Longrightarrow> digit6 c \<and> \<not> digit5 c"
    using le [of b0] le [of b1] le [of b2] le [of b3] le [of b4]
    by (cases b5; cases b6; cases b7) (simp_all add: Char)
qed

lemma to_ascii_lowercase_code [code]:
  "to_ascii_lowercase s = map (\<lambda>c. if digit6 c \<and> \<not> digit5 c then
     (if 65 \<le> code_of c \<and> code_of c \<le> 90 then char_of (code_of c + 32) else c) else c) s"
  unfolding to_ascii_lowercase_def using upper_case_digits by (intro map_cong) auto

lemmas json_eval = test_json_def skip_ws_def starts_with_def read_string_def read_digits_def parse_unsigned_def
  split_once_def Let_def

lemmas uri_eval = test_uri_def origin_of_def split_once_def split_authority_def Let_def

lemmas url_eval = test_url_def collapse_dots.simps dot_dot_def join_slash_def split_once_def split_authority_def
  to_ascii_lowercase_def Let_def

lemmas routing_eval = routing_key_def routing_key_with_body_def json_body_field_def path_segs_def trim_matches_def
  trim_end_matches_def origin_of_def split_once_def segs_start_def query_param_def percent_decode_query_def
  percent_decode_path_def percent_decode_ascii is_ascii_def to_digit16_def scoped_def name_keyed_def
  shard_for_request_def char_of_eq_iff tx_simps Let_def

section \<open>Hexadecimal text\<close>

lemma hex_digit: "n < 16 \<Longrightarrow> from_digit16 n \<in> set ''0123456789abcdef''"
proof -
  have "list_all (\<lambda>n. from_digit16 n \<in> set ''0123456789abcdef'') [0 ..< 16]" by code_simp
  then show "n < 16 \<Longrightarrow> from_digit16 n \<in> set ''0123456789abcdef''" by (simp add: list_all_iff)
qed

lemma hex_digits_chars: "length (hex_digits b) = 2 \<and> set (hex_digits b) \<subseteq> set ''0123456789abcdef''"
proof -
  have "unat b < 2 ^ LENGTH(8)" by (rule unsigned_less)
  then have "unat b div 16 < 16" by (simp add: less_mult_imp_div_less)
  then show ?thesis
    using hex_digit [of "unat b div 16"] hex_digit [of "unat b mod 16"]
    by (simp only: hex_digits_def list.size list.set insert_subset) simp
qed

lemma format_hex_chars: "length (format_hex bs) = 2 * length bs \<and> set (format_hex bs) \<subseteq> set ''0123456789abcdef''"
proof (induction bs)
  case (Cons b bs)
  then show ?case using hex_digits_chars [of b] by (simp only: format_hex_def list.map concat.simps) auto
qed (simp add: format_hex_def)

lemma format_hex_without:
  assumes "c \<notin> set ''0123456789abcdef''"
  shows "c \<notin> set (format_hex bs)"
  using format_hex_chars [of bs] assms by blast

end
