(* ===== verification/Tests_Routing.thy ===== *)
theory Tests_Routing
  imports Test_Base
begin

text \<open>
  The unit tests of \<^verbatim>\<open>src/src/routing.rs\<close>, on the model. \<open>key\<close> and \<open>key_with_body\<close> are the
  tests' helpers: routing keys without an organisation. The coordinators' shards, which come
  from the routing crate, are arguments.
\<close>

definition test_key :: "string \<Rightarrow> string option" where
  "test_key s = routing_key tx (origin_of s) None"

definition test_key_with_body :: "string \<Rightarrow> string \<Rightarrow> string option" where
  "test_key_with_body s body = routing_key_with_body tx (origin_of s) (as_bytes body) None"

definition org_owned_keys_are_scoped_with_the_callers_org :: bool where
  "org_owned_keys_are_scoped_with_the_callers_org \<longleftrightarrow>
     (let org = Some ''org_1''; scoped = (\<lambda>k. Some (x_org_scoped_key tx ''org_1'' k)) in
      routing_key tx (origin_of ''/v1/kv?key=orders/checkout'') org = scoped ''orders/checkout'' \<and>
      routing_key tx (origin_of ''/v1/idempotency?key=req-1'') org = scoped ''req-1'' \<and>
      routing_key tx (origin_of ''/v1/rate-limit/acme/checkout/check'') org = scoped ''checkout'' \<and>
      routing_key tx (origin_of ''/v1/cron/schedules/nightly/history'') org = scoped ''nightly'' \<and>
      routing_key tx (origin_of ''/v1/elections/cleanup/campaign'') org = scoped ''cleanup'' \<and>
      routing_key_with_body tx (origin_of ''/v1/idempotency/claim'') (as_bytes ''{\"key\":\"req-9\"}'') org =
        scoped ''req-9'')"

definition coordinator_keys_are_never_org_scoped :: bool where
  "coordinator_keys_are_never_org_scoped \<longleftrightarrow>
     (let org = Some ''org_1'' in
      routing_key tx (origin_of ''/v1/locks/acquire'') org = Some (x_lock_key tx) \<and>
      routing_key tx (origin_of ''/v1/semaphores/acquire'') org = Some (x_lock_key tx) \<and>
      routing_key tx (origin_of ''/v1/services/api'') org = Some (x_service_key tx))"

definition same_key_diverges_across_orgs_and_agrees_across_paths_within_one_org :: bool where
  "same_key_diverges_across_orgs_and_agrees_across_paths_within_one_org \<longleftrightarrow>
     (let kv = origin_of ''/v1/kv?key=orders/checkout'';
          under_a = routing_key tx kv (Some ''org_a''); under_b = routing_key tx kv (Some ''org_b'');
          anonymous = routing_key tx kv None;
          via_kv_query = routing_key tx (origin_of ''/v1/kv?key=orders/checkout'') (Some ''org_a'');
          via_idem_query = routing_key tx (origin_of ''/v1/idempotency?key=orders/checkout'') (Some ''org_a'');
          via_idem_body = routing_key_with_body tx (origin_of ''/v1/idempotency/claim'')
            (as_bytes ''{\"key\":\"orders/checkout\",\"ttl\":\"24h\"}'') (Some ''org_a'') in
      list_all (\<lambda>k. k \<noteq> None) [under_a, under_b, anonymous, via_kv_query, via_idem_query, via_idem_body] \<and>
      under_a \<noteq> under_b \<and> under_a \<noteq> anonymous \<and> under_b \<noteq> anonymous \<and>
      via_kv_query = via_idem_query \<and> via_kv_query = via_idem_body \<and> via_kv_query = under_a \<and>
      list_all (\<lambda>n. x_shard_for tx (the via_kv_query) n = x_shard_for tx (the via_idem_body) n) [4, 16, 256])"

definition kv_key_comes_from_the_query_param_and_is_slash_safe :: bool where
  "kv_key_comes_from_the_query_param_and_is_slash_safe \<longleftrightarrow>
     test_key ''/v1/kv?key=orders'' = Some ''orders'' \<and>
     test_key ''/v1/kv?key=flags/checkout'' = Some ''flags/checkout'' \<and>
     test_key ''/v1/kv?key=a%2Fb'' = Some ''a/b'' \<and>
     test_key ''/v1/kv?watch=true&key=x'' = Some ''x'' \<and>
     test_key ''/v1/kv'' = None"

definition idempotency_routes_by_query_or_body_key :: bool where
  "idempotency_routes_by_query_or_body_key \<longleftrightarrow>
     test_key ''/v1/idempotency?key=stripe-webhook/event_123'' = Some ''stripe-webhook/event_123'' \<and>
     test_key_with_body ''/v1/idempotency/claim'' ''{\"key\":\"stripe-webhook/event_123\",\"ttl\":\"24h\"}'' =
       Some ''stripe-webhook/event_123'' \<and>
     test_key_with_body ''/v1/idempotency/complete'' ''{\"key\":\"stripe-webhook/event_123\",\"fencing_token\":7}'' =
       Some ''stripe-webhook/event_123'' \<and>
     test_key ''/v1/idempotency/claim'' = None"

definition idempotency_body_routing_rejects_malformed_or_non_string_keys :: bool where
  "idempotency_body_routing_rejects_malformed_or_non_string_keys \<longleftrightarrow>
     test_key_with_body ''/v1/idempotency/claim'' ''{\"key\":7}'' = None \<and>
     test_key_with_body ''/v1/idempotency/complete'' ''{\"owner\":\"worker\"}'' = None \<and>
     test_key_with_body ''/v1/idempotency/claim'' ''not-json'' = None"

definition routing_decodes_plus_and_percent_escapes_in_keys :: bool where
  "routing_decodes_plus_and_percent_escapes_in_keys \<longleftrightarrow>
     test_key ''/v1/kv?key=tenant+space%2Fcheckout'' = Some ''tenant space/checkout'' \<and>
     test_key ''/v1/rate-limit/acme/tenant+space%2Fcheckout/check'' = Some ''tenant+space/checkout'' \<and>
     test_key ''/v1/cron/schedules/nightly+backup/history'' = Some ''nightly+backup'' \<and>
     test_key ''/v1/elections/worker%2Bprimary/campaign'' = Some ''worker+primary'' \<and>
     test_key ''/v1/elections/prod%2Fjob+runner%2Fleader'' = Some ''prod/job+runner/leader''"

definition new_primitives_route_by_query_or_body_exactly_like_the_node :: bool where
  "new_primitives_route_by_query_or_body_exactly_like_the_node \<longleftrightarrow>
     test_key ''/v1/counters?key=rollout%2Ffailures'' = Some ''rollout/failures'' \<and>
     list_all (\<lambda>family. test_key (''/v1/'' @ family @ ''?name=release-942%2Freviewers'') = Some ''release-942/reviewers'')
       [''barriers'', ''tasks'', ''effects'', ''handoffs'', ''decisions'', ''budgets'', ''claims''] \<and>
     test_key_with_body ''/v1/counters/add'' ''{\"key\":\"rollout/failures\",\"delta\":1}'' = Some ''rollout/failures'' \<and>
     test_key_with_body ''/v1/barriers/arrive'' ''{\"name\":\"release-942/reviewers\",\"participant\":\"w1\"}'' =
       Some ''release-942/reviewers'' \<and>
     test_key_with_body ''/v1/tasks/claim'' ''{\"name\":\"repo/acme/issue/482\",\"worker\":\"w1\"}'' =
       Some ''repo/acme/issue/482'' \<and>
     test_key_with_body ''/v1/budgets/reserve'' ''{\"name\":\"org/acme\",\"usd_micros\":5}'' = Some ''org/acme'' \<and>
     test_key ''/v1/counters'' = None \<and>
     test_key_with_body ''/v1/tasks/create'' ''not-json'' = None"

definition all_lock_and_semaphore_requests_route_to_the_one_coordinator_shard :: "(u32 \<Rightarrow> u32) \<Rightarrow> bool" where
  "all_lock_and_semaphore_requests_route_to_the_one_coordinator_shard lock_coordination_shard \<longleftrightarrow>
     list_all (\<lambda>p. test_key p = Some (x_lock_key tx))
       [''/v1/locks/acquire'', ''/v1/locks/renew'', ''/v1/locks/cancel'', ''/v1/locks/release'',
        ''/v1/locks?key=orders/42'', ''/v1/semaphores/acquire'', ''/v1/semaphores/renew'',
        ''/v1/semaphores/cancel'', ''/v1/semaphores/release'', ''/v1/semaphores?key=db-pool''] \<and>
     list_all (\<lambda>n. shard_for_request tx (origin_of ''/v1/locks/acquire'') n = Some (lock_coordination_shard n) \<and>
        shard_for_request tx (origin_of ''/v1/semaphores/acquire'') n =
          shard_for_request tx (origin_of ''/v1/locks/acquire'') n)
       [4, 16, 256]"

definition other_primitives_route_by_their_path_identifier :: bool where
  "other_primitives_route_by_their_path_identifier \<longleftrightarrow>
     test_key ''/v1/rate-limit/acme/checkout/check'' = Some ''checkout'' \<and>
     test_key ''/v1/cron/schedules/nightly/history'' = Some ''nightly'' \<and>
     test_key ''/v1/elections/cleanup/campaign'' = Some ''cleanup'' \<and>
     test_key ''/v1/status'' = None \<and> test_key ''/healthz'' = None"

definition service_discovery_routes_to_the_registry_coordinator :: "(u32 \<Rightarrow> u32) \<Rightarrow> bool" where
  "service_discovery_routes_to_the_registry_coordinator service_discovery_shard \<longleftrightarrow>
     list_all (\<lambda>p. test_key p = Some (x_service_key tx))
       [''/v1/services'', ''/v1/services/api'', ''/v1/services/api/instances/i1'', ''/v1/services/api/watch''] \<and>
     list_all (\<lambda>n. shard_for_request tx (origin_of ''/v1/services/api/instances/i1'') n =
        Some (service_discovery_shard n)) [4, 16, 256]"

section \<open>Results\<close>

lemma org_owned_keys_are_scoped_with_the_callers_org_holds: "org_owned_keys_are_scoped_with_the_callers_org"
  by (simp add: org_owned_keys_are_scoped_with_the_callers_org_def test_key_def test_key_with_body_def routing_eval json_eval)

lemma coordinator_keys_are_never_org_scoped_holds: "coordinator_keys_are_never_org_scoped"
  by (simp add: coordinator_keys_are_never_org_scoped_def test_key_def test_key_with_body_def routing_eval json_eval)

lemma same_key_diverges_across_orgs_and_agrees_across_paths_within_one_org_holds: "same_key_diverges_across_orgs_and_agrees_across_paths_within_one_org"
  by (simp add: same_key_diverges_across_orgs_and_agrees_across_paths_within_one_org_def test_key_def test_key_with_body_def routing_eval json_eval)

lemma kv_key_comes_from_the_query_param_and_is_slash_safe_holds: "kv_key_comes_from_the_query_param_and_is_slash_safe"
  by (simp add: kv_key_comes_from_the_query_param_and_is_slash_safe_def test_key_def test_key_with_body_def routing_eval json_eval)

lemma idempotency_routes_by_query_or_body_key_holds: "idempotency_routes_by_query_or_body_key"
  by (simp add: idempotency_routes_by_query_or_body_key_def test_key_def test_key_with_body_def routing_eval json_eval)

lemma idempotency_body_routing_rejects_malformed_or_non_string_keys_holds: "idempotency_body_routing_rejects_malformed_or_non_string_keys"
  by (simp add: idempotency_body_routing_rejects_malformed_or_non_string_keys_def test_key_def test_key_with_body_def routing_eval json_eval)

lemma routing_decodes_plus_and_percent_escapes_in_keys_holds: "routing_decodes_plus_and_percent_escapes_in_keys"
  by (simp add: routing_decodes_plus_and_percent_escapes_in_keys_def test_key_def test_key_with_body_def routing_eval json_eval)

lemma new_primitives_route_by_query_or_body_exactly_like_the_node_holds: "new_primitives_route_by_query_or_body_exactly_like_the_node"
  by (simp add: new_primitives_route_by_query_or_body_exactly_like_the_node_def test_key_def test_key_with_body_def routing_eval json_eval)

lemma all_lock_and_semaphore_requests_route_to_the_one_coordinator_shard_holds:
  "all_lock_and_semaphore_requests_route_to_the_one_coordinator_shard (\<lambda>n. x_shard_for tx (x_lock_key tx) n)"
  by (simp add: all_lock_and_semaphore_requests_route_to_the_one_coordinator_shard_def test_key_def test_key_with_body_def routing_eval json_eval)

lemma other_primitives_route_by_their_path_identifier_holds: "other_primitives_route_by_their_path_identifier"
  by (simp add: other_primitives_route_by_their_path_identifier_def test_key_def test_key_with_body_def routing_eval json_eval)

lemma service_discovery_routes_to_the_registry_coordinator_holds:
  "service_discovery_routes_to_the_registry_coordinator (\<lambda>n. x_shard_for tx (x_service_key tx) n)"
  by (simp add: service_discovery_routes_to_the_registry_coordinator_def test_key_def test_key_with_body_def routing_eval json_eval)

end
