(* ===== verification/Tests_Revocation.thy ===== *)
theory Tests_Revocation
  imports Test_Base
begin

text \<open>
  The unit tests of \<^verbatim>\<open>src/src/revocation.rs\<close>, on the model: the test authority
  (\<open>policy_authority\<close>), which counts its calls, and the HTTP fixture with the serde decoding of an
  answer. The test of concurrent callers is left out: it fixes one schedule, and the gate's
  single flight is proved of all of them.
\<close>

section \<open>The test authority\<close>

definition test_claims :: "string \<Rightarrow> string \<Rightarrow> string \<Rightarrow> claims" where
  "test_claims org subject jti = \<lparr>cl_sub = subject, cl_org_id = org, cl_scopes = [''kv:read''],
     cl_iss = ''fiducia-auth'', cl_aud = ''fiducia-api'', cl_iat = 90, cl_exp = 900, cl_jti = jti\<rparr>"

text \<open>Delays, and the time limit of a call, in milliseconds.\<close>

record policy_authority =
  pa_calls :: nat
  pa_fail_after_first :: bool
  pa_delay :: nat

definition policy_check :: "claims \<Rightarrow> policy_authority \<Rightarrow> (authority_error + bool) \<times> policy_authority" where
  "policy_check cl a =
     (let revoked = (cl_jti cl = ''revoked-token'' \<or> cl_sub cl = ''revoked-subject'') in
      (if pa_fail_after_first a \<and> 0 < pa_calls a then Inl Transport else Inr revoked,
       a\<lparr>pa_calls := pa_calls a + 1\<rparr>))"

text \<open>
  The gate with this authority. It is called when the cache has no answer and the clock has not
  gone back; \<open>authorize\<close> uses its answer then and ignores the argument otherwise.
\<close>

record policy_gate =
  pg_authority :: policy_authority
  pg_cache :: revocation_cache
  pg_timeout :: nat

definition authority_called :: "string \<Rightarrow> u64 \<Rightarrow> revocation_cache \<Rightarrow> bool" where
  "authority_called key now c \<longleftrightarrow>
     (case gate_lookup key now c of (Some _, _) \<Rightarrow> False | (None, c) \<Rightarrow> record_refresh_start now c \<noteq> None)"

definition policy_authorize :: "claims \<Rightarrow> u64 \<Rightarrow> policy_gate \<Rightarrow> authorization \<times> policy_gate" where
  "policy_authorize cl now g =
     (case policy_check cl (pg_authority g) of (r, a) \<Rightarrow>
      case authorize tx cl now (if pg_timeout g < pa_delay a then TimedOut else Answered r) (pg_cache g) of
        (out, c) \<Rightarrow> (out, g\<lparr>pg_cache := c,
           pg_authority := (if authority_called (revocation_cache_key tx cl) now (pg_cache g) then a
             else pg_authority g)\<rparr>))"

definition test_gate :: "bool \<Rightarrow> u64 \<Rightarrow> policy_gate" where
  "test_gate fail_after_first freshness =
     \<lparr>pg_authority = \<lparr>pa_calls = 0, pa_fail_after_first = fail_after_first, pa_delay = 0\<rparr>,
      pg_cache = cache_new freshness 64, pg_timeout = 200\<rparr>"

section \<open>The tests\<close>

definition allows_only_after_authority_and_uses_fresh_cache :: bool where
  "allows_only_after_authority_and_uses_fresh_cache \<longleftrightarrow>
     (case test_claims ''org-a'' ''subject-a'' ''token-a'' of token \<Rightarrow>
      case policy_authorize token 100 (test_gate False 30) of (r1, g) \<Rightarrow>
      case policy_authorize token 110 g of (r2, g) \<Rightarrow>
        r1 = Allowed \<and> r2 = Allowed \<and> pa_calls (pg_authority g) = 1)"

definition exact_token_and_subject_revocations_deny :: bool where
  "exact_token_and_subject_revocations_deny \<longleftrightarrow>
     (case policy_authorize (test_claims ''org-a'' ''subject-a'' ''revoked-token'') 100 (test_gate False 30) of (r1, g) \<Rightarrow>
      case policy_authorize (test_claims ''org-a'' ''revoked-subject'' ''token-b'') 100 g of (r2, g) \<Rightarrow>
        r1 = Revoked \<and> r2 = Revoked)"

definition stale_allow_and_stale_deny_both_fail_closed_on_outage :: bool where
  "stale_allow_and_stale_deny_both_fail_closed_on_outage \<longleftrightarrow>
     list_all (\<lambda>token.
       case policy_authorize token 100 (test_gate True 1) of (r1, g) \<Rightarrow>
       case policy_authorize token 102 g of (r2, g) \<Rightarrow>
         (r1 = Allowed \<or> r1 = Revoked) \<and> r2 = Unavailable RefreshFailed)
       [test_claims ''org-a'' ''subject-a'' ''token-a'', test_claims ''org-a'' ''subject-a'' ''revoked-token'']"

definition clock_regression_never_serves_cached_allow :: bool where
  "clock_regression_never_serves_cached_allow \<longleftrightarrow>
     (case test_claims ''org-a'' ''subject-a'' ''token-a'' of token \<Rightarrow>
      case policy_authorize token 100 (test_gate False 30) of (r1, g) \<Rightarrow>
      case policy_authorize token 99 g of (r2, g) \<Rightarrow>
        r1 = Allowed \<and> r2 = Unavailable ClockRegression)"

definition equal_jti_in_different_tenants_is_independent :: bool where
  "equal_jti_in_different_tenants_is_independent \<longleftrightarrow>
     (case policy_authorize (test_claims ''org-a'' ''subject'' ''shared-jti'') 100 (test_gate False 30) of (r1, g) \<Rightarrow>
      case policy_authorize (test_claims ''org-b'' ''subject'' ''shared-jti'') 100 g of (r2, g) \<Rightarrow>
        r1 = Allowed \<and> r2 = Allowed \<and> pa_calls (pg_authority g) = 2)"

definition refresh_timeout_denies :: bool where
  "refresh_timeout_denies \<longleftrightarrow>
     fst (policy_authorize (test_claims ''org-a'' ''subject-a'' ''token-a'') 100
       \<lparr>pg_authority = \<lparr>pa_calls = 0, pa_fail_after_first = False, pa_delay = 50\<rparr>,
        pg_cache = cache_new 30 64, pg_timeout = 5\<rparr>) = Unavailable RefreshTimedOut"

subsection \<open>The HTTP adapter\<close>

text \<open>serde's decoding of \<^verbatim>\<open>CheckEnvelope\<close> and \<^verbatim>\<open>WireDecision\<close>: no unknown fields; an optional
  field may be absent or null.\<close>

definition only_fields :: "string list \<Rightarrow> json \<Rightarrow> bool" where
  "only_fields ks j = (case j of JObject fs \<Rightarrow> list_all (\<lambda>(k, _). k \<in> set ks) fs | _ \<Rightarrow> False)"

definition optional_field :: "string \<Rightarrow> (json \<Rightarrow> 'a option) \<Rightarrow> json \<Rightarrow> 'a option option" where
  "optional_field k read j =
     (case jget k j of None \<Rightarrow> Some None | Some JNull \<Rightarrow> Some None | Some v \<Rightarrow> map_option Some (read v))"

definition target_of_json :: "json \<Rightarrow> matched_target option" where
  "target_of_json j =
     (if j = JString ''token_id'' then Some TokenId else if j = JString ''subject'' then Some Subject else None)"

definition decision_of_json :: "json \<Rightarrow> wire_decision option" where
  "decision_of_json j =
     (if \<not> only_fields [''revoked'', ''matched_target'', ''generation'', ''expires_at''] j then None
      else case (Option.bind (jget ''revoked'' j) as_bool, optional_field ''matched_target'' target_of_json j,
          optional_field ''generation'' as_u64 j, optional_field ''expires_at'' as_u64 j) of
        (Some r, Some m, Some g, Some e) \<Rightarrow>
          Some \<lparr>wd_revoked = r, wd_matched_target = m, wd_generation = g, wd_expires_at = e\<rparr>
      | _ \<Rightarrow> None)"

definition envelope_of_json :: "json \<Rightarrow> wire_decision option" where
  "envelope_of_json j =
     (if only_fields [''decision''] j then Option.bind (jget ''decision'' j) decision_of_json else None)"

definition reader_secret :: string where
  "reader_secret = ''reader-secret-reader-secret-reader-secret''"

text \<open>\<open>printed\<close> is the text in which the fixture's JSON travels.\<close>

definition check_fixture :: "string \<Rightarrow> bytes \<Rightarrow> string \<Rightarrow> (nat \<times> bytes option) option" where
  "check_fixture secret printed provided =
     (if provided \<noteq> secret then Some (401, Some (as_bytes ''{\"error\":\"unauthorized\"}''))
      else Some (200, Some printed))"

definition fixture_authority :: "string \<Rightarrow> claims \<Rightarrow> u64 \<Rightarrow> authority_error + bool" where
  "fixture_authority body = check_revocation (\<lambda>provided cl. check_fixture reader_secret (as_bytes body) provided)
     (\<lambda>bs. Option.bind (test_json bs) envelope_of_json) (Some reader_secret)"

definition http_adapter_accepts_well_formed_reader_response :: bool where
  "http_adapter_accepts_well_formed_reader_response \<longleftrightarrow>
     fixture_authority
       ''{\"decision\":{\"revoked\":false,\"matched_target\":null,\"generation\":null,\"expires_at\":null}}''
       (test_claims ''org-a'' ''subject-a'' ''token-a'') 100 = Inr False"

definition http_adapter_rejects_inconsistent_or_extra_fields :: bool where
  "http_adapter_rejects_inconsistent_or_extra_fields \<longleftrightarrow>
     fixture_authority
       ''{\"decision\":{\"revoked\":false,\"matched_target\":\"token_id\",\"generation\":1,\"expires_at\":200,\"unexpected\":true}}''
       (test_claims ''org-a'' ''subject-a'' ''token-a'') 100 = Inl Malformed"

section \<open>Results\<close>

lemmas gate_eval = policy_authorize_def policy_check_def authority_called_def authorize_def gate_lookup_def lookup_def
  advance_def refresh_def record_refresh_start_def finish_refresh_def apply_decision_def cache_new_def test_gate_def
  saturating_sub_def word_le_nat_alt hinsert_def Let_def

lemma tenant_keys_differ:
  "revocation_cache_key tx (test_claims ''org-a'' ''subject'' j) \<noteq> revocation_cache_key tx (test_claims ''org-b'' ''subject'' j)"
  by (simp add: revocation_cache_key_def format_hex_inj key_preimage_def test_claims_def tx_simps as_bytes_def)

lemma cl_test_claims: "cl_jti (test_claims org subject jti) = jti" "cl_sub (test_claims org subject jti) = subject"
  by (simp_all add: test_claims_def)

lemmas adapter_eval = fixture_authority_def check_revocation_def check_fixture_def is_success_def max_response_bytes_def
  envelope_of_json_def decision_of_json_def only_fields_def optional_field_def target_of_json_def
  validate_wire_decision_def

lemma allows_only_after_authority_and_uses_fresh_cache_holds: "allows_only_after_authority_and_uses_fresh_cache"
  by (simp add: allows_only_after_authority_and_uses_fresh_cache_def cl_test_claims gate_eval)

lemma exact_token_and_subject_revocations_deny_holds: "exact_token_and_subject_revocations_deny"
  by (simp add: exact_token_and_subject_revocations_deny_def cl_test_claims gate_eval)

lemma stale_allow_and_stale_deny_both_fail_closed_on_outage_holds: "stale_allow_and_stale_deny_both_fail_closed_on_outage"
  by (simp add: stale_allow_and_stale_deny_both_fail_closed_on_outage_def cl_test_claims gate_eval)

lemma clock_regression_never_serves_cached_allow_holds: "clock_regression_never_serves_cached_allow"
  by (simp add: clock_regression_never_serves_cached_allow_def cl_test_claims gate_eval)

lemma equal_jti_in_different_tenants_is_independent_holds: "equal_jti_in_different_tenants_is_independent"
  by (simp add: equal_jti_in_different_tenants_is_independent_def cl_test_claims tenant_keys_differ
      tenant_keys_differ [symmetric] gate_eval)

lemma refresh_timeout_denies_holds: "refresh_timeout_denies"
  by (simp add: refresh_timeout_denies_def cl_test_claims gate_eval)

lemma http_adapter_accepts_well_formed_reader_response_holds: "http_adapter_accepts_well_formed_reader_response"
  by (simp add: http_adapter_accepts_well_formed_reader_response_def adapter_eval json_eval)

lemma http_adapter_rejects_inconsistent_or_extra_fields_holds: "http_adapter_rejects_inconsistent_or_extra_fields"
  by (simp add: http_adapter_rejects_inconsistent_or_extra_fields_def adapter_eval json_eval)

end
