(* ===== verification/Tests_Scopes.thy ===== *)
theory Tests_Scopes
  imports Test_Base
begin

text \<open>
  The unit tests of \<^verbatim>\<open>src/src/proxy.rs\<close> on authorisation, the classification of answers, redirects
  and URLs, on the model: the tests that need no node.
\<close>

section \<open>Authorisation\<close>

definition test_identity_with_scopes :: "string \<Rightarrow> string list \<Rightarrow> verified_identity" where
  "test_identity_with_scopes org scopes = \<lparr>vi_kind = ApiKey, vi_org_id = org, vi_key_id = Some ''key_1'',
     vi_scopes = scopes, vi_require_idempotency = False\<rparr>"

definition identity_with_scopes :: "string list \<Rightarrow> verified_identity" where
  "identity_with_scopes scopes = \<lparr>vi_kind = ApiKey, vi_org_id = ''org_test'', vi_key_id = Some ''key_test'',
     vi_scopes = scopes, vi_require_idempotency = False\<rparr>"

definition observe_inventory_routes_require_an_admin_scope :: bool where
  "observe_inventory_routes_require_an_admin_scope \<longleftrightarrow>
     list_all (\<lambda>path.
       required_scopes_for_route GET (origin_of path) = admin_read_scopes \<and>
       isl (authorize_route (Some (identity_with_scopes [''locks:read''])) GET (origin_of path)) \<and>
       authorize_route (Some (identity_with_scopes [''admin:read''])) GET (origin_of path) = Inr ())
       [''/v1/observe/locks'', ''/v1/observe/semaphores'', ''/v1/observe/elections'', ''/v1/observe/shards'',
        ''/v1/observe/metrics'']"

definition plain_lock_reads_still_accept_locks_read :: bool where
  "plain_lock_reads_still_accept_locks_read \<longleftrightarrow>
     (case origin_of ''/v1/locks?key=orders%2F42'' of u \<Rightarrow>
      required_scopes_for_route GET u = locks_read_scopes \<and>
      authorize_route (Some (identity_with_scopes [''locks:read''])) GET u = Inr ())"

definition coordination_renew_and_cancel_require_lock_write_scope :: bool where
  "coordination_renew_and_cancel_require_lock_write_scope \<longleftrightarrow>
     list_all (\<lambda>path. case origin_of path of u \<Rightarrow>
       required_scopes_for_route POST u = locks_write_scopes \<and>
       isl (authorize_route None POST u) \<and>
       isl (authorize_route (Some (identity_with_scopes [''locks:read''])) POST u) \<and>
       isl (authorize_route (Some (identity_with_scopes [''admin:read''])) POST u) \<and>
       authorize_route (Some (identity_with_scopes [''locks:write''])) POST u = Inr () \<and>
       authorize_route (Some (identity_with_scopes [''admin:write''])) POST u = Inr ())
       [''/v1/locks/renew'', ''/v1/locks/cancel'', ''/v1/semaphores/renew'', ''/v1/semaphores/cancel'']"

definition route_scope_matrix_enforces_read_write_boundaries :: bool where
  "route_scope_matrix_enforces_read_write_boundaries \<longleftrightarrow>
     (case (origin_of ''/v1/services/api'', origin_of ''/v1/services/api/instances/i-1'') of (read_uri, write_uri) \<Rightarrow>
      case \<lambda>scope. Some (test_identity_with_scopes ''org_1'' [scope]) of key \<Rightarrow>
      authorize_route (key ''services:read'') GET read_uri = Inr () \<and>
      isl (authorize_route (key ''services:read'') PUT write_uri) \<and>
      authorize_route (key ''services:write'') PUT write_uri = Inr () \<and>
      authorize_route (key ''services:*'') PUT write_uri = Inr () \<and>
      authorize_route (key ''admin:read'') GET read_uri = Inr () \<and>
      isl (authorize_route (key ''admin:read'') PUT write_uri) \<and>
      authorize_route (key ''admin:write'') PUT write_uri = Inr () \<and>
      isl (authorize_route None PUT write_uri) \<and> isl (authorize_route None GET read_uri) \<and>
      authorize_route None GET (origin_of ''/healthz'') = Inr ())"

definition issuable :: "string list" where
  "issuable = [''requests:read'', ''requests:write'', ''locks:read'', ''locks:write'', ''kv:read'', ''kv:write'',
     ''services:read'', ''services:write'', ''elections:read'', ''elections:write'', ''cron:read'', ''cron:write'',
     ''rate-limit:read'', ''rate-limit:write'']"

definition families :: "string list" where
  "families = [''kv'', ''locks'', ''semaphores'', ''rw'', ''idempotency'', ''rate-limit'', ''cron'', ''elections'',
     ''services'', ''counters'', ''barriers'', ''tasks'', ''effects'', ''handoffs'', ''decisions'', ''budgets'', ''claims'']"

definition family_reachable :: "string \<Rightarrow> http_method \<Rightarrow> bool" where
  "family_reachable family m \<longleftrightarrow>
     (case origin_of (''/v1/'' @ family) of u \<Rightarrow>
      case filter (\<lambda>scope. \<not> starts_with scope ''admin:'') (required_scopes_for_route m u) of
        [] \<Rightarrow> False
      | granted # rest \<Rightarrow> list_all (\<lambda>scope. scope \<in> set issuable) (granted # rest) \<and>
          authorize_route (Some (identity_with_scopes [granted])) m u = Inr ())"

definition every_routed_family_is_reachable_with_an_issuable_api_key_scope :: bool where
  "every_routed_family_is_reachable_with_an_issuable_api_key_scope \<longleftrightarrow>
     list_all (\<lambda>family. list_all (family_reachable family) [GET, POST]) families"

definition previously_unreachable_families_no_longer_require_admin :: bool where
  "previously_unreachable_families_no_longer_require_admin \<longleftrightarrow>
     list_all (\<lambda>(path, read_scope, write_scope).
       case (origin_of path, Some (identity_with_scopes [read_scope]), Some (identity_with_scopes [write_scope])) of
         (u, reader, writer) \<Rightarrow>
       authorize_route reader GET u = Inr () \<and> authorize_route writer POST u = Inr () \<and>
       isl (authorize_route reader POST u))
       [(''/v1/counters/hits'', ''kv:read'', ''kv:write''), (''/v1/barriers/b1'', ''locks:read'', ''locks:write''),
        (''/v1/handoffs/h1'', ''locks:read'', ''locks:write''), (''/v1/claims/c1'', ''locks:read'', ''locks:write''),
        (''/v1/tasks/t1'', ''requests:read'', ''requests:write''),
        (''/v1/effects/e1'', ''requests:read'', ''requests:write''),
        (''/v1/decisions/d1'', ''requests:read'', ''requests:write''),
        (''/v1/budgets/b1'', ''rate-limit:read'', ''rate-limit:write'')]"

section \<open>Answers, redirects and URLs\<close>

definition event_stream_detection_is_explicit_and_read_only :: bool where
  "event_stream_detection_is_explicit_and_read_only \<longleftrightarrow>
     (case header_insert ''accept'' ''application/json, text/event-stream'' [] of accepts_sse \<Rightarrow>
      is_streaming_request GET (origin_of ''/v1/kv?key=x&watch=true'') [] \<and>
      is_streaming_request GET (origin_of ''/v1/elections/x/watch'') accepts_sse \<and>
      \<not> is_streaming_request GET (origin_of ''/v1/kv?key=x&watch=false'') [] \<and>
      \<not> is_streaming_request POST (origin_of ''/v1/kv?key=x&watch=true'') accepts_sse)"

definition classifies_current_node_not_leader_response_from_headers :: bool where
  "classifies_current_node_not_leader_response_from_headers \<longleftrightarrow>
     classify_upstream_response tx 503 (header_insert ''x-fiducia-leader'' ''http://leader-a:8090''
       (header_insert ''x-fiducia-not-leader'' ''true'' [])) [] = NotLeader (Some ''http://leader-a:8090'')"

definition follower_without_a_leader_hint_yields_none_so_the_lb_round_robins :: bool where
  "follower_without_a_leader_hint_yields_none_so_the_lb_round_robins \<longleftrightarrow>
     classify_upstream_response tx 503 (header_insert ''x-fiducia-not-leader'' ''true'' []) [] = NotLeader None"

text \<open>
  The interfaces crate's \<^verbatim>\<open>ProposeError\<close>, as far as the two tests go: an optional leader, and the
  reason they use.
\<close>

definition test_propose_error :: "json \<Rightarrow> propose_error option" where
  "test_propose_error j =
     (if jget ''reason'' j = Some (JString ''not_leader'')
      then Some \<lparr>pe_reason = ReasonNotLeader, pe_leader = Option.bind (jget ''leader'' j) as_str\<rparr>
      else None)"

definition classifies_json_not_leader_fallback :: bool where
  "classifies_json_not_leader_fallback \<longleftrightarrow>
     classify_upstream_response (tx\<lparr>x_propose_error := test_propose_error\<rparr>) 200 []
       (as_bytes ''{\"committed\":false,\"error\":{\"reason\":\"not_leader\",\"shard\":9,\"leader\":\"http://leader-b:8090\",\"retryable\":true}}'')
     = NotLeader (Some ''http://leader-b:8090'')"

definition classifies_not_leader_without_hint_for_round_robin_retry :: bool where
  "classifies_not_leader_without_hint_for_round_robin_retry \<longleftrightarrow>
     classify_upstream_response (tx\<lparr>x_propose_error := test_propose_error\<rparr>) 503 []
       (as_bytes ''{\"committed\":false,\"error\":{\"reason\":\"not_leader\",\"shard\":9,\"retryable\":true}}'')
     = NotLeader None"

definition redirect_hint_updates_route_table_before_retry :: "instant \<Rightarrow> bool" where
  "redirect_hint_updates_route_table_before_retry now \<longleftrightarrow>
     (case redirected_leader_target tx now (Some 3) ''http://new-leader:8090''
        (table_new tx 16 [''http://old-leader:8090'', ''http://new-leader:8090'']) of (next, t) \<Rightarrow>
      next = Some ''http://new-leader:8090'' \<and> leader_for t 3 = Some ''http://new-leader:8090'')"

definition redirect_hint_outside_membership_is_rejected :: "instant \<Rightarrow> bool" where
  "redirect_hint_outside_membership_is_rejected now \<longleftrightarrow>
     (case redirected_leader_target tx now (Some 3) ''https://evil.example'' (table_new tx 16 [''http://known:8090''])
      of (next, t) \<Rightarrow> next = None \<and> leader_for t 3 \<noteq> Some ''https://evil.example'')"

definition only_read_methods_are_safe_for_transport_failover :: bool where
  "only_read_methods_are_safe_for_transport_failover \<longleftrightarrow>
     list_all method_is_replay_safe [GET, HEAD, OPTIONS] \<and>
     list_all (\<lambda>m. \<not> method_is_replay_safe m) [POST, PUT, PATCH, DELETE]"

definition location_header_can_supply_leader_base_url :: bool where
  "location_header_can_supply_leader_base_url \<longleftrightarrow>
     leader_base_url tx ''http://leader-c:8090/v1/kv/orders?x=1'' = Some ''http://leader-c:8090''"

definition upstream_url_refuses_a_path_the_url_crate_would_rewrite :: bool where
  "upstream_url_refuses_a_path_the_url_crate_would_rewrite \<longleftrightarrow>
     upstream_url tx ''http://node-a:8090'' (origin_of ''/v1/locks/../observe/locks'') = None \<and>
     upstream_url tx ''http://node-a:8090/'' (origin_of ''/v1/kv?key=orders%2F42'') =
       Some ''http://node-a:8090/v1/kv?key=orders%2F42''"

definition only_final_responses_are_cacheable_for_idempotent_replay :: bool where
  "only_final_responses_are_cacheable_for_idempotent_replay \<longleftrightarrow>
     list_all is_cacheable_idempotent_response [200, 201, 400, 404, 409] \<and>
     list_all (\<lambda>status. \<not> is_cacheable_idempotent_response status) [500, 502, 503, 504, 408, 429]"

section \<open>Results\<close>

lemmas classify_eval = classify_upstream_response_def header_value_def header_get_def header_to_str_def json_not_leader_def
  test_propose_error_def tx_simps

lemma tests_scopes_hold:
  "observe_inventory_routes_require_an_admin_scope \<and>
   plain_lock_reads_still_accept_locks_read \<and>
   coordination_renew_and_cancel_require_lock_write_scope \<and>
   route_scope_matrix_enforces_read_write_boundaries \<and>
   previously_unreachable_families_no_longer_require_admin \<and>
   event_stream_detection_is_explicit_and_read_only \<and>
   classifies_current_node_not_leader_response_from_headers \<and>
   follower_without_a_leader_hint_yields_none_so_the_lb_round_robins \<and>
   redirect_hint_updates_route_table_before_retry now \<and>
   redirect_hint_outside_membership_is_rejected now \<and>
   only_read_methods_are_safe_for_transport_failover \<and>
   location_header_can_supply_leader_base_url \<and>
   upstream_url_refuses_a_path_the_url_crate_would_rewrite \<and>
   only_final_responses_are_cacheable_for_idempotent_replay"
  by code_simp

lemma families_readable: "list_all (\<lambda>family. family_reachable family GET) families"
  by code_simp

lemma families_writable: "list_all (\<lambda>family. family_reachable family POST) families"
  by code_simp

lemma every_routed_family_is_reachable_with_an_issuable_api_key_scope_holds:
  "every_routed_family_is_reachable_with_an_issuable_api_key_scope"
  using families_readable families_writable
  by (simp add: every_routed_family_is_reachable_with_an_issuable_api_key_scope_def list_all_iff)

lemma classifies_json_not_leader_fallback_holds: "classifies_json_not_leader_fallback"
  by (simp add: classifies_json_not_leader_fallback_def classify_eval json_eval)

lemma classifies_not_leader_without_hint_for_round_robin_retry_holds: "classifies_not_leader_without_hint_for_round_robin_retry"
  by (simp add: classifies_not_leader_without_hint_for_round_robin_retry_def classify_eval json_eval)

end
