(* ===== verification/Tests_Proxy.thy ===== *)
theory Tests_Proxy
  imports Tests_Scopes Cluster
begin

text \<open>
  The unit tests of \<^verbatim>\<open>src/src/proxy.rs\<close> on retries, on the entry point without a node, and on the
  idempotency data, on the model. An upstream of a test is a function of its address: unreachable,
  an answer that breaks off, an event stream, or a server. The two tests of the stream budget are
  left out: they run against the clock, which appears in the model only as failed exchanges and chunks.
\<close>

section \<open>Upstreams\<close>

definition forward_test :: "string \<Rightarrow> http_method \<Rightarrow> string \<Rightarrow> header_map \<Rightarrow> string \<Rightarrow> forward_request" where
  "forward_test target m u h body = \<lparr>fr_identity = None, fr_target = target, fr_shard = Some 0, fr_method = m,
     fr_uri = origin_of u, fr_headers = h, fr_body = as_bytes body\<rparr>"

text \<open>The state counts the requests of the server at the given address.\<close>

definition upstreams :: "(string \<Rightarrow> sent) \<Rightarrow> string \<Rightarrow> nat forward_env" where
  "upstreams reply counted = \<lparr>fe_secret = None,
     fe_send = (\<lambda>out (t, n). (reply (or_node out), (t, if or_node out = counted then n + 1 else n))),
     fe_now = (\<lambda>_. 0)\<rparr>"

definition server_reply :: "string \<Rightarrow> sent" where
  "server_reply body = Replied \<lparr>ur_status = 200, ur_headers = [], ur_chunks = [Some (as_bytes body)]\<rparr>"

definition truncated_response_upstream :: sent where
  "truncated_response_upstream =
     Replied \<lparr>ur_status = 200, ur_headers = [(''content-length'', ''100'')], ur_chunks = [Some (as_bytes ''x''), None]\<rparr>"

definition event_stream_chunk :: bytes where
  "event_stream_chunk = as_bytes (''event: put'' @ [CHR 0x0A] @ ''data: {\"value\":\"on\"}'' @ [CHR 0x0A, CHR 0x0A])"

definition event_stream_upstream :: sent where
  "event_stream_upstream =
     Replied \<lparr>ur_status = 200, ur_headers = [(''content-type'', ''text/event-stream; charset=utf-8'')],
       ur_chunks = [Some event_stream_chunk]\<rparr>"

section \<open>Retries\<close>

definition retries_a_down_known_node_against_another_known_node :: bool where
  "retries_a_down_known_node_against_another_known_node \<longleftrightarrow>
     resp_status (fst (forward_with_redirect tx
       (upstreams (\<lambda>node. if node = ''http://dead:1'' then ConnectFailed else server_reply ''live node'') ''http://live:2'')
       (forward_test ''http://dead:1'' GET ''/v1/status'' [] [])
       (table_new tx 4 [''http://dead:1'', ''http://live:2''], 0))) = 200"

definition retries_a_mutation_when_connection_failure_proves_it_was_not_sent :: bool where
  "retries_a_mutation_when_connection_failure_proves_it_was_not_sent \<longleftrightarrow>
     resp_status (fst (forward_with_redirect tx
       (upstreams (\<lambda>node. if node = ''http://dead:1'' then ConnectFailed else server_reply ''committed'') ''http://live:2'')
       (forward_test ''http://dead:1'' PUT ''/v1/kv?key=failover'' [] ''{\"value\":\"safe\"}'')
       (table_new tx 4 [''http://dead:1'', ''http://live:2''], 0))) = 200"

definition retry_loop_does_not_revisit_a_dead_stale_leader_before_trying_every_member :: bool where
  "retry_loop_does_not_revisit_a_dead_stale_leader_before_trying_every_member \<longleftrightarrow>
     (case fst (forward_with_redirect tx
       (upstreams (\<lambda>node. if node = ''http://dead:1'' then ConnectFailed
          else if node = ''http://follower:2''
          then Replied \<lparr>ur_status = 307, ur_headers = [(''x-fiducia-leader'', ''http://dead:1'')], ur_chunks = []\<rparr>
          else server_reply ''{\"served_by\":\"healthy-third-member\"}'') ''http://healthy:3'')
       (forward_test ''http://dead:1'' GET ''/v1/kv?key=x'' [] [])
       (table_new tx 1 [''http://dead:1'', ''http://follower:2'', ''http://healthy:3''], 0)) of resp \<Rightarrow>
      resp_status resp = 200 \<and> resp_body resp = BodyBytes (as_bytes ''{\"served_by\":\"healthy-third-member\"}''))"

definition ambiguous_mutation_not_replayed :: "http_method \<Rightarrow> string \<Rightarrow> string \<Rightarrow> bool" where
  "ambiguous_mutation_not_replayed m u body \<longleftrightarrow>
     (case forward_with_redirect tx
        (upstreams (\<lambda>node. if node = ''http://ambiguous:1'' then truncated_response_upstream
          else server_reply ''would-commit'') ''http://live:2'')
        (forward_test ''http://ambiguous:1'' m u [] body)
        (table_new tx 4 [''http://ambiguous:1'', ''http://live:2''], 0) of (resp, (t, hits)) \<Rightarrow>
      resp_status resp = 502 \<and> hits = 0)"

definition ambiguous_mutation_transport_fails_closed_without_replaying :: bool where
  "ambiguous_mutation_transport_fails_closed_without_replaying \<longleftrightarrow>
     ambiguous_mutation_not_replayed PUT ''/v1/kv?key=ambiguous'' ''{\"value\":\"one\"}''"

definition ambiguous_lock_renew_transport_fails_closed_without_replaying :: bool where
  "ambiguous_lock_renew_transport_fails_closed_without_replaying \<longleftrightarrow>
     ambiguous_mutation_not_replayed POST ''/v1/locks/renew''
       ''{\"keys\":[\"orders/42\"],\"holder\":\"worker-1\",\"fencing_token\":7,\"ttl_ms\":30000}''"

definition ambiguous_read_transport_retries_another_known_node :: bool where
  "ambiguous_read_transport_retries_another_known_node \<longleftrightarrow>
     (case forward_with_redirect tx
        (upstreams (\<lambda>node. if node = ''http://ambiguous:1'' then truncated_response_upstream
          else server_reply ''safe-read'') ''http://live:2'')
        (forward_test ''http://ambiguous:1'' GET ''/v1/kv?key=ambiguous'' [] [])
        (table_new tx 4 [''http://ambiguous:1'', ''http://live:2''], 0) of (resp, (t, hits)) \<Rightarrow>
      resp_status resp = 200 \<and> hits = 1)"

definition successful_event_stream_is_forwarded_without_waiting_for_eof :: bool where
  "successful_event_stream_is_forwarded_without_waiting_for_eof \<longleftrightarrow>
     (case fst (forward_once tx (upstreams (\<lambda>_. event_stream_upstream) [])
        (forward_test ''http://events:1'' GET ''/v1/kv?key=x&watch=true'' (header_insert ''accept'' ''text/event-stream'' []) [])
        (table_new tx 4 [], 0)) of
        Served resp \<Rightarrow> resp_status resp = 200 \<and>
          header_get (resp_headers resp) ''content-type'' = Some ''text/event-stream; charset=utf-8'' \<and>
          resp_body resp = BodyStream [Some event_stream_chunk]
      | _ \<Rightarrow> False)"

section \<open>The entry point\<close>

definition test_identity_org :: "string \<Rightarrow> verified_identity" where
  "test_identity_org org = test_identity_with_scopes org [''kv:write'']"

definition test_identity_requiring_idempotency :: "string \<Rightarrow> verified_identity" where
  "test_identity_requiring_idempotency org = (test_identity_org org)\<lparr>vi_require_idempotency := True\<rparr>"

definition idempotency_headers :: "string \<Rightarrow> header_map" where
  "idempotency_headers key = header_insert ''content-type'' ''application/json''
     (header_insert idempotency_key_header key [])"

text \<open>A field of the answer's JSON; the answers that have one here carry it as a value.\<close>

definition answer_field :: "string \<Rightarrow> response \<Rightarrow> json option" where
  "answer_field f resp = (case resp_body resp of BodyJson j \<Rightarrow> jget f j | _ \<Rightarrow> None)"

definition require_idempotency_rejects_keyless_mutation_before_routing :: "'w forward_env \<Rightarrow> 'w \<Rightarrow> bool" where
  "require_idempotency_rejects_keyless_mutation_before_routing env w \<longleftrightarrow>
     (case fst (route tx env (Some (test_identity_requiring_idempotency ''org_1'')) PUT
        (origin_of ''/v1/kv?key=orders%2F7'') [] (as_bytes ''{\"value\":\"x\"}'') (table_new tx 4 [], w)) of resp \<Rightarrow>
      resp_status resp = 400 \<and> answer_field ''error'' resp = Some (JString ''idempotency_key_required''))"

definition locks_write_with_key :: "'w forward_env \<Rightarrow> 'w \<Rightarrow> string \<Rightarrow> response" where
  "locks_write_with_key env w key =
     fst (route tx env (Some (test_identity_with_scopes ''org_1'' [''locks:write''])) POST (origin_of ''/v1/locks/acquire'')
       (header_insert idempotency_key_header key []) (as_bytes ''{\"key\":\"orders/42\"}'') (table_new tx 4 [], w))"

definition customer_idempotency_rejects_blank_or_oversized_keys_before_routing :: "'w forward_env \<Rightarrow> 'w \<Rightarrow> bool" where
  "customer_idempotency_rejects_blank_or_oversized_keys_before_routing env w \<longleftrightarrow>
     resp_status (locks_write_with_key env w ''   '') = 400 \<and>
     answer_field ''error'' (locks_write_with_key env w ''   '') = Some (JString ''bad_idempotency_key'') \<and>
     resp_status (locks_write_with_key env w (replicate (max_idempotency_key_bytes + 1) CHR ''x'')) = 400 \<and>
     resp_status (locks_write_with_key env w [CHR 0xFF]) = 400"

definition dot_segment_paths_are_rejected_before_authorization :: "'w forward_env \<Rightarrow> 'w \<Rightarrow> bool" where
  "dot_segment_paths_are_rejected_before_authorization env w \<longleftrightarrow>
     list_all (\<lambda>(m, path).
       case fst (route tx env (Some (test_identity_org ''org_1'')) m (origin_of path) [] []
         (table_new tx 4 [''http://node-a:8090''], w)) of resp \<Rightarrow>
       resp_status resp = 400 \<and> answer_field ''error'' resp = Some (JString ''invalid_path''))
       [(GET, ''/v1/locks/../observe/locks''), (GET, ''/v1/locks/%2e%2e/observe/locks''),
        (PUT, ''/v1/locks/../kv?key=x''), (GET, ''/v1/locks/./status'')]"

definition insufficient_scope_is_denied_before_forwarding :: bool where
  "insufficient_scope_is_denied_before_forwarding \<longleftrightarrow>
     (case route tx (cluster_env tx None) (Some (test_identity_with_scopes ''org_1'' [''kv:read''])) PUT
        (origin_of ''/v1/kv?key=orders%2F42'') [] (as_bytes ''{\"value\":\"paid\"}'') (fake_cluster tx ''node:1'') of
        (resp, (t, fake)) \<Rightarrow>
      resp_status resp = 403 \<and> answer_field ''error'' resp = Some (JString ''insufficient_scope'') \<and>
      (case answer_field ''required_scopes'' resp of Some (JArray (s # _)) \<Rightarrow> s = JString ''kv:write'' | _ \<Rightarrow> False) \<and>
      mutation_count fake = 0)"

definition edge_headers_without_the_secret_are_anonymous_and_rejected_for_scoped_route :: bool where
  "edge_headers_without_the_secret_are_anonymous_and_rejected_for_scoped_route \<longleftrightarrow>
     (case header_insert ''x-fiducia-scopes'' ''admin:write'' (header_insert ''x-fiducia-org-id'' ''org_evil'' []) of spoofed \<Rightarrow>
      case trusted_edge_identity spoofed (Some ''real-secret'') of identity \<Rightarrow>
      case route tx (cluster_env tx None) identity PUT (origin_of ''/v1/kv?key=orders%2F1'') spoofed
        (as_bytes ''{\"value\":\"x\"}'') (fake_cluster tx ''node:1'') of (resp, (t, fake)) \<Rightarrow>
      identity = None \<and> resp_status resp = 403 \<and> mutation_count fake = 0)"

section \<open>Idempotency data\<close>

definition customer_idempotency_reports_in_progress_duplicates :: bool where
  "customer_idempotency_reports_in_progress_duplicates \<longleftrightarrow>
     (case from_request tx (Some (test_identity_org ''org_1'')) POST (origin_of ''/v1/locks/acquire'')
        (header_insert ''content-type'' ''application/json'' (header_insert idempotency_key_header ''cust-key-2'' []))
        (as_bytes ''{\"key\":\"orders/42\"}'') of
        Inr (Some i) \<Rightarrow>
          (case response_for_duplicate_claim i \<lparr>ic_claimed = False, ic_duplicate = True, ic_fencing_token = None,
             ic_record = Some (JObject [(''status'', JString ''claimed''),
               (''metadata'', JObject [(''fingerprint'', JString (ci_fingerprint i))])])\<rparr> of
             Some resp \<Rightarrow> resp_status resp = 409 \<and> header_get (resp_headers resp) ''retry-after'' = Some ''1''
           | None \<Rightarrow> False)
      | _ \<Rightarrow> False)"

definition keyed_for_org :: "externals \<Rightarrow> string \<Rightarrow> customer_idempotency option" where
  "keyed_for_org x org =
     (case from_request x (Some (test_identity_org org)) PUT (origin_of ''/v1/kv?key=orders%2F123'')
        (header_insert idempotency_key_header ''order-create-123'' []) (as_bytes ''{\"value\":\"one\"}'') of
        Inr i \<Rightarrow> i | Inl _ \<Rightarrow> None)"

definition customer_idempotency_scopes_keys_by_org_and_hashes_raw_key :: "externals \<Rightarrow> bool" where
  "customer_idempotency_scopes_keys_by_org_and_hashes_raw_key x \<longleftrightarrow>
     (case (keyed_for_org x ''org_a'', keyed_for_org x ''org_b'') of
        (Some a, Some b) \<Rightarrow> ci_internal_key a \<noteq> ci_internal_key b \<and>
          \<not> sublist ''order-create-123'' (ci_internal_key a) \<and> length (ci_key_hash a) = 64
      | _ \<Rightarrow> False)"

definition stored_hex :: "string \<Rightarrow> stored_response" where
  "stored_hex body_hex = \<lparr>st_fingerprint = ''fp'', st_status = 200, st_content_type = Some ''application/json'',
     st_body_hex = body_hex, st_truncated = False\<rparr>"

definition corrupt_stored_body_fails_closed_instead_of_replaying_empty :: bool where
  "corrupt_stored_body_fails_closed_instead_of_replaying_empty \<longleftrightarrow>
     list_all (\<lambda>corrupt. case into_replay_response (stored_hex corrupt) of resp \<Rightarrow>
       resp_status resp = 409 \<and> answer_field ''error'' resp = Some (JString ''idempotency_replay_unavailable''))
       [''zz'', ''abc'', ''0g'']"

definition intact_stored_body_replays_verbatim :: bool where
  "intact_stored_body_replays_verbatim \<longleftrightarrow>
     (case into_replay_response (stored_hex ''7b7d'') of resp \<Rightarrow>
      resp_status resp = 200 \<and> header_get (resp_headers resp) idempotency_replayed_header = Some ''true'' \<and>
      resp_body resp = BodyBytes (as_bytes ''{}''))"

section \<open>Results\<close>

lemma forward_test_target: "(forward_test a m u h b)\<lparr>fr_target := c\<rparr> = forward_test c m u h b"
  by (simp add: forward_test_def)

lemma forward_test_fields: "fr_target (forward_test a m u h b) = a" "fr_method (forward_test a m u h b) = m"
    "fr_shard (forward_test a m u h b) = Some 0"
  by (simp_all add: forward_test_def)

lemma fe_now_upstreams: "fe_now (upstreams reply c) n = 0"
  by (simp add: upstreams_def)

text \<open>One exchange, where the node's URL is good.\<close>

lemma forward_once_upstreams:
  assumes "upstream_url tx a (origin_of u) = Some url"
  shows "forward_once tx (upstreams reply c) (forward_test a m u h b) (t, n) =
    (outcome tx (reply a), (t, if a = c then n + 1 else n))"
  using assms
  by (simp add: forward_once_def forward_test_def upstreams_def outcome_def out_request_for_def identity_headers_def
      secret_headers_def Let_def split: sent.split)

text \<open>The nodes and targets that the tests use.\<close>

definition test_hops :: "(string \<times> string) list" where
  "test_hops =
     [(''http://dead:1'', ''/v1/status''), (''http://live:2'', ''/v1/status''),
      (''http://dead:1'', ''/v1/kv?key=failover''), (''http://live:2'', ''/v1/kv?key=failover''),
      (''http://dead:1'', ''/v1/kv?key=x''), (''http://follower:2'', ''/v1/kv?key=x''),
      (''http://healthy:3'', ''/v1/kv?key=x''),
      (''http://ambiguous:1'', ''/v1/kv?key=ambiguous''), (''http://live:2'', ''/v1/kv?key=ambiguous''),
      (''http://ambiguous:1'', ''/v1/locks/renew''), (''http://live:2'', ''/v1/locks/renew''),
      (''http://events:1'', ''/v1/kv?key=x&watch=true'')]"

lemma test_urls: "list_all (\<lambda>(a, u). upstream_url tx a (origin_of u) \<noteq> None) test_hops"
  by code_simp

lemma good_url:
  assumes "(a, u) \<in> set test_hops"
  shows "forward_once tx (upstreams reply c) (forward_test a m u h b) (t, n) =
    (outcome tx (reply a), (t, if a = c then n + 1 else n))"
proof -
  obtain url where "upstream_url tx a (origin_of u) = Some url"
    using test_urls assms by (auto simp: list_all_iff)
  then show ?thesis by (rule forward_once_upstreams)
qed

lemmas once_eval = read_reply_def response_headers_def is_hop_by_hop_def to_ascii_lowercase_def header_insert_def
  is_event_stream_response_def is_success_def classify_upstream_response_def header_value_def header_get_def
  header_to_str_def eq_ignore_ascii_case_def json_not_leader_def max_upstream_response_bytes_def

lemma test_replies:
  "outcome tx truncated_response_upstream = AmbiguousTransport"
  "outcome tx ConnectFailed = NotSent" "outcome tx SendFailed = AmbiguousTransport"
  "outcome tx (server_reply ''live node'') = Served \<lparr>resp_status = 200, resp_headers = [], resp_body = BodyBytes (as_bytes ''live node'')\<rparr>"
  "outcome tx (server_reply ''committed'') = Served \<lparr>resp_status = 200, resp_headers = [], resp_body = BodyBytes (as_bytes ''committed'')\<rparr>"
  "outcome tx (server_reply ''safe-read'') = Served \<lparr>resp_status = 200, resp_headers = [], resp_body = BodyBytes (as_bytes ''safe-read'')\<rparr>"
  "outcome tx (Replied \<lparr>ur_status = 307, ur_headers = [(''x-fiducia-leader'', ''http://dead:1'')], ur_chunks = []\<rparr>) =
     NotLeader (Some ''http://dead:1'')"
  "outcome tx (server_reply ''{\"served_by\":\"healthy-third-member\"}'') = Served \<lparr>resp_status = 200, resp_headers = [],
     resp_body = BodyBytes (as_bytes ''{\"served_by\":\"healthy-third-member\"}'')\<rparr>"
  by (simp_all add: outcome_def server_reply_def truncated_response_upstream_def once_eval tx_simps json_eval)

text \<open>A stale hint: the address in it is normalised and a member.\<close>

lemma dead_hint:
  "accept_leader_hint tx 0 0 ''http://dead:1'' t = (case known_node tx t ''http://dead:1'' of None \<Rightarrow> (None, t)
     | Some known \<Rightarrow> (Some known, t\<lparr>rt_leaders := hinsert 0 known (rt_leaders t), rt_leader_hints := hinsert 0 0 (rt_leader_hints t)\<rparr>))"
  "normalize_node_url tx ''http://dead:1'' = Some ''http://dead:1''"
proof -
  show n: "normalize_node_url tx ''http://dead:1'' = Some ''http://dead:1''" by code_simp
  then show "accept_leader_hint tx 0 0 ''http://dead:1'' t = (case known_node tx t ''http://dead:1'' of None \<Rightarrow> (None, t)
     | Some known \<Rightarrow> (Some known, t\<lparr>rt_leaders := hinsert 0 known (rt_leaders t), rt_leader_hints := hinsert 0 0 (rt_leader_hints t)\<rparr>))"
    by (simp add: accept_leader_hint_def)
qed

lemma test_tables:
  "table_new tx 4 [''http://dead:1'', ''http://live:2''] =
     \<lparr>rt_shard_count = 4, rt_nodes = [''http://dead:1'', ''http://live:2''], rt_node_metadata = [],
      rt_leaders = [(0, ''http://dead:1''), (1, ''http://live:2''), (2, ''http://dead:1''), (3, ''http://live:2'')],
      rt_leader_hints = [], rt_region_requests = [], rt_cursor = 0\<rparr>"
  "table_new tx 4 [''http://ambiguous:1'', ''http://live:2''] =
     \<lparr>rt_shard_count = 4, rt_nodes = [''http://ambiguous:1'', ''http://live:2''], rt_node_metadata = [],
      rt_leaders = [(0, ''http://ambiguous:1''), (1, ''http://live:2''), (2, ''http://ambiguous:1''), (3, ''http://live:2'')],
      rt_leader_hints = [], rt_region_requests = [], rt_cursor = 0\<rparr>"
  "table_new tx 1 [''http://dead:1'', ''http://follower:2'', ''http://healthy:3''] =
     \<lparr>rt_shard_count = 1, rt_nodes = [''http://dead:1'', ''http://follower:2'', ''http://healthy:3''], rt_node_metadata = [],
      rt_leaders = [(0, ''http://dead:1'')], rt_leader_hints = [], rt_region_requests = [], rt_cursor = 0\<rparr>"
  by code_simp+

lemma max_hops_Suc: "max_hops = Suc (Suc (Suc (Suc 0)))"
  by (simp add: max_hops_def)

lemmas hops_eval = forward_with_redirect_def max_hops_Suc forward_test_target forward_test_fields
  record_region_request_def hinsert_def after_hop_def try_other_def any_node_excluding_def method_is_replay_safe_def Let_def

lemma retries_a_down_known_node_against_another_known_node_holds: "retries_a_down_known_node_against_another_known_node"
  by (simp add: retries_a_down_known_node_against_another_known_node_def hops_eval good_url test_hops_def test_tables test_replies)

lemma retries_a_mutation_when_connection_failure_proves_it_was_not_sent_holds:
  "retries_a_mutation_when_connection_failure_proves_it_was_not_sent"
  by (simp add: retries_a_mutation_when_connection_failure_proves_it_was_not_sent_def hops_eval good_url test_hops_def
      test_tables test_replies)

lemma retry_loop_does_not_revisit_a_dead_stale_leader_before_trying_every_member_holds:
  "retry_loop_does_not_revisit_a_dead_stale_leader_before_trying_every_member"
  by (simp add: retry_loop_does_not_revisit_a_dead_stale_leader_before_trying_every_member_def hops_eval good_url
      test_hops_def test_tables test_replies redirected_leader_target_def dead_hint known_node_def fe_now_upstreams)

lemma ambiguous_mutation_transport_fails_closed_without_replaying_holds:
  "ambiguous_mutation_transport_fails_closed_without_replaying"
  by (simp add: ambiguous_mutation_transport_fails_closed_without_replaying_def ambiguous_mutation_not_replayed_def
      hops_eval good_url test_hops_def test_tables test_replies ambiguous_response_def)

lemma ambiguous_lock_renew_transport_fails_closed_without_replaying_holds:
  "ambiguous_lock_renew_transport_fails_closed_without_replaying"
  by (simp add: ambiguous_lock_renew_transport_fails_closed_without_replaying_def ambiguous_mutation_not_replayed_def
      hops_eval good_url test_hops_def test_tables test_replies ambiguous_response_def)

lemma ambiguous_read_transport_retries_another_known_node_holds: "ambiguous_read_transport_retries_another_known_node"
  by (simp add: ambiguous_read_transport_retries_another_known_node_def hops_eval good_url test_hops_def test_tables test_replies)

lemma successful_event_stream_is_forwarded_without_waiting_for_eof_holds:
  "successful_event_stream_is_forwarded_without_waiting_for_eof"
  by (simp add: successful_event_stream_is_forwarded_without_waiting_for_eof_def good_url test_hops_def outcome_def
      event_stream_upstream_def once_eval trim_def str_simps is_whitespace_def)

lemma tests_proxy_hold:
  "require_idempotency_rejects_keyless_mutation_before_routing env w \<and>
   dot_segment_paths_are_rejected_before_authorization env w \<and>
   insufficient_scope_is_denied_before_forwarding \<and>
   edge_headers_without_the_secret_are_anonymous_and_rejected_for_scoped_route \<and>
   corrupt_stored_body_fails_closed_instead_of_replaying_empty \<and>
   intact_stored_body_replays_verbatim"
  by code_simp

lemma locks_writer_admitted:
  "authorize_route (Some (test_identity_with_scopes ''org_1'' [''locks:write''])) POST (origin_of ''/v1/locks/acquire'') = Inr () \<and>
   \<not> path_has_dot_segment (uri_path (origin_of ''/v1/locks/acquire'')) \<and> \<not> is_idempotency_primitive (origin_of ''/v1/locks/acquire'')"
  by code_simp

lemma trim_blank: "trim ''   '' = []"
  by code_simp

lemma trim_replicate: "trim (replicate n CHR ''x'') = concat (replicate n [CHR ''x''])"
  by (simp add: trim_def str_chars_ascii is_ascii_def list_all_iff map_replicate is_whitespace_def)

lemma customer_idempotency_rejects_blank_or_oversized_keys_before_routing_holds: "customer_idempotency_rejects_blank_or_oversized_keys_before_routing env w"
  by (simp add: customer_idempotency_rejects_blank_or_oversized_keys_before_routing_def locks_write_with_key_def route_def
      locks_writer_admitted from_request_def method_supports_customer_idempotency_def header_get_insert header_to_str_def
      trim_replicate trim_blank max_idempotency_key_bytes_def length_concat sum_list_replicate
      bad_idempotency_key_def error_response_def json_response_def answer_field_def list_all_iff Let_def)

lemma customer_idempotency_reports_in_progress_duplicates_holds: "customer_idempotency_reports_in_progress_duplicates"
  by (simp add: customer_idempotency_reports_in_progress_duplicates_def from_request_def locks_writer_admitted
      method_supports_customer_idempotency_def header_get_insert header_to_str_def trim_def str_simps is_whitespace_def
      max_idempotency_key_bytes_def response_for_duplicate_claim_def in_progress_response_def error_response_def
      json_response_def idempotency_key_header_def Let_def)

text \<open>The hash of a key does not collide on the two organisations.\<close>

lemma customer_idempotency_scopes_keys_by_org_and_hashes_raw_key_holds:
  assumes "\<And>bs. length (x_sha256 x bs) = 32"
    and "x_sha256 x (as_bytes ''org:org_a'') \<noteq> x_sha256 x (as_bytes ''org:org_b'')"
  shows "customer_idempotency_scopes_keys_by_org_and_hashes_raw_key x"
proof -
  let ?u = "origin_of ''/v1/kv?key=orders%2F123''" and ?h = "header_insert idempotency_key_header ''order-create-123'' []"
  have u: "\<not> is_idempotency_primitive ?u" "trim ''order-create-123'' = ''order-create-123''" by code_simp+
  have keyed: "keyed_for_org x org = Some (idempotency_for x (Some (test_identity_org org)) PUT ?u ?h
      (as_bytes ''{\"value\":\"one\"}'') ''order-create-123'')" for org
    by (simp add: keyed_for_org_def from_request_def method_supports_customer_idempotency_def u header_get_insert
        header_to_str_def max_idempotency_key_bytes_def Let_def)
  have org: "org_scope (Some (test_identity_org org)) = ''org:'' @ org" for org
    by (simp add: org_scope_def test_identity_org_def test_identity_with_scopes_def)
  have "CHR ''-'' \<notin> set (ci_internal_key (the (keyed_for_org x ''org_a'')))"
    by (simp add: keyed idempotency_for_def Let_def sha256_hex_def to_hex_eq format_hex_without)
  then have "\<not> sublist ''order-create-123'' (ci_internal_key (the (keyed_for_org x ''org_a'')))"
    by (auto dest: set_mono_sublist)
  then show ?thesis
    using assms
    by (simp add: customer_idempotency_scopes_keys_by_org_and_hashes_raw_key_def keyed idempotency_for_def Let_def
        sha256_hex_def to_hex_eq format_hex_chars format_hex_inj org append_eq_append_conv)
qed

end
