(* ===== verification/Tests_Cluster.thy ===== *)
theory Tests_Cluster
  imports Tests_Proxy
begin

text \<open>
  The unit tests of \<^verbatim>\<open>src/src/proxy.rs\<close> that run requests against the reference node
  (\<open>fake_cluster\<close>), on the model. The libraries and the node's address are arguments: the
  tests hold for all libraries with which the cluster can be reached (\<open>keyed_request\<close>,
  \<open>cluster_ok\<close>).
\<close>

section \<open>The tests\<close>

definition put_keyed :: "externals \<Rightarrow> verified_identity \<Rightarrow> string \<Rightarrow> string \<Rightarrow> string \<Rightarrow> route_table \<times> fake_node \<Rightarrow>
    response \<times> (route_table \<times> fake_node)" where
  "put_keyed x identity target key body st =
     route x (cluster_env x None) (Some identity) PUT (origin_of target) (idempotency_headers key) (as_bytes body) st"

definition replied_json :: "externals \<Rightarrow> response \<Rightarrow> json" where
  "replied_json x resp =
     (case resp_body resp of
        BodyBytes b \<Rightarrow> if b = [] then JNull else (case x_json_parse x b of Some v \<Rightarrow> v | None \<Rightarrow> JNull)
      | BodyJson j \<Rightarrow> j | BodyStream _ \<Rightarrow> JNull)"

definition customer_idempotency_stores_and_replays_completed_mutation :: "externals \<Rightarrow> string \<Rightarrow> bool" where
  "customer_idempotency_stores_and_replays_completed_mutation x addr \<longleftrightarrow>
     (case put_keyed x (test_identity_org ''org_1'') ''/v1/kv?key=orders%2F42'' ''cust-key-1'' ''{\"value\":\"paid\"}''
        (fake_cluster x addr) of (first, (t1, fake1)) \<Rightarrow>
      case put_keyed x (test_identity_org ''org_1'') ''/v1/kv?key=orders%2F42'' ''cust-key-1'' ''{\"value\":\"paid\"}''
        (t1, fake1) of (second, (t2, fake2)) \<Rightarrow>
      resp_status first = 200 \<and>
      header_get (resp_headers first) fiducia_idempotency_header = Some ''stored'' \<and>
      jget ''mutation_count'' (replied_json x first) = Some (JUint 1) \<and> mutation_count fake1 = 1 \<and>
      header_get (last_mutation_headers fake1) idempotency_key_header = None \<and>
      resp_status second = 200 \<and>
      header_get (resp_headers second) idempotency_replayed_header = Some ''true'' \<and>
      replied_json x second = replied_json x first \<and> mutation_count fake2 = 1)"

definition customer_idempotency_does_not_cache_transient_failures_and_retry_reexecutes :: "externals \<Rightarrow> string \<Rightarrow> bool" where
  "customer_idempotency_does_not_cache_transient_failures_and_retry_reexecutes x addr \<longleftrightarrow>
     (case fake_cluster x addr of (t, fake) \<Rightarrow>
      case put_keyed x (test_identity_org ''org_1'') ''/v1/kv?key=orders%2F99'' ''cust-key-transient'' ''{\"value\":\"paid\"}''
        (t, queue_mutation_status 503 fake) of (first, (t1, fake1)) \<Rightarrow>
      case put_keyed x (test_identity_org ''org_1'') ''/v1/kv?key=orders%2F99'' ''cust-key-transient'' ''{\"value\":\"paid\"}''
        (t1, fake1) of (second, (t2, fake2)) \<Rightarrow>
      resp_status first = 503 \<and>
      header_get (resp_headers first) fiducia_idempotency_header = Some ''not_stored'' \<and>
      abandon_count fake1 = 1 \<and> mutation_count fake1 = 1 \<and>
      resp_status second = 200 \<and>
      header_get (resp_headers second) fiducia_idempotency_header = Some ''stored'' \<and>
      mutation_count fake2 = 2 \<and> jget ''mutation_count'' (replied_json x second) = Some (JUint 2))"

definition require_idempotency_does_not_gate_reads :: "externals \<Rightarrow> string \<Rightarrow> bool" where
  "require_idempotency_does_not_gate_reads x addr \<longleftrightarrow>
     resp_status (fst (route x (cluster_env x None) (Some (test_identity_requiring_idempotency ''org_1'')) GET
       (origin_of ''/v1/kv?key=orders%2F7'') [] [] (fake_cluster x addr))) = 200"

definition require_idempotency_allows_mutation_carrying_a_key :: "externals \<Rightarrow> string \<Rightarrow> bool" where
  "require_idempotency_allows_mutation_carrying_a_key x addr \<longleftrightarrow>
     (case put_keyed x (test_identity_requiring_idempotency ''org_1'') ''/v1/kv?key=orders%2F7'' ''cust-key-required''
        ''{\"value\":\"x\"}'' (fake_cluster x addr) of (resp, (t, fake)) \<Rightarrow>
      resp_status resp = 200 \<and> header_get (resp_headers resp) fiducia_idempotency_header = Some ''stored'' \<and>
      mutation_count fake = 1)"

definition customer_idempotency_rejects_same_key_with_different_fingerprint :: "externals \<Rightarrow> string \<Rightarrow> bool" where
  "customer_idempotency_rejects_same_key_with_different_fingerprint x addr \<longleftrightarrow>
     (case put_keyed x (test_identity_org ''org_1'') ''/v1/kv?key=flags%2Fcheckout'' ''same-key'' ''{\"value\":\"on\"}''
        (fake_cluster x addr) of (first, (t1, fake1)) \<Rightarrow>
      case put_keyed x (test_identity_org ''org_1'') ''/v1/kv?key=flags%2Fcheckout'' ''same-key'' ''{\"value\":\"off\"}''
        (t1, fake1) of (second, (t2, fake2)) \<Rightarrow>
      resp_status first = 200 \<and> resp_status second = 409 \<and>
      answer_field ''error'' second = Some (JString ''idempotency_key_conflict'') \<and> mutation_count fake2 = 1)"

definition edge_put :: "externals \<Rightarrow> header_map \<Rightarrow> route_table \<times> fake_node \<Rightarrow> response \<times> (route_table \<times> fake_node)" where
  "edge_put x h st = route x (cluster_env x None) (trusted_edge_identity h (Some ''edge-secret'')) PUT
     (origin_of ''/v1/kv?key=orders%2F1'') h (as_bytes ''{\"value\":\"x\"}'') st"

definition edge_read_only :: header_map where
  "edge_read_only = header_insert ''x-fiducia-scopes'' ''kv:read'' (header_insert ''x-fiducia-org-id'' ''org_1''
     (header_insert ''x-fiducia-auth-kind'' ''api_key'' (header_insert edge_auth_header ''edge-secret'' [])))"

definition edge_writable :: header_map where
  "edge_writable = header_insert ''x-fiducia-scopes'' ''kv:write'' (header_insert ''x-fiducia-org-id'' ''org_1''
     (header_insert edge_auth_header ''edge-secret'' []))"

definition edge_forwarded_request_with_secret_is_trusted_and_scope_checked :: "externals \<Rightarrow> string \<Rightarrow> bool" where
  "edge_forwarded_request_with_secret_is_trusted_and_scope_checked x addr \<longleftrightarrow>
     (case edge_put x edge_read_only (fake_cluster x addr) of (denied, (t1, fake1)) \<Rightarrow>
      case edge_put x edge_writable (t1, fake1) of (allowed, (t2, fake2)) \<Rightarrow>
      trusted_edge_identity edge_read_only (Some ''edge-secret'') \<noteq> None \<and>
      resp_status denied = 403 \<and> mutation_count fake1 = 0 \<and>
      resp_status allowed = 200 \<and> mutation_count fake2 = 1)"

section \<open>Results\<close>

text \<open>What a keyed request leaves behind at a node that does not know its key.\<close>

lemma wire_headers_without_key:
  "header_get (wire_headers None identity h) idempotency_key_header = None"
proof -
  have "idempotency_key_header \<notin> fst ` set (identity_headers identity)"
    by (auto simp: identity_headers_def idempotency_key_header_def split: option.splits)
  moreover have "idempotency_key_header \<notin> fst ` set (client_headers h)"
    by (auto simp: client_headers_def eq_ignore_ascii_case_def)
  ultimately show ?thesis
    by (simp add: header_get_def wire_headers_def secret_headers_def map_of_eq_None_iff image_Un)
qed

lemma marked:
  "resp_status (mark_response v c) = cp_status c" "resp_body (mark_response v c) = BodyBytes (cp_body c)"
  "header_get (resp_headers (mark_response v c)) fiducia_idempotency_header = Some v"
  by (simp_all add: mark_response_def captured_into_response_def header_get_insert Let_def)

text \<open>The JSON of a mutation's answer, as the client reads it: not empty, as the empty text is no JSON.\<close>

lemma mutation_read:
  assumes "keyed_request x secret identity m u h body i t" "x_json_parse x [] = None"
    and "resp_body r = BodyBytes (cp_body (mutation_captured x m u st n))"
  shows "replied_json x r = json_canon (mutation_json m (origin_uri (uri_path u) (uri_query u)) st n)"
    "jget ''mutation_count'' (replied_json x r) = Some (JUint (of_nat n))"
proof -
  let ?v = "origin_uri (uri_path u) (uri_query u)"
  obtain p q where "uri_pq u = Some (p, q)" using assms(1) by (auto simp: keyed_request_def)
  then have "request_target ?v = request_target u"
    by (simp add: request_target_def uri_path_and_query_def uri_path_def uri_query_def origin_uri_def
        split: option.split)
  then have "json_text (mutation_json m ?v st n)"
    using assms(1) idempotency_for_text(2) by (auto simp: keyed_request_def)
  moreover have "json_depth (mutation_json m ?v st n) \<le> 127" by (simp add: mutation_json_def)
  ultimately have "x_json_parse x (x_json_print x (mutation_json m ?v st n)) = Some (json_canon (mutation_json m ?v st n))"
    using assms(1) by (simp add: keyed_request_def cluster_ok_def serde_laws_def)
  then show read: "replied_json x r = json_canon (mutation_json m ?v st n)"
    using assms(2,3) by (auto simp: replied_json_def mutation_captured_def)
  show "jget ''mutation_count'' (replied_json x r) = Some (JUint (of_nat n))"
    unfolding read by (simp add: mutation_json_def del: json_canon.simps) simp
qed

lemma fresh_put:
  assumes req: "keyed_request x None (Some v) PUT (origin_of target) (idempotency_headers key) (as_bytes body) i t"
    and s: "hget (fn_records s) (ci_internal_key i) = None" "fn_mutation_statuses s = []"
  defines "c \<equiv> mutation_captured x PUT (origin_of target) 200 (Suc (mutation_count s))"
  obtains t' s' where "put_keyed x v target key body (t, s) = (mark_response ''stored'' c, (t', s'))"
    "same_routes t t'" "hget (fn_records s') (ci_internal_key i) = Some (completed_record i (stored_from_captured i c))"
    "fn_mutations s' = fn_mutations s @ [wire_headers None (Some v) (idempotency_headers key)]"
    "fn_mutation_statuses s' = []"
proof -
  have "next_status [] = 200" "is_cacheable_idempotent_response 200"
    by (simp_all add: next_status_def is_cacheable_idempotent_response_def is_server_error_def)
  then show ?thesis
    using first_call [OF req, of s] s that
    by (auto simp: put_keyed_def no_redirects_def after_first_call_def Let_def c_def mutation_captured_def hmap_simps)
qed

text \<open>Any later keyed request of the key is answered from the record, and the node stays as it is.\<close>

lemma held_put:
  assumes req: "keyed_request x None (Some v) PUT (origin_of target) (idempotency_headers key) (as_bytes body) i t"
    and held: "hget (fn_records s) (ci_internal_key i) = Some (completed_record i' (stored_from_captured i' c))"
    and first: "keyed_request x secret identity m u h body' i' t'" "ci_internal_key i = ci_internal_key i'"
      "c = mutation_captured x m u st n"
  shows "\<exists>t'. put_keyed x v target key body (t, s) =
    (held_response i (completed_record i' (stored_from_captured i' c)), (t', s))"
proof -
  note D = keyed_requestD [OF first(1)]
  have stores: "stores_mutation x i' m u (stored_from_captured i' c)"
    unfolding stores_mutation_def first(3) by blast
  have "json_text (record_json (completed_record i' (stored_from_captured i' c)))"
    using json_text_record(2) [OF D(2) stored_mutation_text(1) [OF D(2) stores]] .
  moreover have "fits x (committed_json (duplicate_output (ci_internal_key i) (completed_record i' (stored_from_captured i' c))))"
    using D(3) stores unfolding answers_fit_def first(2) by blast
  ultimately show ?thesis
    using held_key_route [OF req held] unfolding put_keyed_def by metis
qed

lemma cluster_put:
  assumes req: "keyed_request x None (Some v) PUT (origin_of target) (idempotency_headers key) (as_bytes body) i
      (fst (fake_cluster x addr))"
  obtains t1 s1 where "put_keyed x v target key body (fake_cluster x addr) =
      (mark_response ''stored'' (mutation_captured x PUT (origin_of target) 200 1), (t1, s1))"
    "same_routes (fst (fake_cluster x addr)) t1"
    "hget (fn_records s1) (ci_internal_key i) =
       Some (completed_record i (stored_from_captured i (mutation_captured x PUT (origin_of target) 200 1)))"
    "fn_mutations s1 = [wire_headers None (Some v) (idempotency_headers key)]"
proof -
  have n: "Suc (mutation_count fake_node_default) = 1" "fn_mutations fake_node_default = []"
    and fresh: "hget (fn_records fake_node_default) (ci_internal_key i) = None" "fn_mutation_statuses fake_node_default = []"
    by (simp_all add: fake_node_default_def mutation_count_def)
  have "(fst (fake_cluster x addr), fake_node_default) = fake_cluster x addr" by (simp add: fake_cluster_def)
  then show ?thesis
    using fresh_put [OF req fresh] that unfolding n append_Nil by metis
qed

text \<open>A stored response small enough to be replayed.\<close>

lemma replayed:
  assumes "length (cp_body (mutation_captured x m u 200 n)) \<le> 32768"
  shows "resp_status (into_replay_response (stored_from_captured i (mutation_captured x m u 200 n))) = 200"
    "resp_body (into_replay_response (stored_from_captured i (mutation_captured x m u 200 n))) =
       BodyBytes (cp_body (mutation_captured x m u 200 n))"
    "header_get (resp_headers (into_replay_response (stored_from_captured i (mutation_captured x m u 200 n))))
       idempotency_replayed_header = Some ''true''"
  using into_replay_stored(1,2,4) [of "mutation_captured x m u 200 n" i] assms
  by (simp_all add: mutation_captured_def idempotency_replayed_header_def)

lemma customer_idempotency_stores_and_replays_completed_mutation_holds:
  assumes req: "keyed_request x None (Some (test_identity_org ''org_1'')) PUT (origin_of ''/v1/kv?key=orders%2F42'')
      (idempotency_headers ''cust-key-1'') (as_bytes ''{\"value\":\"paid\"}'') i (fst (fake_cluster x addr))"
    and small: "length (cp_body (mutation_captured x PUT (origin_of ''/v1/kv?key=orders%2F42'') 200 1)) \<le> 32768"
    and parse: "x_json_parse x [] = None"
  shows "customer_idempotency_stores_and_replays_completed_mutation x addr"
proof -
  let ?u = "origin_of ''/v1/kv?key=orders%2F42''" and ?v = "test_identity_org ''org_1''"
  let ?c = "mutation_captured x PUT ?u 200 1"
  let ?replay = "into_replay_response (stored_from_captured i ?c)"
  obtain t1 s1 where 1: "put_keyed x ?v ''/v1/kv?key=orders%2F42'' ''cust-key-1'' ''{\"value\":\"paid\"}'' (fake_cluster x addr) =
      (mark_response ''stored'' ?c, (t1, s1))" "same_routes (fst (fake_cluster x addr)) t1"
    "hget (fn_records s1) (ci_internal_key i) = Some (completed_record i (stored_from_captured i ?c))"
    "fn_mutations s1 = [wire_headers None (Some ?v) (idempotency_headers ''cust-key-1'')]"
    by (rule cluster_put [OF req])
  have stores: "stores_mutation x i PUT ?u (stored_from_captured i ?c)" unfolding stores_mutation_def by blast
  obtain t2 where 2: "put_keyed x ?v ''/v1/kv?key=orders%2F42'' ''cust-key-1'' ''{\"value\":\"paid\"}'' (t1, s1) =
      (?replay, (t2, s1))"
    using held_put [OF keyed_request_same_routes [OF req 1(2)] 1(3) req refl refl]
    unfolding held_completed [OF stores] by blast
  have "replied_json x (mark_response ''stored'' ?c) = replied_json x ?replay"
    by (simp only: replied_json_def marked(2) replayed(2) [OF small])
  moreover have "jget ''mutation_count'' (replied_json x (mark_response ''stored'' ?c)) = Some (JUint 1)"
    using mutation_read(2) [OF req parse marked(2)] by simp
  moreover have "cp_status ?c = 200" by (simp add: mutation_captured_def)
  ultimately show ?thesis
    using replayed(1,3) [OF small] wire_headers_without_key
    by (simp add: customer_idempotency_stores_and_replays_completed_mutation_def 1(1,4) 2 marked(1,3)
        mutation_count_def last_mutation_headers_def)
qed

lemma customer_idempotency_does_not_cache_transient_failures_and_retry_reexecutes_holds:
  assumes req: "keyed_request x None (Some (test_identity_org ''org_1'')) PUT (origin_of ''/v1/kv?key=orders%2F99'')
      (idempotency_headers ''cust-key-transient'') (as_bytes ''{\"value\":\"paid\"}'') i (fst (fake_cluster x addr))"
    and parse: "x_json_parse x [] = None"
  shows "customer_idempotency_does_not_cache_transient_failures_and_retry_reexecutes x addr"
proof -
  let ?u = "origin_of ''/v1/kv?key=orders%2F99''" and ?v = "test_identity_org ''org_1''"
  let ?s = "queue_mutation_status 503 fake_node_default"
  let ?c = "mutation_captured x PUT ?u 503 1" and ?c' = "mutation_captured x PUT ?u 200 2"
  let ?s1 = "after_first_call x None (Some ?v) PUT ?u (idempotency_headers ''cust-key-transient'') i ?s"
  have q: "next_status (fn_mutation_statuses ?s) = 503" "no_redirects (fn_mutation_statuses ?s)"
    "hget (fn_records ?s) (ci_internal_key i) = None" "Suc (mutation_count ?s) = 1"
    "\<not> is_cacheable_idempotent_response 503"
    by (simp_all add: queue_mutation_status_def fake_node_default_def next_status_def status_from_u16_def
        no_redirects_def is_cacheable_idempotent_response_def is_server_error_def mutation_count_def)
  obtain t1 where 1: "put_keyed x ?v ''/v1/kv?key=orders%2F99'' ''cust-key-transient'' ''{\"value\":\"paid\"}''
      (fst (fake_cluster x addr), ?s) = (mark_response ''not_stored'' ?c, (t1, ?s1))" "same_routes (fst (fake_cluster x addr)) t1"
    using first_call [OF req q(2,3)] unfolding q(1,4) put_keyed_def using q(5) by auto
  have s1: "hget (fn_records ?s1) (ci_internal_key i) = None" "fn_mutation_statuses ?s1 = []"
    "mutation_count ?s1 = 1" "abandon_count ?s1 = 1"
    by (simp_all add: after_first_call_def Let_def queue_mutation_status_def fake_node_default_def next_status_def
        status_from_u16_def mutation_captured_def is_cacheable_idempotent_response_def is_server_error_def
        mutation_count_def abandon_count_def hmap_simps)
  then have two: "Suc (mutation_count ?s1) = 2" by simp
  obtain t2 s2 where 2: "put_keyed x ?v ''/v1/kv?key=orders%2F99'' ''cust-key-transient'' ''{\"value\":\"paid\"}'' (t1, ?s1) =
      (mark_response ''stored'' ?c', (t2, s2))"
    "fn_mutations s2 = fn_mutations ?s1 @ [wire_headers None (Some ?v) (idempotency_headers ''cust-key-transient'')]"
    using fresh_put [OF keyed_request_same_routes [OF req 1(2)] s1(1,2)] unfolding two by metis
  have "jget ''mutation_count'' (replied_json x (mark_response ''stored'' ?c')) = Some (JUint 2)"
    using mutation_read(2) [OF req parse marked(2)] by simp
  moreover have "cp_status ?c = 503" "cp_status ?c' = 200" by (simp_all add: mutation_captured_def)
  moreover have "mutation_count s2 = 2" using s1(3) by (simp add: mutation_count_def 2(2))
  ultimately show ?thesis
    using 1(1) 2(1) s1(3,4)
    by (simp add: customer_idempotency_does_not_cache_transient_failures_and_retry_reexecutes_def split_beta
        fake_cluster_def marked(1,3))
qed

lemma require_idempotency_allows_mutation_carrying_a_key_holds:
  assumes req: "keyed_request x None (Some (test_identity_requiring_idempotency ''org_1'')) PUT (origin_of ''/v1/kv?key=orders%2F7'')
      (idempotency_headers ''cust-key-required'') (as_bytes ''{\"value\":\"x\"}'') i (fst (fake_cluster x addr))"
  shows "require_idempotency_allows_mutation_carrying_a_key x addr"
proof -
  obtain t1 s1 where "put_keyed x (test_identity_requiring_idempotency ''org_1'') ''/v1/kv?key=orders%2F7'' ''cust-key-required''
      ''{\"value\":\"x\"}'' (fake_cluster x addr) =
      (mark_response ''stored'' (mutation_captured x PUT (origin_of ''/v1/kv?key=orders%2F7'') 200 1), (t1, s1))"
    "length (fn_mutations s1) = 1"
    using cluster_put [OF req] by (metis length_Cons list.size(3) One_nat_def)
  then show ?thesis
    by (simp add: require_idempotency_allows_mutation_carrying_a_key_def marked mutation_count_def)
      (simp add: mutation_captured_def)
qed

lemma customer_idempotency_rejects_same_key_with_different_fingerprint_holds:
  assumes req: "keyed_request x None (Some (test_identity_org ''org_1'')) PUT (origin_of ''/v1/kv?key=flags%2Fcheckout'')
      (idempotency_headers ''same-key'') (as_bytes ''{\"value\":\"on\"}'') i (fst (fake_cluster x addr))"
    and req': "keyed_request x None (Some (test_identity_org ''org_1'')) PUT (origin_of ''/v1/kv?key=flags%2Fcheckout'')
      (idempotency_headers ''same-key'') (as_bytes ''{\"value\":\"off\"}'') i' (fst (fake_cluster x addr))"
    and distinct: "ci_fingerprint i \<noteq> ci_fingerprint i'"
  shows "customer_idempotency_rejects_same_key_with_different_fingerprint x addr"
proof -
  let ?u = "origin_of ''/v1/kv?key=flags%2Fcheckout''" and ?v = "test_identity_org ''org_1''"
  let ?c = "mutation_captured x PUT ?u 200 1"
  have same: "ci_internal_key i' = ci_internal_key i"
    using req req' by (auto simp: keyed_request_def from_request_Some idempotency_for_def Let_def)
  obtain t1 s1 where 1: "put_keyed x ?v ''/v1/kv?key=flags%2Fcheckout'' ''same-key'' ''{\"value\":\"on\"}'' (fake_cluster x addr) =
      (mark_response ''stored'' ?c, (t1, s1))" "same_routes (fst (fake_cluster x addr)) t1"
    "hget (fn_records s1) (ci_internal_key i) = Some (completed_record i (stored_from_captured i ?c))"
    "fn_mutations s1 = [wire_headers None (Some ?v) (idempotency_headers ''same-key'')]"
    by (rule cluster_put [OF req])
  obtain t2 where 2: "put_keyed x ?v ''/v1/kv?key=flags%2Fcheckout'' ''same-key'' ''{\"value\":\"off\"}'' (t1, s1) =
      (held_response i' (completed_record i (stored_from_captured i ?c)), (t2, s1))"
    using held_put [OF keyed_request_same_routes [OF req' 1(2)] 1(3) [folded same] req same refl] by blast
  have "held_response i' (completed_record i stored) =
      idempotency_conflict ''idempotency key was already used with a different request''" for stored
    using distinct by (simp add: held_response_def completed_record_def claimed_record_def stored_metadata_get)
  then show ?thesis
    by (simp add: customer_idempotency_rejects_same_key_with_different_fingerprint_def 1(1,4) 2 marked mutation_count_def
        idempotency_conflict_def error_response_def json_response_def answer_field_def)
      (simp add: mutation_captured_def)
qed

text \<open>Requests without a key.\<close>

lemma plain_request:
  assumes "cluster_ok x None identity u (fst (fake_cluster x addr))" "same_routes (fst (fake_cluster x addr)) t"
    and "\<And>st n. fits x (mutation_json m (origin_uri (uri_path u) (uri_query u)) st n)"
    and "\<not> is_idempotency_primitive u \<and> uri_pq u \<noteq> None \<and> valid_utf8 (request_target u) \<and> valid_utf8 (method_str m)"
  shows "\<exists>resp t' s'. route_without_customer_idempotency x (cluster_env x None) identity m u h body (t, fake_node_default) =
      (resp, (t', s')) \<and> resp_status resp = 200 \<and> mutation_count s' = 1"
proof -
  have q: "no_redirects (fn_mutation_statuses fake_node_default)" "next_status (fn_mutation_statuses fake_node_default) = 200"
    "fn_mutations fake_node_default = []"
    by (simp_all add: fake_node_default_def no_redirects_def next_status_def)
  have u: "\<not> is_idempotency_primitive u" "uri_pq u \<noteq> None" "valid_utf8 (request_target u)" "valid_utf8 (method_str m)"
    using assms(4) by simp_all
  obtain t' where "route_without_customer_idempotency x (cluster_env x None) identity m u h body (t, fake_node_default) =
      (served x 200 (mutation_json m (origin_uri (uri_path u) (uri_query u)) 200 (Suc (mutation_count fake_node_default))),
       (t', fake_node_default\<lparr>fn_mutations := fn_mutations fake_node_default @ [wire_headers None identity h],
          fn_mutation_statuses := tl (fn_mutation_statuses fake_node_default)\<rparr>))"
    by (rule run_plain [OF cluster_ok_same_routes [OF assms(1,2)] q(1) u assms(3), unfolded q(2)])
  then show ?thesis by (simp add: served_def mutation_count_def q(3))
qed

lemma require_idempotency_does_not_gate_reads_holds:
  assumes "cluster_ok x None (Some (test_identity_requiring_idempotency ''org_1'')) (origin_of ''/v1/kv?key=orders%2F7'')
      (fst (fake_cluster x addr))"
    and "\<And>st n. fits x (mutation_json GET (origin_uri ''/v1/kv'' (Some ''key=orders%2F7'')) st n)"
  shows "require_idempotency_does_not_gate_reads x addr"
proof -
  let ?u = "origin_of ''/v1/kv?key=orders%2F7''" and ?v = "test_identity_requiring_idempotency ''org_1''"
  have u: "\<not> is_idempotency_primitive ?u \<and> uri_pq ?u \<noteq> None \<and> valid_utf8 (request_target ?u) \<and> valid_utf8 (method_str GET)"
    "\<not> path_has_dot_segment (uri_path ?u)" "authorize_route (Some ?v) GET ?u = Inr ()"
    "uri_path ?u = ''/v1/kv''" "uri_query ?u = Some ''key=orders%2F7''"
    by code_simp+
  obtain resp t' s' where "route_without_customer_idempotency x (cluster_env x None) (Some ?v) GET ?u [] []
      (fst (fake_cluster x addr), fake_node_default) = (resp, (t', s'))" "resp_status resp = 200"
    using plain_request [OF assms(1) same_routes_refl _ u(1)] assms(2) unfolding u(4,5) by blast
  moreover have "fake_cluster x addr = (fst (fake_cluster x addr), fake_node_default)" by (simp add: fake_cluster_def)
  ultimately show ?thesis
    unfolding require_idempotency_does_not_gate_reads_def
    using u(2,3) by (simp add: route_def from_request_def method_supports_customer_idempotency_def)
qed

lemma edge_identities:
  "\<exists>v. trusted_edge_identity edge_read_only (Some ''edge-secret'') = Some v \<and>
     isl (authorize_route (Some v) PUT (origin_of ''/v1/kv?key=orders%2F1''))"
  "\<exists>v. trusted_edge_identity edge_writable (Some ''edge-secret'') = Some v \<and>
     authorize_route (Some v) PUT (origin_of ''/v1/kv?key=orders%2F1'') = Inr () \<and> \<not> vi_require_idempotency v"
proof -
  have "case trusted_edge_identity edge_read_only (Some ''edge-secret'') of Some v \<Rightarrow>
      isl (authorize_route (Some v) PUT (origin_of ''/v1/kv?key=orders%2F1'')) | None \<Rightarrow> False"
    "case trusted_edge_identity edge_writable (Some ''edge-secret'') of Some v \<Rightarrow>
      authorize_route (Some v) PUT (origin_of ''/v1/kv?key=orders%2F1'') = Inr () \<and> \<not> vi_require_idempotency v | None \<Rightarrow> False"
    by code_simp+
  then show "\<exists>v. trusted_edge_identity edge_read_only (Some ''edge-secret'') = Some v \<and>
     isl (authorize_route (Some v) PUT (origin_of ''/v1/kv?key=orders%2F1''))"
    "\<exists>v. trusted_edge_identity edge_writable (Some ''edge-secret'') = Some v \<and>
     authorize_route (Some v) PUT (origin_of ''/v1/kv?key=orders%2F1'') = Inr () \<and> \<not> vi_require_idempotency v"
    by (auto split: option.splits)
qed

lemma edge_forwarded_request_with_secret_is_trusted_and_scope_checked_holds:
  assumes "cluster_ok x None (trusted_edge_identity edge_writable (Some ''edge-secret''))
      (origin_of ''/v1/kv?key=orders%2F1'') (fst (fake_cluster x addr))"
    and "\<And>st n. fits x (mutation_json PUT (origin_uri ''/v1/kv'' (Some ''key=orders%2F1'')) st n)"
  shows "edge_forwarded_request_with_secret_is_trusted_and_scope_checked x addr"
proof -
  let ?u = "origin_of ''/v1/kv?key=orders%2F1''"
  have u: "\<not> is_idempotency_primitive ?u \<and> uri_pq ?u \<noteq> None \<and> valid_utf8 (request_target ?u) \<and> valid_utf8 (method_str PUT)"
    "\<not> path_has_dot_segment (uri_path ?u)" "uri_path ?u = ''/v1/kv''" "uri_query ?u = Some ''key=orders%2F1''"
    "header_get edge_writable idempotency_key_header = None"
    by code_simp+
  obtain v w where v: "trusted_edge_identity edge_read_only (Some ''edge-secret'') = Some v"
      "isl (authorize_route (Some v) PUT ?u)"
    and w: "trusted_edge_identity edge_writable (Some ''edge-secret'') = Some w"
      "authorize_route (Some w) PUT ?u = Inr ()" "\<not> vi_require_idempotency w"
    using edge_identities by blast
  let ?t = "fst (fake_cluster x addr)"
  have start: "fake_cluster x addr = (?t, fake_node_default)" by (simp add: fake_cluster_def)
  obtain required where "authorize_route (Some v) PUT ?u = Inl required" using v(2) by (auto simp: isl_def)
  then have denied: "edge_put x edge_read_only (fake_cluster x addr) =
      (insufficient_scope_response PUT ?u required, (?t, fake_node_default))"
    using u(2) by (simp add: edge_put_def route_def v(1) start [symmetric])
  obtain resp t' s' where allowed: "route_without_customer_idempotency x (cluster_env x None) (Some w) PUT ?u edge_writable
      (as_bytes ''{\"value\":\"x\"}'') (?t, fake_node_default) = (resp, (t', s'))" "resp_status resp = 200" "mutation_count s' = 1"
    using plain_request [OF assms(1) [unfolded w(1)] same_routes_refl _ u(1)] assms(2) unfolding u(3,4) by blast
  have "edge_put x edge_writable (?t, fake_node_default) = (resp, (t', s'))"
    using u(1,2,5) w(2,3) allowed(1) by (simp add: edge_put_def route_def w(1) from_request_def)
  then show ?thesis
    using allowed(2,3)
    by (simp add: edge_forwarded_request_with_secret_is_trusted_and_scope_checked_def denied v(1)
        insufficient_scope_response_def json_response_def mutation_count_def fake_node_default_def)
qed

end
