(* ===== verification/Spec2Isabelle.thy ===== *)
theory Spec2Isabelle
  imports Prelude Http Routing Route_Table Revocation Burst Gate_Progress Auth Scopes Forward Idempotency
    Json Proxy Leadership Cluster Interleaving Lost_Reply Server Tests_Routing Tests_Table Tests_Revocation
    Tests_Auth Tests_Scopes Tests_Proxy Tests_Cluster
begin

text \<open>
  \<^bold>\<open>The Fiducia load balancer.\<close> The crate under \<^verbatim>\<open>src/src/\<close> is an HTTP reverse proxy in front of a
  sharded cluster. A client request is authenticated, authorised by scope, given a routing key and
  so a shard, and forwarded to the shard's leader; a node that is not the leader says so, and the
  request is retried elsewhere. A mutation may carry an idempotency key, which the load balancer
  claims at the cluster before it forwards the request and completes with the stored response
  afterwards. The development models this code function by function and proves what makes it
  correct.

  \<^bold>\<open>The parts and their theories\<close>, in the order they build on each other:

  \<^item> \<open>Prelude\<close>: Rust's machine integers, strings as UTF-8 bytes with the methods the code calls,
    \<^verbatim>\<open>HashMap\<close> (locale \<open>hash_map\<close>), bounded caches (locale \<open>bounded_cache\<close>), reachable states
    and the invariant rule (locale \<open>inductive_invariant\<close>).
  \<^item> \<open>Http\<close>: methods, header maps, URIs, JSON values, responses, and the record \<open>externals\<close> of
    the library functions the code relies on.
  \<^item> \<open>Routing\<close> (\<^verbatim>\<open>routing.rs\<close>): \<open>routing_key\<close>, \<open>routing_key_with_body\<close>, percent decoding.
  \<^item> \<open>Route_Table\<close> (\<^verbatim>\<open>table.rs\<close>): the record \<open>route_table\<close> (\<^verbatim>\<open>RouteTable\<close> with its \<^verbatim>\<open>Inner\<close>),
    seeding, leader hints, round robin, counters, and \<open>apply_brain_snapshot_at\<close> with a declarative
    specification; \<open>table_step\<close> are the steps of all tasks that share the table.
  \<^item> \<open>Revocation\<close> (\<^verbatim>\<open>revocation.rs\<close>): the decision cache, the authority's answer, \<open>authorize\<close> for
    one caller, and \<open>gate_step\<close>, the same code cut at its mutexes and \<^verbatim>\<open>await\<close>s so that callers
    interleave, with the map of key locks and the reference counts. \<open>Burst\<close>: the callers of one token in
    one second, the situation the locks are for, among any other callers and after any history.
    \<open>Gate_Progress\<close>: the gate does not deadlock, and \<open>gate_step\<close> run by one caller is \<open>authorize\<close>.
  \<^item> \<open>Auth\<close> (\<^verbatim>\<open>auth.rs\<close>): credentials, API key introspection, JWT verification, JWKS and decision
    caches, the trusted edge, configuration; \<open>decisions_step\<close> are the cache stores of all requests, with the
    history of the introspections behind them.
  \<^item> \<open>Scopes\<close> (\<^verbatim>\<open>proxy.rs\<close>): the dot-segment guard, scope tables, \<open>authorize_route\<close>.
  \<^item> \<open>Forward\<close> (\<^verbatim>\<open>proxy.rs\<close>): one exchange (\<open>forward_once\<close>), its classification, and the retry
    loop (\<open>forward_hops\<close>, \<open>forward_with_redirect\<close>).
  \<^item> \<open>Idempotency\<close> and \<open>Proxy\<close> (\<^verbatim>\<open>proxy.rs\<close>): the data of the idempotency protocol, its three
    exchanges, and the entry point \<open>route\<close>.
  \<^item> \<open>Leadership\<close> (\<^verbatim>\<open>proxy.rs\<close>, \<^verbatim>\<open>table.rs\<close>): forwarding against a cluster of which one node is the leader
    (\<open>led_by\<close>, a predicate on what the nodes answer): stale tables, dead nodes, redirects.
  \<^item> \<open>Json\<close>: what the protocol relies on of serde_json (\<open>serde_laws\<close>: a value printed and parsed
    again is the same value, as far as it is nested within the parser's limit), with a codec that has it.
  \<^item> \<open>Cluster\<close> and \<open>Interleaving\<close> (\<^verbatim>\<open>proxy.rs\<close>, module \<^verbatim>\<open>tests\<close>): the reference node
    \<open>fake_node\<close> of the crate's tests, the only description of the node's half of the protocol in the
    repository; the load balancer run against it (\<open>cluster_env\<close>); the specification \<open>keyed_call\<close> of
    a keyed request; and \<open>keyed_step\<close>, keyed requests of many clients cut at their exchanges.
    \<open>Lost_Reply\<close>: the same cluster when the answer to a mutation is lost.
  \<^item> \<open>Server\<close> (\<^verbatim>\<open>main.rs\<close>): start-up, readiness, operator routes, the two routers, and \<open>serve\<close>, one
    request at either listener through its router and handler.
  \<^item> \<open>Test_Base\<close> and the theories \<open>Tests_*\<close>: the crate's unit tests, each stated on the model
    under its name and proved, with concrete functions for the libraries the tests run.
  \<^item> This theory: the properties that span the parts.

  \<^bold>\<open>How state and effects are modelled.\<close> An operation on shared state takes the state and
  returns it changed. What lies outside the crate is an argument: library functions are fields of
  \<open>externals\<close>; an exchange with another service is its outcome (\<open>auth_io\<close>, \<open>fetched\<close>, \<open>answer\<close>);
  the exchanges with the nodes are \<open>fe_send\<close>, a function of the request on the routing table and
  an arbitrary environment state, so that nodes may have any state, and other tasks may change the
  table, while a request is in flight. Time limits are outcomes: an exchange or a chunk that
  fails. Errors are values (\<open>+\<close>, \<open>option\<close>); an early return is a branch. What was put on the wire
  is stated by \<open>logged\<close>, the same environment with a log, which is shown not to change anything.

  \<^bold>\<open>What the lemmas show.\<close> \<open>Routing\<close>: keys agree with their spellings, decoding undoes
  encoding, organisations stay apart. \<open>Route_Table\<close>: an invariant of every reachable table, the
  refinement of the snapshot, hints, fairness. \<open>Revocation\<close>: the gate fails closed, calls are
  single flight, the cache is bounded; its shared clock can refuse a valid answer. \<open>Burst\<close>: a burst of
  callers gets one answer, as long as a full cache does not evict it within the second. \<open>Gate_Progress\<close>: every caller is answered. \<open>Auth\<close>: no JWT without a live revocation check, identities
  come from the auth service, no longer ago than the cache lifetime, or from the trusted edge. \<open>Scopes\<close>: authorisation fails closed.
  \<open>Forward\<close>: at most four requests, only to members, a mutation takes effect at most once, headers
  on the wire are the verified ones. \<open>Leadership\<close>: a request reaches its shard's leader within the four
  hops, a leader change costs one redirect and is remembered. \<open>Idempotency\<close>, \<open>Proxy\<close>: keys identify requests, replays
  are faithful, a keyed mutation runs only under its claim. \<open>Cluster\<close>, \<open>Interleaving\<close>: with the
  reference node a retried mutation runs until it is final and never again, and a key has one
  runner however requests interleave. \<open>Lost_Reply\<close>: after the ambiguous 502 the retry with the same key
  runs the mutation a second time. \<open>Server\<close>: with TLS nothing is proxied in the clear, the operator
  routes show the topology to administrators only. Here: identity from the client's headers to the
  wire, the table's invariant through whole requests, readiness.

  \<^bold>\<open>Bounds.\<close> The retry loop recurses on \<^verbatim>\<open>MAX_HOPS\<close> = 4, the code's own bound, so the model
  needs no fuel beyond it, and \<open>hops_suffice\<close> says for which clusters four are enough; every other recursion is on the data, and string cutting has a
  measure. All definitions are total. Counters, ports, statuses stored in records and clock
  readings in seconds keep their width.

  \<^bold>\<open>What is not modelled.\<close> TCP, TLS and the HTTP libraries, with tracing and panic catching among the
  tower layers of \<^verbatim>\<open>main.rs\<close>; how axum's extractor and method check and the 1 MiB body limit decide
  (arguments, \<open>http_layers\<close>); the construction of HTTP clients; tracing;
  serde decoding of the control plane's, the auth service's and the authority's answers (arguments);
  the signature check of a JWT (argument); overflow of \<^verbatim>\<open>Instant\<close>; an event stream that never ends.
  The timer of the refresh task is not modelled: a refresh is a step of the table at any time.
\<close>

section \<open>The server's operator routes\<close>

text \<open>
  The operator routes ask for what the proxy asks for. \<^verbatim>\<open>authorize_admin_read\<close>, a second copy
  of the scope check in \<^verbatim>\<open>main.rs\<close>, lets in exactly the identities that \<^verbatim>\<open>authorize_route\<close> lets
  in on a route that needs the administrative read scopes; in particular nobody anonymous.
\<close>

lemma admin_read_agrees_with_routes:
  assumes "required_scopes_for_route m u = admin_read_scopes"
  shows "authorize_admin_read identity \<longleftrightarrow> authorize_route identity m u = Inr ()"
proof -
  have "admin_scope_matches = scope_matches"
    by (simp add: fun_eq_iff admin_scope_matches_def scope_matches_def)
  moreover have "main_admin_read_scopes = admin_read_scopes" "admin_read_scopes \<noteq> []"
    by (simp_all add: main_admin_read_scopes_def admin_read_scopes_def)
  ultimately show ?thesis
    by (auto simp: authorize_admin_read_def authorize_route_def assms has_any_scope_def Let_def
        split: option.split)
qed

text \<open>
  The diagnosis is the data plane's decision. Where the routing key of a request is in its
  URI, or the request has no body, \<^verbatim>\<open>/_lb/resolve\<close> answers an administrator with the very shard and
  node the proxy would choose for that caller, and moves the table as the proxy would.
\<close>

lemma resolve_shows_proxy_route:
  assumes "request_identity x lib io secret h (app_auth s) = (Inr identity, auth)"
    and "authorize_admin_read identity" "x_uri_parse x path = Some u"
    and "routing_key x u (map_option vi_org_id identity) \<noteq> None \<or> body = [] \<and> x_json_parse x [] = None"
  shows "case choose_target x identity u body (app_routes s) of ((shard, target), t) \<Rightarrow>
    resolve x lib io secret h path s =
      (json_response 200 (JObject [(''path'', JString path),
         (''key'', opt_json JString (routing_key x u (map_option vi_org_id identity))),
         (''shard'', opt_json (\<lambda>n. JUint (ucast n)) shard), (''target'', opt_json JString target)]),
       s\<lparr>app_auth := auth, app_routes := t\<rparr>)"
proof -
  have "routing_key_with_body x u body (map_option vi_org_id identity) =
      routing_key x u (map_option vi_org_id identity)"
    using assms(4) by (auto simp: routing_key_with_body_def json_body_field_def Let_def split: option.split)
  then show ?thesis
    using assms(1-3)
    by (auto simp: resolve_def resolve_route_def choose_target_def Let_def split: option.splits prod.splits)
qed

section \<open>The server and its table\<close>

text \<open>
  C20: ready means routable. From the start of the binary, whatever the table has been through,
  if \<^verbatim>\<open>/readyz\<close> answers 200, then every request, keyed or not, gets a target, and the target is a
  member: no request is answered 503 \<^verbatim>\<open>no_route\<close>. (The shared crate's hash is below the count it
  is given, which the binary keeps positive.)
\<close>

theorem ready_means_routable:
  assumes "reachable (server_init x) (table_step x) t"
    and "resp_status (readiness_response t) = 200"
    and "hash_in_range_of x"
  shows "\<exists>shard node t'. choose_target x identity u body t = ((shard, Some node), t') \<and> node \<in> set (rt_nodes t)"
proof -
  have inv: "table_inv x t" "0 < rt_shard_count t"
    using sv.reachable_inv [OF assms(1)] by (auto simp: server_inv_def)
  have "is_hydrated t" using assms(2) by (auto simp: readiness_response_def split: if_splits)
  then obtain s0 u0 l where "rt_leaders t = (s0, u0) # l"
    by (cases "rt_leaders t") (auto simp: is_hydrated_def)
  then have "leader_for t s0 = Some u0" by (simp add: leader_for_def)
  with inv(1) have nodes: "rt_nodes t \<noteq> []" unfolding table_inv_def by fastforce
  have pick: "rt_nodes t ! (unat (rt_cursor t) mod length (rt_nodes t)) \<in> set (rt_nodes t)"
    using nodes by simp
  have leader: "\<exists>node \<in> set (rt_nodes t). leader_for t (x_shard_for x key (rt_shard_count t)) = Some node" for key
    using inv nodes assms(3) unfolding table_inv_def hash_in_range_of_def by blast
  show ?thesis
    using pick leader
    by (cases "routing_key_with_body x u body (map_option vi_org_id identity)")
      (fastforce simp: choose_target_def any_node_pick [OF nodes] Let_def)+
qed

text \<open>
  C17: serving requests keeps the table sound. If the table is one a server can reach, and other
  tasks keep it so while requests are in flight, then after any call of \<^verbatim>\<open>route\<close>, with all its
  retries, redirects and protocol exchanges, the table is again one a server can reach, with the
  same number of shards; so the invariant of the table holds throughout.
\<close>

theorem route_keeps_server_table:
  assumes "reachable (server_init x) (table_step x) t" "hash_in_range_of x"
    and "env_keeps (\<lambda>t. hash_in_range_of x \<and> server_table x t) env"
    and "route x env identity m u h body (t, w) = (resp, (t', w'))"
  shows "reachable (server_init x) (table_step x) t' \<and> rt_shard_count t' = rt_shard_count t \<and> table_inv x t'"
proof -
  have "hash_in_range_of x \<and> server_table x t' \<and> rt_shard_count t' = rt_shard_count t"
    using st.route_good [OF assms(4) _ assms(3)] assms(1,2) by simp
  then show ?thesis using sv.reachable_inv by (auto simp: server_inv_def)
qed

section \<open>From the client's headers to the nodes\<close>

text \<open>
  C1: no node ever hears of an organisation that was not authenticated. Whatever request reaches
  the server on whichever port, if a request on the wire, be it the client's own or one of the
  idempotency protocol, names an organisation, then the client request it serves was
  authenticated as that organisation: by the trusted edge's headers with the configured secret,
  or else by its own API key or JWT; and where TLS is configured, it came over TLS.
\<close>

theorem wire_identity_is_authenticated:
  assumes "serve L x lib io (logged env) sv over_tls m u h body (auth, (t, (w, []))) = (resp, (auth', (t', (w', log))))"
    and "(out, s) \<in> set log" "org \<in> set (header_get_all (or_headers out) ''x-fiducia-org-id'')"
  shows "\<exists>v. vi_org_id v = org \<and>
    (trusted_edge_identity h (fe_secret env) = Some v \<or>
     trusted_edge_identity h (fe_secret env) = None \<and> fst (authenticate x lib io h auth) = Inr (Some v)) \<and>
    (case sv of ServePlain _ \<Rightarrow> True | ServeTls _ _ \<Rightarrow> over_tls)"
proof -
  have "log \<noteq> []" using assms(2) by auto
  then have p: "proxy_fallback x lib io (logged env) m u h body (auth, (t, (w, []))) = (resp, (auth', (t', (w', log))))"
    and tls: "case sv of ServePlain _ \<Rightarrow> True | ServeTls _ _ \<Rightarrow> over_tls"
    using serve_cases [OF assms(1)] by simp_all
  obtain identity where id: "fst (request_identity x lib io (fe_secret env) h auth) = Inr identity"
    and r: "route x (logged env) identity m u h body (t, (w, [])) = (resp, (t', (w', log)))"
    using p assms(2)
    by (cases "fst (request_identity x lib io (fe_secret env) h auth)")
      (auto simp: proxy_fallback_def split: prod.splits)
  have "header_get_all (or_headers out) ''x-fiducia-org-id'' = org_header identity"
    using route_log [OF r] assms(2) by (auto simp: speaks_for_def list_all_iff)
  then obtain v where "identity = Some v" "vi_org_id v = org"
    using assms(3) by (auto simp: org_header_def split: option.splits)
  with id tls show ?thesis
    by (auto simp: request_identity_def split: option.splits)
qed

section \<open>Witnesses\<close>

text \<open>A server with two shards and two nodes, started from the environment.\<close>

definition sample_environment :: environment where
  "sample_environment name =
     (if name = ''FIDUCIA_SHARD_COUNT'' then Some ''2''
      else if name = ''FIDUCIA_NODES'' then Some ''a:1, http://b/ ,a:1,http://u@c'' else None)"

lemma sample_startup: "server_init sample_externals sample_table"
proof -
  have tls: "tls_settings sample_environment = Inr None"
    by (simp add: tls_settings_def sample_environment_def)
  have "trim ''2'' = ''2''" by (simp add: trim_def str_simps is_whitespace_def)
  then have "shard_count_from_env_value (Some ''2'') = 2"
    by (simp add: shard_count_from_env_value_def parse_unsigned_def max_def word_le_nat_alt)
  moreover have "seeds_from_env sample_environment = [''a:1'', '' http://b/ '', ''a:1'', ''http://u@c'']"
    by (simp add: seeds_from_env_def sample_environment_def)
  moreover have "sample_environment ''FIDUCIA_SHARD_COUNT'' = Some ''2''" by (simp add: sample_environment_def)
  moreover obtain su where su: "main_startup sample_externals False sample_environment = Inr su"
    by (simp add: main_startup_def Let_def tls)
  ultimately have "app_routes (su_state su) = sample_table"
    by (simp only: main_startup_Inr [OF su] sample_table_def)
  with su show ?thesis unfolding server_init_def by metis
qed

lemma sample_server_table: "reachable (server_init sample_externals) (table_step sample_externals) sample_table"
  using sample_startup by (rule reach_init)

lemma sample_hash: "hash_in_range_of sample_externals"
  by (simp add: hash_in_range_of_def sample_externals_def word_gt_0 word_mod_less_divisor)

theorem ready_means_routable_witness:
  "resp_status (readiness_response sample_table) = 200 \<and>
   (\<exists>shard node t'. choose_target sample_externals None (origin_uri ''/v1/kv'' (Some ''key=a'')) [] sample_table =
      ((shard, Some node), t') \<and> node \<in> {''http://a:1'', ''http://b''})"
proof -
  have ready: "resp_status (readiness_response sample_table) = 200"
    by (simp add: readiness_response_def is_hydrated_def sample_table_eq)
  from ready_means_routable [OF sample_server_table ready sample_hash,
      of None "origin_uri ''/v1/kv'' (Some ''key=a'')" "[]"] ready
  show ?thesis by (auto simp: sample_table_eq)
qed

theorem route_keeps_server_table_witness:
  "\<exists>resp t' w'. route sample_externals sample_forward_env (Some sample_identity) PUT (origin_uri ''/v1/kv'' None) [] []
      (sample_table, ()) = (resp, (t', w')) \<and> rt_shard_count t' = 2 \<and> table_inv sample_externals t'"
proof -
  obtain resp t' w' where r: "route sample_externals sample_forward_env (Some sample_identity) PUT
      (origin_uri ''/v1/kv'' None) [] [] (sample_table, ()) = (resp, (t', w'))"
    by (metis prod.exhaust)
  have "env_keeps (\<lambda>t. hash_in_range_of sample_externals \<and> server_table sample_externals t) sample_forward_env"
    by (auto simp: env_keeps_def sample_forward_env_def)
  from route_keeps_server_table [OF sample_server_table sample_hash this r] r
  show ?thesis by (auto simp: sample_table_eq)
qed

text \<open>A caller behind the trusted edge, whose secret is \<open>s\<close>.\<close>

definition sample_edge :: "string \<Rightarrow> header_map" where
  "sample_edge scopes = [(''x-fiducia-edge-auth'', ''s''), (''x-fiducia-org-id'', ''o''), (''x-fiducia-scopes'', scopes)]"

lemma sample_edge_identity:
  "trusted_edge_identity (sample_edge ''kv:*'') (Some ''s'') = Some sample_identity"
  "trusted_edge_identity (sample_edge ''admin:*'') (Some ''s'') = Some (sample_identity\<lparr>vi_scopes := [''admin:*'']\<rparr>)"
proof -
  have t: "trim ''o'' = ''o''" by (simp add: trim_def str_simps is_whitespace_def)
  have w: "split_whitespace ''kv:*'' = [''kv:*'']" "split_whitespace ''admin:*'' = [''admin:*'']"
    by (simp_all add: split_whitespace_def str_simps is_whitespace_def)
  have v: "valid_scopes [''kv:*'']" "valid_scopes [''admin:*'']"
    by (simp_all add: valid_scopes_def valid_chars_def str_simps is_whitespace_def)
  show "trusted_edge_identity (sample_edge ''kv:*'') (Some ''s'') = Some sample_identity"
    "trusted_edge_identity (sample_edge ''admin:*'') (Some ''s'') = Some (sample_identity\<lparr>vi_scopes := [''admin:*'']\<rparr>)"
    by (simp_all add: trusted_edge_identity_def unique_header_str_def header_get_all_def edge_auth_header_def
        header_to_str_def constant_time_eq_iff t sample_identifiers w v sample_identity_def sample_edge_def)
qed

theorem wire_identity_is_authenticated_witness:
  "\<exists>resp auth' t' w' log. serve sample_layers sample_protocol_x sample_lib sample_io
      (logged (sample_protocol_env sample_created)) (ServePlain 8088) False
      PUT (origin_uri ''/v1/kv'' None) (sample_edge ''kv:*'') [] (sample_auth, (sample_table, (1, []))) =
      (resp, (auth', (t', (w', log)))) \<and>
    (\<exists>out \<in> fst ` set log. \<exists>org \<in> set (header_get_all (or_headers out) ''x-fiducia-org-id'').
       \<exists>v. vi_org_id v = org \<and> trusted_edge_identity (sample_edge ''kv:*'') (Some ''s'') = Some v)"
proof -
  let ?env = "sample_protocol_env sample_created" and ?h = "sample_edge ''kv:*''"
  have kv: "sample_reply 1 sample_created ''/v1/kv'' = sample_created" by (simp add: sample_reply_def)
  have out: "outcome sample_protocol_x (sample_reply 1 sample_created ''/v1/kv'') =
      Served \<lparr>resp_status = 201, resp_headers = [], resp_body = BodyBytes [2]\<rparr>"
    unfolding kv using sample_outcomes(2) by (simp add: sample_created_def)
  obtain t' out where run: "route_without_customer_idempotency sample_protocol_x (logged ?env) (Some sample_identity) PUT
      sample_kv ?h [] (sample_table, (1, [])) =
      (\<lparr>resp_status = 201, resp_headers = [], resp_body = BodyBytes [2]\<rparr>, (t', (1, [(out, sample_created)])))"
    using sample_exchange [of sample_table "''/v1/kv''" "[]" PUT 1 sample_created _ ?h "[]"] out kv sample_print
    by (auto simp: sample_table_eq sample_paths_def method_is_replay_safe_def)
  have none: "from_request sample_protocol_x (Some sample_identity) PUT sample_kv ?h [] = Inr None"
    by (simp add: from_request_def header_get_def sample_edge_def idempotency_key_header_def)
  have "\<not> path_has_dot_segment ''/v1/kv''" by (simp add: path_has_dot_segment_def to_ascii_lowercase_def)
  then have r: "route sample_protocol_x (logged ?env) (Some sample_identity) PUT sample_kv ?h [] (sample_table, (1, [])) =
      (\<lparr>resp_status = 201, resp_headers = [], resp_body = BodyBytes [2]\<rparr>, (t', (1, [(out, sample_created)])))"
    using run by (simp add: route_def sample_identity_authorized none) (simp add: sample_identity_def)
  have secret: "fe_secret ?env = Some ''s''" by (simp add: sample_protocol_env_def)
  have p: "proxy_fallback sample_protocol_x sample_lib sample_io (logged ?env) PUT sample_kv ?h []
      (sample_auth, (sample_table, (1, []))) =
      (\<lparr>resp_status = 201, resp_headers = [], resp_body = BodyBytes [2]\<rparr>, (sample_auth, (t', (1, [(out, sample_created)]))))"
    by (simp add: proxy_fallback_def request_identity_def secret sample_edge_identity r)
  have sv: "serve sample_layers sample_protocol_x sample_lib sample_io (logged ?env) (ServePlain 8088) False PUT sample_kv ?h []
      (sample_auth, (sample_table, (1, []))) =
      (\<lparr>resp_status = 201, resp_headers = [], resp_body = BodyBytes [2]\<rparr>, (sample_auth, (t', (1, [(out, sample_created)]))))"
    using p by (simp add: serve_def Let_def dispatch_def build_app_def run_handler_def sample_layers_def)
  have "header_get_all (or_headers out) ''x-fiducia-org-id'' = [''o'']"
    using route_log [OF r] by (simp add: speaks_for_def org_header_def) (simp add: sample_identity_def)
  then have org: "''o'' \<in> set (header_get_all (or_headers out) ''x-fiducia-org-id'')" by simp
  from wire_identity_is_authenticated [OF sv _ org] obtain v where "vi_org_id v = ''o''"
    "trusted_edge_identity ?h (Some ''s'') = Some v"
    by (auto simp: secret sample_edge_identity)
  with sv org show ?thesis by auto
qed

end
